(* ===== verification/Prelude.thy ===== *)
theory Prelude
  imports Main "HOL-Library.Word"
begin

section \<open>Prelude: types, collections and generic lemmas\<close>

text \<open>
  The names every other theory uses: the machine integers of the Rust code, byte strings,
  the checked and wrapping arithmetic of the release profile (\<open>overflow-checks = false\<close> in
  Cargo.toml, so that \<open>+\<close>, \<open>-\<close>, \<open>*\<close> and \<open>Iterator::sum\<close> on u64 wrap around), and generic
  lemmas on words, lists and maps that the components share.
\<close>

named_theorems wp_rules \<open>weakest preconditions of the effectful primitives\<close>
named_theorems run_rules \<open>what the effectful primitives do on a concrete state\<close>
named_theorems store_defs \<open>the trees of the server's database as lenses of its state\<close>

type_synonym u8 = "8 word"
type_synonym u16 = "16 word"
type_synonym u32 = "32 word"
type_synonym u64 = "64 word"
type_synonym bytes = "u8 list"

text \<open>
  A monero \<open>Address\<close> comes from the monero crate and is only passed around, parsed and
  printed. It is opaque here: a value of type string that no definition looks into.
\<close>

type_synonym address = string

subsection \<open>Machine arithmetic\<close>

definition checked_sub :: "'a::len word \<Rightarrow> 'a word \<Rightarrow> 'a word option" where
  "checked_sub a b = (if b \<le> a then Some (a - b) else None)"

definition as_bytes :: "string \<Rightarrow> bytes" where
  "as_bytes s = map of_char s"

lemma of_char_u8: "unat (of_char c :: u8) = of_char c"
proof -
  have "(of_char c :: u8) = of_nat (of_char c)" by (simp add: of_nat_of_char)
  moreover have "(of_char c :: nat) < 256" by (rule nat_of_char_less_256)
  ultimately show ?thesis by (simp add: unsigned_of_nat take_bit_nat_eq_self)
qed

lemma as_bytes_inject [simp]: "as_bytes s = as_bytes t \<longleftrightarrow> s = t"
proof -
  have "inj (of_char :: char \<Rightarrow> u8)"
    by (rule injI) (metis of_char_u8 char_of_char)
  then show ?thesis by (simp add: as_bytes_def inj_map_eq_map)
qed

lemma length_as_bytes [simp]: "length (as_bytes s) = length s"
  by (simp add: as_bytes_def)

lemma checked_sub_eq_Some:
  "checked_sub a b = Some c \<longleftrightarrow> b \<le> a \<and> c = a - b"
  by (auto simp: checked_sub_def)

lemma checked_sub_eq_None:
  "checked_sub a b = None \<longleftrightarrow> a < b"
  by (auto simp: checked_sub_def)

lemma unat_add_exact:
  fixes a b :: "'a::len word"
  shows "unat a + unat b < 2 ^ LENGTH('a) \<Longrightarrow> unat (a + b) = unat a + unat b"
  by (simp add: unat_word_ariths)

lemma unat_mult_exact:
  fixes a b :: "'a::len word"
  shows "unat a * unat b < 2 ^ LENGTH('a) \<Longrightarrow> unat (a * b) = unat a * unat b"
  by (simp add: unat_word_ariths)

lemma unat_sub_exact:
  fixes a b :: "'a::len word"
  shows "unat b \<le> unat a \<Longrightarrow> unat (a - b) = unat a - unat b"
  by (simp add: unat_sub word_le_nat_alt)

text \<open>A subtraction that goes below zero wraps around by \<open>2 ^ w\<close>.\<close>

lemma unat_sub_wraps:
  fixes a b :: "'a::len word"
  assumes "unat a < unat b"
  shows "unat (a - b) = 2 ^ LENGTH('a) + unat a - unat b"
  using assms by (simp add: unat_sub_if')

text \<open>A wrapping sum of words is the exact sum when the exact sum fits.\<close>

lemma unat_sum_list_exact:
  fixes xs :: "'a::len word list"
  shows "sum_list (map unat xs) < 2 ^ LENGTH('a) \<Longrightarrow>
    unat (sum_list xs) = sum_list (map unat xs)"
proof (induction xs)
  case (Cons x xs)
  then have "unat (sum_list xs) = sum_list (map unat xs)" by simp
  with Cons.prems show ?case by (simp add: unat_add_exact)
qed simp

lemma unat_of_nat_le: "unat (of_nat n :: 'a::len word) \<le> n"
  by (simp add: unsigned_of_nat)

lemma of_nat_leI:
  fixes w :: "'a::len word"
  shows "n \<le> unat w \<Longrightarrow> of_nat n \<le> w"
  using order_trans [OF unat_of_nat_le] by (simp add: word_le_nat_alt)

subsection \<open>Lists and maps\<close>

lemma nth_list_update_split:
  "xs[i := v] ! j = (if j = i \<and> i < length xs then v else xs ! j)"
  by (auto simp: list_update_beyond)

lemma map_le_upd_fresh: "k \<notin> dom m \<Longrightarrow> m \<subseteq>\<^sub>m m(k \<mapsto> v)"
  by (auto simp: map_le_def)

text \<open>
  Iterating over a tree visits every key once, in sled's own order of the encoded keys.
  The order is not fixed here: an operation that iterates takes the list of keys it visits.
\<close>

definition enumerates :: "'k list \<Rightarrow> ('k \<rightharpoonup> 'v) \<Rightarrow> bool" where
  "enumerates ks m \<longleftrightarrow> distinct ks \<and> set ks = dom m"

definition entries :: "'k list \<Rightarrow> ('k \<rightharpoonup> 'v) \<Rightarrow> ('k \<times> 'v) list" where
  "entries ks m = List.map_filter (\<lambda>k. map_option (Pair k) (m k)) ks"

lemma entries_Nil [simp]: "entries [] m = []"
  by (simp add: entries_def)

lemma entries_Cons [simp]:
  "entries (k # ks) m = (case m k of None \<Rightarrow> entries ks m | Some v \<Rightarrow> (k, v) # entries ks m)"
  by (simp add: entries_def split: option.split)

lemma set_entries: "set (entries ks m) = {(k, v). k \<in> set ks \<and> m k = Some v}"
  by (induction ks) (auto split: option.splits)

lemma set_entries_all: "enumerates ks m \<Longrightarrow> set (entries ks m) = {(k, v). m k = Some v}"
  by (auto simp: set_entries enumerates_def)

lemma map_fst_entries: "set ks \<subseteq> dom m \<Longrightarrow> map fst (entries ks m) = ks"
  by (induction ks) (auto split: option.splits)

lemma map_of_entries: "map_of (entries ks m) k = (if k \<in> set ks then m k else None)"
  by (induction ks) (auto split: option.splits)

lemma map_of_entries_all: "enumerates ks m \<Longrightarrow> map_of (entries ks m) = m"
  by (auto simp: fun_eq_iff map_of_entries enumerates_def dom_def)

lemma length_entries_le: "length (entries ks m) \<le> length ks"
  by (induction ks) (auto split: option.splits)

lemma enumerates_card: "enumerates ks m \<Longrightarrow> length ks = card (dom m)"
  by (metis distinct_card enumerates_def)

lemma enumerates_exists: "finite (dom m) \<Longrightarrow> \<exists>ks. enumerates ks m"
  using finite_distinct_list by (fastforce simp: enumerates_def)

subsection \<open>Decimal numerals\<close>

text \<open>\<open>to_string\<close> on an unsigned integer, and reading such a numeral back.\<close>

fun decimal :: "nat \<Rightarrow> string" where
  "decimal n = (if n < 10 then [char_of (48 + n)]
    else decimal (n div 10) @ [char_of (48 + n mod 10)])"

declare decimal.simps [simp del]

definition to_decimal :: "'a::len word \<Rightarrow> string" where
  "to_decimal w = decimal (unat w)"

definition of_decimal :: "string \<Rightarrow> nat" where
  "of_decimal s = foldl (\<lambda>acc c. 10 * acc + (of_char c - 48)) 0 s"

definition is_digit :: "char \<Rightarrow> bool" where
  "is_digit c \<longleftrightarrow> 48 \<le> (of_char c :: nat) \<and> (of_char c :: nat) \<le> 57"

lemma of_char_digit: "d < 10 \<Longrightarrow> (of_char (char_of (48 + d)) :: nat) = 48 + d"
  by (simp add: of_char_of)

lemma of_decimal_decimal [simp]: "of_decimal (decimal n) = n"
proof (induction n rule: decimal.induct)
  case (1 n)
  show ?case
  proof (cases "n < 10")
    case True
    then show ?thesis by (simp add: decimal.simps [of n] of_decimal_def of_char_digit)
  next
    case False
    with 1 have "of_decimal (decimal (n div 10)) = n div 10" by simp
    with False show ?thesis
      by (simp add: decimal.simps [of n] of_decimal_def of_char_digit)
  qed
qed

lemma decimal_digits: "c \<in> set (decimal n) \<Longrightarrow> is_digit c"
proof (induction n rule: decimal.induct)
  case (1 n)
  then show ?case
    by (auto simp: decimal.simps [of n] is_digit_def of_char_digit split: if_splits)
qed

lemma decimal_nonempty [simp]: "decimal n \<noteq> []"
  by (subst decimal.simps) simp

lemma decimal_inject [simp]: "decimal m = decimal n \<longleftrightarrow> m = n"
  by (metis of_decimal_decimal)

lemma of_decimal_to_decimal [simp]: "of_decimal (to_decimal w) = unat w"
  by (simp add: to_decimal_def)

end
