(* ===== verification/Effects.thy ===== *)
theory Effects
  imports Prelude
begin

section \<open>Effects: state, panics and weakest preconditions\<close>

text \<open>
  A handler of the server is a computation over its state that returns a value or panics.
  A panic keeps the effects made before it, as in the code: the database and the log
  channel are shared, so nothing is rolled back. \<open>and_then\<close> is sequencing (the next Rust
  statement, or \<open>.await\<close>), \<open>panic\<close> is a failed \<open>unwrap\<close>.
\<close>

datatype 'a outcome = Done 'a | Panic

type_synonym ('s, 'a) eff = "'s \<Rightarrow> 'a outcome \<times> 's"

definition ret :: "'a \<Rightarrow> ('s, 'a) eff" where
  "ret x = (\<lambda>s. (Done x, s))"

definition panic :: "('s, 'a) eff" where
  "panic = (\<lambda>s. (Panic, s))"

definition and_then :: "('s, 'a) eff \<Rightarrow> ('a \<Rightarrow> ('s, 'b) eff) \<Rightarrow> ('s, 'b) eff" where
  "and_then m f = (\<lambda>s. case m s of (Done x, s') \<Rightarrow> f x s' | (Panic, s') \<Rightarrow> (Panic, s'))"

definition gets :: "('s \<Rightarrow> 'a) \<Rightarrow> ('s, 'a) eff" where
  "gets f = (\<lambda>s. (Done (f s), s))"

definition modify :: "('s \<Rightarrow> 's) \<Rightarrow> ('s, unit) eff" where
  "modify f = (\<lambda>s. (Done (), f s))"

definition lift_outcome :: "'a outcome \<Rightarrow> ('s, 'a) eff" where
  "lift_outcome r = (\<lambda>s. (r, s))"

text \<open>\<open>Option::unwrap\<close> and \<open>Result::unwrap\<close>.\<close>

definition unwrap_opt :: "'a option \<Rightarrow> ('s, 'a) eff" where
  "unwrap_opt x = (case x of None \<Rightarrow> panic | Some v \<Rightarrow> ret v)"

definition unwrap_res :: "'e + 'a \<Rightarrow> ('s, 'a) eff" where
  "unwrap_res x = (case x of Inl e \<Rightarrow> panic | Inr v \<Rightarrow> ret v)"

definition unwrapped :: "('s, 'e + 'a) eff \<Rightarrow> ('s, 'a) eff" where
  "unwrapped m = and_then m unwrap_res"

text \<open>\<open>for_each\<close>: the body for every element in order, stopping at a panic.\<close>

fun each :: "('a \<Rightarrow> ('s, unit) eff) \<Rightarrow> 'a list \<Rightarrow> ('s, unit) eff" where
  "each f [] = ret ()"
| "each f (x # xs) = and_then (f x) (\<lambda>_. each f xs)"

subsection \<open>The monad laws\<close>

lemma and_then_ret [simp]: "and_then (ret x) f = f x"
  by (simp add: and_then_def ret_def)

lemma and_then_panic [simp]: "and_then panic f = panic"
  by (simp add: and_then_def panic_def)

lemma and_then_assoc: "and_then (and_then m f) g = and_then m (\<lambda>x. and_then (f x) g)"
  by (rule ext) (auto simp: and_then_def split: prod.splits outcome.splits)

lemma and_then_done [run_rules]: "m s = (Done x, s') \<Longrightarrow> and_then m f s = f x s'"
  by (simp add: and_then_def)

lemma and_then_panics [run_rules]: "m s = (Panic, s') \<Longrightarrow> and_then m f s = (Panic, s')"
  by (simp add: and_then_def)

lemma ret_run [run_rules]: "ret x s = (Done x, s)"
  by (simp add: ret_def)

lemma panic_run [run_rules]: "panic s = (Panic, s)"
  by (simp add: panic_def)

lemma gets_run [run_rules]: "gets f s = (Done (f s), s)"
  by (simp add: gets_def)

lemma modify_run [run_rules]: "modify f s = (Done (), f s)"
  by (simp add: modify_def)

lemma lift_outcome_run [run_rules]: "lift_outcome r s = (r, s)"
  by (simp add: lift_outcome_def)

lemma unwrap_simps [simp]:
  "unwrap_opt (Some v) = ret v" "unwrap_opt None = panic"
  "unwrap_res (Inr v) = ret v" "unwrap_res (Inl e) = panic"
  by (simp_all add: unwrap_opt_def unwrap_res_def)

lemma unwrapped_done [run_rules]: "m s = (Done (Inr v), s') \<Longrightarrow> unwrapped m s = (Done v, s')"
  by (simp add: unwrapped_def and_then_done ret_run)

subsection \<open>Weakest preconditions\<close>

text \<open>
  \<open>wp m Q E s\<close>: run from \<open>s\<close>, \<open>m\<close> either returns a value and a state with \<open>Q\<close>, or panics in
  a state with \<open>E\<close>. The rules below compute it along a handler, so a property of a handler
  is a simplification and a case split.
\<close>

definition wp :: "('s, 'a) eff \<Rightarrow> ('a \<Rightarrow> 's \<Rightarrow> bool) \<Rightarrow> ('s \<Rightarrow> bool) \<Rightarrow> 's \<Rightarrow> bool" where
  "wp m Q E s = (case m s of (Done x, s') \<Rightarrow> Q x s' | (Panic, s') \<Rightarrow> E s')"

lemma wp_ret [wp_rules]: "wp (ret x) Q E s = Q x s"
  by (simp add: wp_def ret_def)

lemma wp_panic [wp_rules]: "wp panic Q E s = E s"
  by (simp add: wp_def panic_def)

lemma wp_and_then [wp_rules]: "wp (and_then m f) Q E s = wp m (\<lambda>x. wp (f x) Q E) E s"
  by (simp add: wp_def and_then_def split: prod.splits outcome.splits)

lemma wp_gets [wp_rules]: "wp (gets f) Q E s = Q (f s) s"
  by (simp add: wp_def gets_def)

lemma wp_modify [wp_rules]: "wp (modify f) Q E s = Q () (f s)"
  by (simp add: wp_def modify_def)

lemma wp_lift_outcome [wp_rules]:
  "wp (lift_outcome r) Q E s = (case r of Done x \<Rightarrow> Q x s | Panic \<Rightarrow> E s)"
  by (simp add: wp_def lift_outcome_def)

lemma wp_unwrap_opt [wp_rules]:
  "wp (unwrap_opt x) Q E s = (case x of None \<Rightarrow> E s | Some v \<Rightarrow> Q v s)"
  by (simp add: unwrap_opt_def wp_ret wp_panic split: option.split)

lemma wp_unwrap_res [wp_rules]:
  "wp (unwrap_res x) Q E s = (case x of Inl e \<Rightarrow> E s | Inr v \<Rightarrow> Q v s)"
  by (simp add: unwrap_res_def wp_ret wp_panic split: sum.split)

lemma wp_unwrapped [wp_rules]:
  "wp (unwrapped m) Q E s = wp m (\<lambda>x. wp (unwrap_res x) Q E) E s"
  by (simp add: unwrapped_def wp_and_then)

lemma wp_if [wp_rules]: "wp (if b then m else n) Q E s = (if b then wp m Q E s else wp n Q E s)"
  by simp

lemma wp_case_option [wp_rules]:
  "wp (case x of None \<Rightarrow> m | Some v \<Rightarrow> f v) Q E s =
    (case x of None \<Rightarrow> wp m Q E s | Some v \<Rightarrow> wp (f v) Q E s)"
  by (simp split: option.split)

lemma wp_case_sum [wp_rules]:
  "wp (case x of Inl e \<Rightarrow> g e | Inr v \<Rightarrow> f v) Q E s =
    (case x of Inl e \<Rightarrow> wp (g e) Q E s | Inr v \<Rightarrow> wp (f v) Q E s)"
  by (simp split: sum.split)

lemma wp_case_prod [wp_rules]:
  "wp (case x of (a, b) \<Rightarrow> f a b) Q E s = (case x of (a, b) \<Rightarrow> wp (f a b) Q E s)"
  by (simp split: prod.split)

lemma wp_let [wp_rules]: "wp (Let x f) Q E s = wp (f x) Q E s"
  by simp

lemma wp_conseq:
  assumes "wp m Q E s" "\<And>x s'. Q x s' \<Longrightarrow> Q' x s'" "\<And>s'. E s' \<Longrightarrow> E' s'"
  shows "wp m Q' E' s"
  using assms by (auto simp: wp_def split: prod.splits outcome.splits)

lemma wp_both:
  assumes "wp m Q E s" "wp m Q' E' s"
  shows "wp m (\<lambda>x s'. Q x s' \<and> Q' x s') (\<lambda>s'. E s' \<and> E' s') s"
  using assms by (auto simp: wp_def split: prod.splits outcome.splits)

lemma wp_same_run: "m s = n s \<Longrightarrow> wp m Q E s = wp n Q E s"
  by (simp add: wp_def)

lemma wp_done: "wp m Q E s \<Longrightarrow> m s = (Done x, s') \<Longrightarrow> Q x s'"
  by (simp add: wp_def)

lemma wp_final: "wp m (\<lambda>_. P) P s \<Longrightarrow> P (snd (m s))"
  by (auto simp: wp_def split: prod.splits outcome.splits)

lemma wp_finalI: "P (snd (m s)) \<Longrightarrow> wp m (\<lambda>_. P) P s"
  by (auto simp: wp_def split: prod.splits outcome.splits)

text \<open>An invariant of the body is an invariant of the loop.\<close>

lemma wp_each:
  assumes "\<And>x s. x \<in> set xs \<Longrightarrow> P s \<Longrightarrow> wp (f x) (\<lambda>_. P) P s" and "P s"
  shows "wp (each f xs) (\<lambda>_. P) P s"
  using assms
proof (induction xs arbitrary: s)
  case Nil
  then show ?case by (simp add: wp_ret)
next
  case (Cons x xs)
  then have "wp (f x) (\<lambda>_. P) P s" by simp
  then show ?case
    by (simp add: wp_and_then) (erule wp_conseq, use Cons in auto)
qed

end
