(* ===== verification/Db.thy ===== *)
theory Db
  imports Effects
begin

section \<open>The database: the \<open>DB\<close> trait of src/db.rs over typed trees\<close>

text \<open>
  \<open>src/db.rs\<close> wraps each sled tree in a newtype and gives it typed operations through the
  trait \<open>DB<K, V>\<close>. This theory models those operations as the handlers see them: a tree is
  a map from keys to values inside the server's state, reached through a lens (\<open>tree\<close>), and
  every call may report a sled error. Which calls fail is an input of the model: the state
  carries the outcomes of the coming calls in \<open>sled_faults\<close> (\<open>True\<close> is an error, and a call
  past the end of the list succeeds). A failed call changes nothing.

  The locale \<open>kv_store\<close> is the contract the rest of the server relies on. The theory
  \<open>Db_Bytes\<close> shows that the trait's methods as they are written, over byte strings, bincode
  and a sled tree, meet the same contract.
\<close>

datatype sled_error = SledError

record sled_env =
  sled_faults :: "bool list"

record ('s, 'k, 'v) tree =
  tree_rd :: "'s \<Rightarrow> 'k \<rightharpoonup> 'v"
  tree_wr :: "('k \<rightharpoonup> 'v) \<Rightarrow> 's \<Rightarrow> 's"

abbreviation sled_fails :: "'z sled_env_scheme \<Rightarrow> bool" where
  "sled_fails s \<equiv> sled_faults s \<noteq> [] \<and> hd (sled_faults s)"

abbreviation sled_next :: "'z sled_env_scheme \<Rightarrow> 'z sled_env_scheme" where
  "sled_next s \<equiv> s\<lparr>sled_faults := tl (sled_faults s)\<rparr>"

text \<open>One call into sled: an error, or the effect \<open>f\<close> on the state and its value.\<close>

definition sled_call ::
    "('z sled_env_scheme \<Rightarrow> 'a \<times> 'z sled_env_scheme) \<Rightarrow> ('z sled_env_scheme, sled_error + 'a) eff" where
  "sled_call f = (\<lambda>s. if sled_fails s then (Done (Inl SledError), sled_next s)
    else case f (sled_next s) of (x, s') \<Rightarrow> (Done (Inr x), s'))"

subsection \<open>The operations of the trait\<close>

definition db_contains_key ::
    "('z sled_env_scheme, 'k, 'v) tree \<Rightarrow> 'k \<Rightarrow> ('z sled_env_scheme, sled_error + bool) eff" where
  "db_contains_key T k = sled_call (\<lambda>s. (tree_rd T s k \<noteq> None, s))"

definition db_get ::
    "('z sled_env_scheme, 'k, 'v) tree \<Rightarrow> 'k \<Rightarrow> ('z sled_env_scheme, sled_error + 'v option) eff" where
  "db_get T k = sled_call (\<lambda>s. (tree_rd T s k, s))"

definition db_insert ::
    "('z sled_env_scheme, 'k, 'v) tree \<Rightarrow> 'k \<Rightarrow> 'v \<Rightarrow> ('z sled_env_scheme, sled_error + 'v option) eff" where
  "db_insert T k v = sled_call (\<lambda>s. (tree_rd T s k, tree_wr T ((tree_rd T s)(k \<mapsto> v)) s))"

definition db_remove ::
    "('z sled_env_scheme, 'k, 'v) tree \<Rightarrow> 'k \<Rightarrow> ('z sled_env_scheme, sled_error + 'v option) eff" where
  "db_remove T k = sled_call (\<lambda>s. (tree_rd T s k, tree_wr T ((tree_rd T s)(k := None)) s))"

text \<open>\<open>get_or_insert\<close> hands the error of its \<open>get\<close> on with \<open>?\<close> and unwraps its \<open>insert\<close>.\<close>

definition db_get_or_insert ::
    "('z sled_env_scheme, 'k, 'v) tree \<Rightarrow> 'k \<Rightarrow> 'v \<Rightarrow> ('z sled_env_scheme, sled_error + 'v) eff" where
  "db_get_or_insert T k v = and_then (db_get T k) (\<lambda>r. case r of
      Inl e \<Rightarrow> ret (Inl e)
    | Inr (Some x) \<Rightarrow> ret (Inr x)
    | Inr None \<Rightarrow> and_then (unwrapped (db_insert T k v)) (\<lambda>_. ret (Inr v)))"

text \<open>
  \<open>iter\<close> and \<open>values\<close>: every item is a result of its own. The keys come in the order \<open>ks\<close>
  in which sled visits them. The items are those of the tree at the time of the call; sled's iterator is lazy,
  which makes a difference only when other calls come in between (\<open>Interleaved\<close>).
\<close>

fun faulty_items :: "bool list \<Rightarrow> 'a list \<Rightarrow> (sled_error + 'a) list" where
  "faulty_items fs [] = []"
| "faulty_items [] (x # xs) = Inr x # faulty_items [] xs"
| "faulty_items (f # fs) (x # xs) = (if f then Inl SledError else Inr x) # faulty_items fs xs"

definition db_iter ::
    "('z sled_env_scheme, 'k, 'v) tree \<Rightarrow> 'k list \<Rightarrow>
     ('z sled_env_scheme, (sled_error + 'k \<times> 'v) list) eff" where
  "db_iter T ks = (\<lambda>s. let es = entries ks (tree_rd T s) in
     (Done (faulty_items (sled_faults s) es),
      s\<lparr>sled_faults := drop (length es) (sled_faults s)\<rparr>))"

definition db_values ::
    "('z sled_env_scheme, 'k, 'v) tree \<Rightarrow> 'k list \<Rightarrow>
     ('z sled_env_scheme, (sled_error + 'v) list) eff" where
  "db_values T ks = and_then (db_iter T ks) (\<lambda>rs. ret (map (map_sum id snd) rs))"

definition db_len :: "('z sled_env_scheme, 'k, 'v) tree \<Rightarrow> 'k list \<Rightarrow> ('z sled_env_scheme, nat) eff" where
  "db_len T ks = gets (\<lambda>s. length (entries ks (tree_rd T s)))"

text \<open>A batch is the list of its inserts, applied as one.\<close>

definition db_apply_batch ::
    "('z sled_env_scheme, 'k, 'v) tree \<Rightarrow> ('k \<times> 'v) list \<Rightarrow> ('z sled_env_scheme, sled_error + unit) eff" where
  "db_apply_batch T b = sled_call (\<lambda>s. ((), tree_wr T (tree_rd T s ++ map_of (rev b)) s))"

subsection \<open>What the operations do\<close>

lemma sled_call_ok [run_rules]:
  "sled_faults s = [] \<Longrightarrow> sled_call f s = (Done (Inr (fst (f s))), snd (f s))"
  by (cases s) (simp add: sled_call_def split: prod.split)

lemmas db_defs = db_contains_key_def db_get_def db_insert_def db_remove_def db_apply_batch_def

lemma wp_sled_call [wp_rules]:
  "wp (sled_call f) Q E s =
    (if sled_fails s then Q (Inl SledError) (sled_next s)
     else Q (Inr (fst (f (sled_next s)))) (snd (f (sled_next s))))"
  by (simp add: wp_def sled_call_def split: prod.split)

lemma length_faulty_items [simp]: "length (faulty_items fs xs) = length xs"
  by (induction fs xs rule: faulty_items.induct) auto

lemma faulty_items_ok [simp]: "faulty_items [] xs = map Inr xs"
  by (induction xs) auto

lemma faulty_items_sound: "Inr x \<in> set (faulty_items fs xs) \<Longrightarrow> x \<in> set xs"
  by (induction fs xs rule: faulty_items.induct) (auto split: if_splits)

lemma wp_db_iter [wp_rules]:
  "wp (db_iter T ks) Q E s =
    Q (faulty_items (sled_faults s) (entries ks (tree_rd T s)))
      (s\<lparr>sled_faults := drop (length (entries ks (tree_rd T s))) (sled_faults s)\<rparr>)"
  by (simp add: wp_def db_iter_def Let_def)

lemma db_iter_run [run_rules]:
  "sled_faults s = [] \<Longrightarrow> db_iter T ks s = (Done (map Inr (entries ks (tree_rd T s))), s)"
  by (cases s) (simp add: db_iter_def Let_def)

lemma map_of_rev_distinct: "distinct (map fst b) \<Longrightarrow> map_of (rev b) = map_of b"
  by (metis distinct_rev map_of_eqI rev_map set_map set_rev map_of_inject_set)

subsection \<open>The contract of a store\<close>

text \<open>
  A tree whose state satisfies the lens laws: reading what was written, and indifference to
  the bookkeeping of faults.
\<close>

definition tree_lens :: "('z sled_env_scheme, 'k, 'v) tree \<Rightarrow> bool" where
  "tree_lens T \<longleftrightarrow> (\<forall>s m. tree_rd T (tree_wr T m s) = m) \<and>
    (\<forall>s fs. tree_rd T (s\<lparr>sled_faults := fs\<rparr>) = tree_rd T s)"

locale kv_store =
  fixes view :: "'s \<Rightarrow> 'k \<rightharpoonup> 'v"
    and inv :: "'s \<Rightarrow> bool"
    and contains :: "'k \<Rightarrow> ('s, 'e + bool) eff"
    and lookup :: "'k \<Rightarrow> ('s, 'e + 'v option) eff"
    and insert :: "'k \<Rightarrow> 'v \<Rightarrow> ('s, 'e + 'v option) eff"
    and remove :: "'k \<Rightarrow> ('s, 'e + 'v option) eff"
    and lookup_or_insert :: "'k \<Rightarrow> 'v \<Rightarrow> ('s, 'e + 'v) eff"
  assumes contains_law: "inv s \<Longrightarrow> wp (contains k)
      (\<lambda>r s'. inv s' \<and> view s' = view s \<and> (\<forall>b. r = Inr b \<longrightarrow> b = (view s k \<noteq> None))) (\<lambda>_. False) s"
    and lookup_law: "inv s \<Longrightarrow> wp (lookup k)
      (\<lambda>r s'. inv s' \<and> view s' = view s \<and> (\<forall>x. r = Inr x \<longrightarrow> x = view s k)) (\<lambda>_. False) s"
    and insert_law: "inv s \<Longrightarrow> wp (insert k v)
      (\<lambda>r s'. inv s' \<and> (case r of Inl e \<Rightarrow> view s' = view s
        | Inr old \<Rightarrow> old = view s k \<and> view s' = (view s)(k \<mapsto> v))) (\<lambda>_. False) s"
    and remove_law: "inv s \<Longrightarrow> wp (remove k)
      (\<lambda>r s'. inv s' \<and> (case r of Inl e \<Rightarrow> view s' = view s
        | Inr old \<Rightarrow> old = view s k \<and> view s' = (view s)(k := None))) (\<lambda>_. False) s"
    and lookup_or_insert_law: "inv s \<Longrightarrow> wp (lookup_or_insert k v)
      (\<lambda>r s'. inv s' \<and> (case r of Inl e \<Rightarrow> view s' = view s
        | Inr x \<Rightarrow> x = (case view s k of None \<Rightarrow> v | Some y \<Rightarrow> y) \<and> view s' = (view s)(k \<mapsto> x)))
      (\<lambda>s'. inv s' \<and> view s' = view s) s"
begin

lemma lookup_after_insert:
  assumes "inv s" "insert k v s = (Done (Inr old), s1)" "lookup k' s1 = (Done (Inr r), s2)"
  shows "r = (if k' = k then Some v else view s k')"
proof -
  from wp_done [OF insert_law [OF assms(1)] assms(2)]
  have "inv s1" "view s1 = (view s)(k \<mapsto> v)" by auto
  with wp_done [OF lookup_law [OF \<open>inv s1\<close>] assms(3)] show ?thesis by auto
qed

lemma lookup_after_remove:
  assumes "inv s" "remove k s = (Done (Inr old), s1)" "lookup k' s1 = (Done (Inr r), s2)"
  shows "r = (if k' = k then None else view s k')"
proof -
  from wp_done [OF remove_law [OF assms(1)] assms(2)]
  have "inv s1" "view s1 = (view s)(k := None)" by auto
  with wp_done [OF lookup_law [OF \<open>inv s1\<close>] assms(3)] show ?thesis by auto
qed

lemma lookup_or_insert_twice:
  assumes "inv s" "lookup_or_insert k v s = (Done (Inr x), s1)"
    and "lookup_or_insert k v' s1 = (Done (Inr y), s2)"
  shows "y = x \<and> view s2 = view s1"
proof -
  from wp_done [OF lookup_or_insert_law [OF assms(1)] assms(2)]
  have "inv s1" "view s1 = (view s)(k \<mapsto> x)" by auto
  with wp_done [OF lookup_or_insert_law [OF \<open>inv s1\<close>] assms(3)] show ?thesis by auto
qed

end

text \<open>Every lens gives a store: the typed operations meet the contract.\<close>

lemma typed_store:
  assumes "tree_lens T"
  shows "kv_store (tree_rd T) (\<lambda>_. True) (db_contains_key T) (db_get T) (db_insert T)
    (db_remove T) (db_get_or_insert T)"
  using assms
  by unfold_locales
    (auto simp: tree_lens_def db_defs db_get_or_insert_def wp_rules split: option.split)

subsection \<open>Sweeping a tree\<close>

text \<open>
  Both clean-up threads of the server walk over a tree and remove the entries that have
  expired. \<open>expiry_sweep\<close> is what they have in common: what visiting one item does.
\<close>

locale expiry_sweep =
  fixes T :: "('z sled_env_scheme, 'k, 'v) tree"
    and expired :: "'v \<Rightarrow> bool"
    and visit :: "sled_error + 'k \<times> 'v \<Rightarrow> ('z sled_env_scheme, unit) eff"
  assumes lens: "tree_lens T"
    and write_back: "tree_wr T (tree_rd T s) s = s"
    and write_write: "tree_wr T m (tree_wr T m' s) = tree_wr T m s"
    and write_faults: "sled_faults (tree_wr T m s) = sled_faults s"
    and visit_law: "sled_faults s = [] \<Longrightarrow> tree_rd T s k = Some v \<Longrightarrow> visit (Inr (k, v)) s =
      (Done (), if expired v then tree_wr T ((tree_rd T s)(k := None)) s else s)"
    and keep_law: "(\<And>k v. i = Inr (k, v) \<Longrightarrow> expired v \<Longrightarrow> k \<noteq> k') \<Longrightarrow>
      wp (visit i) (\<lambda>_ s'. tree_rd T s' k' = tree_rd T s k') (\<lambda>s'. tree_rd T s' k' = tree_rd T s k') s"
begin

definition swept :: "'k set \<Rightarrow> ('k \<rightharpoonup> 'v) \<Rightarrow> 'k \<rightharpoonup> 'v" where
  "swept K m k = (case m k of None \<Rightarrow> None
     | Some v \<Rightarrow> if k \<in> K \<and> expired v then None else Some v)"

lemma swept_insert: "k \<notin> K \<Longrightarrow> swept (insert k K) m =
    swept K (case m k of None \<Rightarrow> m | Some v \<Rightarrow> if expired v then m(k := None) else m)"
  by (auto simp: swept_def fun_eq_iff split: option.splits)

lemma sweep_run:
  assumes "sled_faults s = []" "distinct ks" "m = tree_rd T s"
  shows "each visit (map Inr (entries ks m)) s = (Done (), tree_wr T (swept (set ks) m) s)"
  using assms
proof (induction ks arbitrary: s m)
  case Nil
  have "swept {} m = m" by (auto simp: swept_def fun_eq_iff split: option.split)
  with Nil show ?case by (simp add: ret_run write_back)
next
  case (Cons k ks)
  have outside: "entries ks (m(k := None)) = entries ks m"
    using Cons.prems(2) by (induction ks) (auto split: option.split)
  show ?case
  proof (cases "m k")
    case None
    with Cons show ?thesis by (simp add: swept_insert)
  next
    case (Some v)
    let ?s = "if expired v then tree_wr T (m(k := None)) s else s"
    have visit: "visit (Inr (k, v)) s = (Done (), ?s)"
      using visit_law [of s k v] Cons.prems Some by simp
    have "tree_rd T ?s = (if expired v then m(k := None) else m)" "sled_faults ?s = []"
      using lens Cons.prems by (auto simp: tree_lens_def write_faults)
    with Cons.IH [of ?s "if expired v then m(k := None) else m"] Cons.prems Some visit outside
    show ?thesis
      by (simp add: and_then_done swept_insert write_write split: if_splits)
  qed
qed

lemma sweep_keeps:
  assumes "tree_rd T s k' = Some v'" "\<not> expired v'" "tree_rd T s' k' = Some v'"
  shows "wp (each visit (faulty_items fs (entries ks (tree_rd T s))))
    (\<lambda>_ t. tree_rd T t k' = Some v') (\<lambda>t. tree_rd T t k' = Some v') s'"
proof (rule wp_each)
  fix i t assume i: "i \<in> set (faulty_items fs (entries ks (tree_rd T s)))"
    and t: "tree_rd T t k' = Some v'"
  have "k \<noteq> k'" if "i = Inr (k, v)" "expired v" for k v
    using faulty_items_sound i that assms by (fastforce simp: set_entries)
  from keep_law [of i k' t, OF this] t
  show "wp (visit i) (\<lambda>_ t. tree_rd T t k' = Some v') (\<lambda>t. tree_rd T t k' = Some v') t" by simp
qed (rule assms(3))

end

end
