(* ===== verification/Db_Bytes.thy ===== *)
theory Db_Bytes
  imports Db "HOL-Library.List_Lexorder"
begin

section \<open>The \<open>DB\<close> trait as written: bincode over a sled tree\<close>

text \<open>
  The provided methods of the trait in \<open>src/db.rs\<close>, statement by statement. bincode and sled
  are not part of the repository: a codec (\<open>bincode::serialize\<close> and \<open>deserialize\<close> at one type)
  and a sled tree's methods are parameters. \<open>codec_laws\<close> and \<open>sled_laws\<close> state what their
  documentation promises: decoding an encoded value gives it back, and a tree is a map from
  byte strings to byte strings that a failed call leaves alone. Under those laws no \<open>unwrap\<close>
  of the trait fails and the methods meet the contract \<open>kv_store\<close> the handlers rely on.
\<close>

record 'a codec =
  ser :: "'a \<Rightarrow> bytes option"
  de :: "bytes \<Rightarrow> 'a option"

record 't sled_api =
  sl_contains_key :: "bytes \<Rightarrow> ('t, sled_error + bool) eff"
  sl_get :: "bytes \<Rightarrow> ('t, sled_error + bytes option) eff"
  sl_insert :: "bytes \<Rightarrow> bytes \<Rightarrow> ('t, sled_error + bytes option) eff"
  sl_remove :: "bytes \<Rightarrow> ('t, sled_error + bytes option) eff"
  sl_iter :: "('t, (sled_error + bytes \<times> bytes) list) eff"
  sl_apply_batch :: "(bytes \<times> bytes) list \<Rightarrow> ('t, sled_error + unit) eff"
  sl_flush :: "('t, sled_error + nat) eff"

subsection \<open>The methods\<close>

definition trait_contains_key ::
    "'t sled_api \<Rightarrow> 'k codec \<Rightarrow> 'k \<Rightarrow> ('t, sled_error + bool) eff" where
  "trait_contains_key S ck k = and_then (unwrap_opt (ser ck k)) (\<lambda>kb. sl_contains_key S kb)"

text \<open>\<open>remove\<close>, \<open>insert\<close> and \<open>get\<close> share their last match: decode the bytes found, if any.\<close>

definition decode_found ::
    "'v codec \<Rightarrow> sled_error + bytes option \<Rightarrow> ('t, sled_error + 'v option) eff" where
  "decode_found cv r = (case r of
      Inl e \<Rightarrow> ret (Inl e)
    | Inr (Some vb) \<Rightarrow> and_then (unwrap_opt (de cv vb)) (\<lambda>v. ret (Inr (Some v)))
    | Inr None \<Rightarrow> ret (Inr None))"

definition trait_remove ::
    "'t sled_api \<Rightarrow> 'k codec \<Rightarrow> 'v codec \<Rightarrow> 'k \<Rightarrow> ('t, sled_error + 'v option) eff" where
  "trait_remove S ck cv k = and_then (unwrap_opt (ser ck k)) (\<lambda>kb.
     and_then (sl_remove S kb) (decode_found cv))"

definition trait_insert ::
    "'t sled_api \<Rightarrow> 'k codec \<Rightarrow> 'v codec \<Rightarrow> 'k \<Rightarrow> 'v \<Rightarrow> ('t, sled_error + 'v option) eff" where
  "trait_insert S ck cv k v = and_then (unwrap_opt (ser ck k)) (\<lambda>kb.
     and_then (unwrap_opt (ser cv v)) (\<lambda>vb.
     and_then (sl_insert S kb vb) (decode_found cv)))"

definition trait_get ::
    "'t sled_api \<Rightarrow> 'k codec \<Rightarrow> 'v codec \<Rightarrow> 'k \<Rightarrow> ('t, sled_error + 'v option) eff" where
  "trait_get S ck cv k = and_then (unwrap_opt (ser ck k)) (\<lambda>kb.
     and_then (sl_get S kb) (decode_found cv))"

definition trait_get_or_insert ::
    "'t sled_api \<Rightarrow> 'k codec \<Rightarrow> 'v codec \<Rightarrow> 'k \<Rightarrow> 'v \<Rightarrow> ('t, sled_error + 'v) eff" where
  "trait_get_or_insert S ck cv k v = and_then (trait_get S ck cv k) (\<lambda>r. case r of
      Inl e \<Rightarrow> ret (Inl e)
    | Inr (Some x) \<Rightarrow> ret (Inr x)
    | Inr None \<Rightarrow> and_then (unwrap_opt (ser ck k)) (\<lambda>kb.
        and_then (unwrap_opt (ser cv v)) (\<lambda>vb.
        and_then (unwrap_opt (de cv vb)) (\<lambda>v'.
        and_then (unwrapped (sl_insert S kb vb)) (\<lambda>_. ret (Inr v'))))))"

text \<open>The iterators decode each item as it is asked for.\<close>

fun decode_items ::
    "'k codec \<Rightarrow> 'v codec \<Rightarrow> (sled_error + bytes \<times> bytes) list \<Rightarrow>
     ('t, (sled_error + 'k \<times> 'v) list) eff" where
  "decode_items ck cv [] = ret []"
| "decode_items ck cv (Inl e # rs) = and_then (decode_items ck cv rs) (\<lambda>xs. ret (Inl e # xs))"
| "decode_items ck cv (Inr (kb, vb) # rs) =
     and_then (unwrap_opt (de ck kb)) (\<lambda>k.
     and_then (unwrap_opt (de cv vb)) (\<lambda>v.
     and_then (decode_items ck cv rs) (\<lambda>xs. ret (Inr (k, v) # xs))))"

definition trait_iter ::
    "'t sled_api \<Rightarrow> 'k codec \<Rightarrow> 'v codec \<Rightarrow> ('t, (sled_error + 'k \<times> 'v) list) eff" where
  "trait_iter S ck cv = and_then (sl_iter S) (decode_items ck cv)"

text \<open>A batch holds the inserts that its owner has encoded (src/money.rs); \<open>apply_batch\<close> and \<open>flush\<close> hand on to sled.\<close>

fun encode_batch :: "'k codec \<Rightarrow> 'v codec \<Rightarrow> ('k \<times> 'v) list \<Rightarrow> ('t, (bytes \<times> bytes) list) eff" where
  "encode_batch ck cv [] = ret []"
| "encode_batch ck cv ((k, v) # kvs) = and_then (unwrap_opt (ser ck k)) (\<lambda>kb.
     and_then (unwrap_opt (ser cv v)) (\<lambda>vb.
     and_then (encode_batch ck cv kvs) (\<lambda>b. ret ((kb, vb) # b))))"

definition trait_apply_batch :: "'t sled_api \<Rightarrow> (bytes \<times> bytes) list \<Rightarrow> ('t, sled_error + unit) eff" where
  "trait_apply_batch S b = sl_apply_batch S b"

definition trait_flush :: "'t sled_api \<Rightarrow> ('t, sled_error + nat) eff" where
  "trait_flush S = sl_flush S"

subsection \<open>What bincode and sled promise\<close>

definition codec_laws :: "'a codec \<Rightarrow> bool" where
  "codec_laws c \<longleftrightarrow> (\<forall>x. \<exists>b. ser c x = Some b \<and> de c b = Some x)"

text \<open>A type with values that cannot be written (a HOL map may be infinite) has only a sound codec.\<close>

definition codec_sound :: "'a codec \<Rightarrow> bool" where
  "codec_sound c \<longleftrightarrow> (\<forall>x b. ser c x = Some b \<longrightarrow> de c b = Some x)"

text \<open>A tree visits its keys in their byte order.\<close>

definition sled_laws :: "'t sled_api \<Rightarrow> ('t \<Rightarrow> bytes \<rightharpoonup> bytes) \<Rightarrow> bool" where
  "sled_laws S m \<longleftrightarrow> (\<forall>t k v.
     wp (sl_contains_key S k)
       (\<lambda>r t'. m t' = m t \<and> (\<forall>b. r = Inr b \<longrightarrow> b = (m t k \<noteq> None))) (\<lambda>_. False) t \<and>
     wp (sl_get S k)
       (\<lambda>r t'. m t' = m t \<and> (\<forall>x. r = Inr x \<longrightarrow> x = m t k)) (\<lambda>_. False) t \<and>
     wp (sl_insert S k v)
       (\<lambda>r t'. case r of Inl e \<Rightarrow> m t' = m t
         | Inr old \<Rightarrow> old = m t k \<and> m t' = (m t)(k \<mapsto> v)) (\<lambda>_. False) t \<and>
     wp (sl_remove S k)
       (\<lambda>r t'. case r of Inl e \<Rightarrow> m t' = m t
         | Inr old \<Rightarrow> old = m t k \<and> m t' = (m t)(k := None)) (\<lambda>_. False) t \<and>
     wp (sl_iter S)
       (\<lambda>rs t'. m t' = m t \<and> (\<forall>kb vb. Inr (kb, vb) \<in> set rs \<longrightarrow> m t kb = Some vb) \<and> (finite (dom (m t)) \<longrightarrow>
         (\<exists>fs. rs = faulty_items fs (entries (sorted_list_of_set (dom (m t))) (m t))))) (\<lambda>_. False) t) \<and>
   (\<forall>t b. wp (sl_apply_batch S b)
       (\<lambda>r t'. m t' = (case r of Inl e \<Rightarrow> m t | Inr _ \<Rightarrow> m t ++ map_of (rev b))) (\<lambda>_. False) t \<and>
     wp (sl_flush S) (\<lambda>r t'. m t' = m t) (\<lambda>_. False) t)"

text \<open>The typed view of a byte tree, and the trees that only hold what the trait wrote.\<close>

definition typed_view :: "'k codec \<Rightarrow> 'v codec \<Rightarrow> (bytes \<rightharpoonup> bytes) \<Rightarrow> 'k \<rightharpoonup> 'v" where
  "typed_view ck cv b k = Option.bind (Option.bind (ser ck k) b) (de cv)"

definition well_encoded :: "'k codec \<Rightarrow> 'v codec \<Rightarrow> (bytes \<rightharpoonup> bytes) \<Rightarrow> bool" where
  "well_encoded ck cv b \<longleftrightarrow>
    (\<forall>kb vb. b kb = Some vb \<longrightarrow> (\<exists>k v. ser ck k = Some kb \<and> ser cv v = Some vb))"

subsection \<open>The methods meet the contract\<close>

lemma codec_laws_sound: "codec_laws c \<Longrightarrow> codec_sound c"
  unfolding codec_laws_def codec_sound_def by (metis option.inject)

lemma codec_decodes: "codec_sound c \<Longrightarrow> ser c x = Some b \<Longrightarrow> de c b = Some x"
  by (simp add: codec_sound_def)

lemma codec_inj: "codec_sound c \<Longrightarrow> ser c x = Some b \<Longrightarrow> ser c y = Some b \<Longrightarrow> x = y"
  unfolding codec_sound_def by (metis option.inject)

lemma codec_encodes:
  assumes "codec_laws c"
  obtains b where "ser c x = Some b" "de c b = Some x"
  using assms unfolding codec_laws_def by blast

lemma well_encoded_get:
  assumes "well_encoded ck cv b" "codec_sound cv" "b kb = Some vb"
  obtains v where "de cv vb = Some v"
proof -
  from assms(1,3) obtain v where "ser cv v = Some vb" unfolding well_encoded_def by blast
  with assms(2) have "de cv vb = Some v" by (rule codec_decodes)
  then show ?thesis by (rule that)
qed

lemma found_iff:
  assumes "codec_sound cv" "well_encoded ck cv b"
  shows "(Option.bind (ser ck k) b \<noteq> None) = (typed_view ck cv b k \<noteq> None)"
  using assms by (auto simp: typed_view_def bind_eq_None_conv elim!: well_encoded_get split: bind_splits)

lemma well_encoded_upd:
  "well_encoded ck cv b \<Longrightarrow> ser ck k = Some kb \<Longrightarrow> ser cv v = Some vb \<Longrightarrow>
    well_encoded ck cv (b(kb \<mapsto> vb))"
  by (auto simp: well_encoded_def)

lemma well_encoded_del: "well_encoded ck cv b \<Longrightarrow> well_encoded ck cv (b(kb := None))"
  by (auto simp: well_encoded_def)

lemma typed_view_upd:
  assumes "codec_laws ck" "codec_sound cv" "ser ck k = Some kb" "ser cv v = Some vb"
  shows "typed_view ck cv (b(kb \<mapsto> vb)) = (typed_view ck cv b)(k \<mapsto> v)"
proof
  fix x
  obtain xb where "ser ck x = Some xb" using codec_encodes [OF assms(1)] by blast
  with assms show "typed_view ck cv (b(kb \<mapsto> vb)) x = ((typed_view ck cv b)(k \<mapsto> v)) x"
    by (auto simp: typed_view_def codec_decodes dest: codec_inj [OF codec_laws_sound])
qed

lemma typed_view_del:
  assumes "codec_laws ck" "ser ck k = Some kb"
  shows "typed_view ck cv (b(kb := None)) = (typed_view ck cv b)(k := None)"
proof
  fix x
  obtain xb where "ser ck x = Some xb" using codec_encodes [OF assms(1)] by blast
  with assms show "typed_view ck cv (b(kb := None)) x = ((typed_view ck cv b)(k := None)) x"
    by (auto simp: typed_view_def dest: codec_inj [OF codec_laws_sound])
qed

text \<open>The last match never panics on a well-encoded tree and returns the typed value.\<close>

lemma wp_decode_found:
  assumes "well_encoded ck cv b" "codec_sound cv" "ser ck k = Some kb"
    and "\<And>e. r = Inl e \<Longrightarrow> Q (Inl e) t"
    and "\<And>x. r = Inr x \<Longrightarrow> x = b kb" "\<And>x. r = Inr x \<Longrightarrow> Q (Inr (typed_view ck cv b k)) t"
  shows "wp (decode_found cv r) Q E t"
proof (cases r)
  case (Inl e)
  with assms(4) show ?thesis by (simp add: decode_found_def wp_rules)
next
  case (Inr x)
  show ?thesis
  proof (cases x)
    case None
    with Inr assms(3,5,6) show ?thesis by (simp add: decode_found_def wp_rules typed_view_def)
  next
    case (Some vb)
    with Inr assms(5) have "b kb = Some vb" by simp
    with assms(1,2) obtain v where "de cv vb = Some v" by (rule well_encoded_get)
    with Inr Some assms(3,6) \<open>b kb = Some vb\<close> show ?thesis
      by (simp add: decode_found_def wp_rules typed_view_def)
  qed
qed

lemma sled_laws_wp:
  assumes "sled_laws S m"
  shows "wp (sl_contains_key S k)
      (\<lambda>r t'. m t' = m t \<and> (\<forall>b. r = Inr b \<longrightarrow> b = (m t k \<noteq> None))) (\<lambda>_. False) t"
    and "wp (sl_get S k)
      (\<lambda>r t'. m t' = m t \<and> (\<forall>x. r = Inr x \<longrightarrow> x = m t k)) (\<lambda>_. False) t"
    and "wp (sl_insert S k v)
      (\<lambda>r t'. case r of Inl e \<Rightarrow> m t' = m t
        | Inr old \<Rightarrow> old = m t k \<and> m t' = (m t)(k \<mapsto> v)) (\<lambda>_. False) t"
    and "wp (sl_remove S k)
      (\<lambda>r t'. case r of Inl e \<Rightarrow> m t' = m t
        | Inr old \<Rightarrow> old = m t k \<and> m t' = (m t)(k := None)) (\<lambda>_. False) t"
    and "wp (sl_iter S)
      (\<lambda>rs t'. m t' = m t \<and> (\<forall>kb vb. Inr (kb, vb) \<in> set rs \<longrightarrow> m t kb = Some vb) \<and> (finite (dom (m t)) \<longrightarrow>
         (\<exists>fs. rs = faulty_items fs (entries (sorted_list_of_set (dom (m t))) (m t))))) (\<lambda>_. False) t"
    and "wp (sl_apply_batch S b)
      (\<lambda>r t'. m t' = (case r of Inl e \<Rightarrow> m t | Inr _ \<Rightarrow> m t ++ map_of (rev b))) (\<lambda>_. False) t"
    and "wp (sl_flush S) (\<lambda>r t'. m t' = m t) (\<lambda>_. False) t"
  using assms unfolding sled_laws_def by blast+

lemma trait_contains_law:
  assumes "sled_laws S m" "codec_laws ck"
  shows "wp (trait_contains_key S ck k)
    (\<lambda>r t'. m t' = m t \<and> (\<forall>b. r = Inr b \<longrightarrow> b = (Option.bind (ser ck k) (m t) \<noteq> None)))
    (\<lambda>_. False) t"
proof -
  obtain kb where "ser ck k = Some kb" using codec_encodes [OF assms(2)] by blast
  with sled_laws_wp(1) [OF assms(1), of kb t] show ?thesis
    by (simp add: trait_contains_key_def wp_rules)
qed

lemma trait_get_law:
  assumes "sled_laws S m" "codec_laws ck" "codec_sound cv" "well_encoded ck cv (m t)"
  shows "wp (trait_get S ck cv k)
    (\<lambda>r t'. m t' = m t \<and> (\<forall>x. r = Inr x \<longrightarrow> x = typed_view ck cv (m t) k)) (\<lambda>_. False) t"
proof -
  obtain kb where kb: "ser ck k = Some kb" using codec_encodes [OF assms(2)] by blast
  show ?thesis
    by (simp add: trait_get_def wp_rules kb)
      (rule wp_conseq [OF sled_laws_wp(2) [OF assms(1), of kb t]],
        auto intro!: wp_decode_found [OF assms(4,3) kb])
qed

lemma trait_insert_law:
  assumes "sled_laws S m" "codec_laws ck" "codec_sound cv" "well_encoded ck cv (m t)" "ser cv v \<noteq> None"
  shows "wp (trait_insert S ck cv k v)
    (\<lambda>r t'. well_encoded ck cv (m t') \<and> (case r of Inl e \<Rightarrow> m t' = m t
      | Inr old \<Rightarrow> old = typed_view ck cv (m t) k \<and>
          typed_view ck cv (m t') = (typed_view ck cv (m t))(k \<mapsto> v))) (\<lambda>_. False) t"
proof -
  obtain kb where kb: "ser ck k = Some kb" using codec_encodes [OF assms(2)] by blast
  obtain vb where vb: "ser cv v = Some vb" using assms(5) by blast
  note upd = well_encoded_upd [OF assms(4) kb vb] typed_view_upd [OF assms(2,3) kb vb]
  show ?thesis
    by (simp add: trait_insert_def wp_rules kb vb)
      (rule wp_conseq [OF sled_laws_wp(3) [OF assms(1), of kb vb t]],
        auto intro!: wp_decode_found [OF assms(4,3) kb] simp: upd assms(4) split: sum.splits)
qed

lemma trait_remove_law:
  assumes "sled_laws S m" "codec_laws ck" "codec_sound cv" "well_encoded ck cv (m t)"
  shows "wp (trait_remove S ck cv k)
    (\<lambda>r t'. well_encoded ck cv (m t') \<and> (case r of Inl e \<Rightarrow> m t' = m t
      | Inr old \<Rightarrow> old = typed_view ck cv (m t) k \<and>
          typed_view ck cv (m t') = (typed_view ck cv (m t))(k := None))) (\<lambda>_. False) t"
proof -
  obtain kb where kb: "ser ck k = Some kb" using codec_encodes [OF assms(2)] by blast
  note del = well_encoded_del [OF assms(4)] typed_view_del [OF assms(2) kb]
  show ?thesis
    by (simp add: trait_remove_def wp_rules kb)
      (rule wp_conseq [OF sled_laws_wp(4) [OF assms(1), of kb t]],
        auto intro!: wp_decode_found [OF assms(4,3) kb] simp: del assms(4) split: sum.splits)
qed

lemma trait_get_or_insert_law:
  assumes "sled_laws S m" "codec_laws ck" "codec_sound cv" "well_encoded ck cv (m t)" "ser cv v \<noteq> None"
  shows "wp (trait_get_or_insert S ck cv k v)
    (\<lambda>r t'. well_encoded ck cv (m t') \<and> (case r of Inl e \<Rightarrow> m t' = m t
      | Inr x \<Rightarrow> x = (case typed_view ck cv (m t) k of None \<Rightarrow> v | Some y \<Rightarrow> y) \<and>
          typed_view ck cv (m t') = (typed_view ck cv (m t))(k \<mapsto> x)))
    (\<lambda>t'. m t' = m t \<and> typed_view ck cv (m t) k = None) t"
proof -
  obtain kb where kb: "ser ck k = Some kb" using codec_encodes [OF assms(2)] by blast
  obtain vb where vb: "ser cv v = Some vb" "de cv vb = Some v"
    using codec_decodes [OF assms(3)] assms(5) by blast
  note upd = well_encoded_upd [OF _ kb vb(1)] typed_view_upd [OF assms(2,3) kb vb(1)]
  have ins: "wp (sl_insert S kb vb) (\<lambda>r t''. wp (unwrap_res r) (\<lambda>_ t'.
      well_encoded ck cv (m t') \<and> typed_view ck cv (m t') = (typed_view ck cv (m t))(k \<mapsto> v))
      (\<lambda>t'. m t' = m t) t'') (\<lambda>t'. m t' = m t) t1" if "m t1 = m t" for t1
    by (rule wp_conseq [OF sled_laws_wp(3) [OF assms(1), of kb vb t1]])
      (auto simp: wp_rules upd assms(4) that split: sum.splits)
  show ?thesis
    by (simp add: trait_get_or_insert_def wp_rules)
      (rule wp_conseq [OF trait_get_law [OF assms(1-4)]],
        auto simp: wp_rules kb vb upd assms(4) fun_upd_idem
          intro!: wp_conseq [OF ins] split: sum.split option.split)
qed

lemma wp_decode_items:
  assumes "codec_sound ck" "codec_sound cv" "well_encoded ck cv b"
    and "\<forall>kb vb. Inr (kb, vb) \<in> set rs \<longrightarrow> b kb = Some vb"
  shows "wp (decode_items ck cv rs)
    (\<lambda>xs t'. t' = t \<and> length xs = length rs \<and>
      (\<forall>k v. Inr (k, v) \<in> set xs \<longrightarrow> typed_view ck cv b k = Some v)) (\<lambda>_. False) t"
  using assms(4)
proof (induction rs)
  case Nil
  then show ?case by (simp add: wp_rules)
next
  case (Cons r rs)
  then have IH: "wp (decode_items ck cv rs)
    (\<lambda>xs t'. t' = t \<and> length xs = length rs \<and>
      (\<forall>k v. Inr (k, v) \<in> set xs \<longrightarrow> typed_view ck cv b k = Some v)) (\<lambda>_. False) t"
    by simp
  show ?case
  proof (cases r)
    case (Inl e)
    then show ?thesis by (auto simp: wp_rules intro!: wp_conseq [OF IH])
  next
    case (Inr kv)
    obtain kb vb where r: "r = Inr (kb, vb)" using Inr by (cases kv) auto
    with Cons.prems have "b kb = Some vb" by simp
    with assms(3) obtain k v where kv: "ser ck k = Some kb" "ser cv v = Some vb"
      unfolding well_encoded_def by blast
    note de = codec_decodes [OF assms(1) kv(1)] codec_decodes [OF assms(2) kv(2)]
    have "typed_view ck cv b k = Some v"
      using kv de \<open>b kb = Some vb\<close> by (simp add: typed_view_def)
    with r de show ?thesis by (auto simp: wp_rules intro!: wp_conseq [OF IH])
  qed
qed

lemma trait_iter_law:
  assumes "sled_laws S m" "codec_laws ck" "codec_sound cv" "well_encoded ck cv (m t)"
  shows "wp (trait_iter S ck cv)
    (\<lambda>xs t'. m t' = m t \<and> (\<forall>k v. Inr (k, v) \<in> set xs \<longrightarrow> typed_view ck cv (m t) k = Some v))
    (\<lambda>_. False) t"
  by (simp add: trait_iter_def wp_rules)
    (rule wp_conseq [OF sled_laws_wp(5) [OF assms(1)]],
      auto intro!: wp_conseq [OF wp_decode_items [OF codec_laws_sound [OF assms(2)] assms(3,4)]])

text \<open>It visits the typed entries one by one, in the byte order of their keys, each with an error in its place if sled has
  one.\<close>

definition key_order :: "'k codec \<Rightarrow> (bytes \<rightharpoonup> bytes) \<Rightarrow> 'k list" where
  "key_order ck b = map (\<lambda>kb. the (de ck kb)) (sorted_list_of_set (dom b))"

lemma decode_items_exact:
  assumes "codec_sound ck" "codec_sound cv" "well_encoded ck cv b" "set kbs \<subseteq> dom b"
  shows "decode_items ck cv (faulty_items fs (entries kbs b)) t =
    (Done (faulty_items fs (entries (map (\<lambda>kb. the (de ck kb)) kbs) (typed_view ck cv b))), t)"
  using assms(4)
proof (induction kbs arbitrary: fs)
  case Nil
  then show ?case by (simp add: ret_def)
next
  case (Cons kb kbs)
  then obtain vb where b: "b kb = Some vb" by auto
  with assms(3) obtain k v where enc: "ser ck k = Some kb" "ser cv v = Some vb" unfolding well_encoded_def by blast
  note de = codec_decodes [OF assms(1) enc(1)] codec_decodes [OF assms(2) enc(2)]
  have "typed_view ck cv b k = Some v" using enc de b by (simp add: typed_view_def)
  moreover have "decode_items ck cv (map Inr (entries kbs b)) t =
      (Done (map Inr (entries (map (\<lambda>kb. the (de ck kb)) kbs) (typed_view ck cv b))), t)"
    using Cons.IH [of "[]"] Cons.prems by simp
  ultimately show ?case
    using b de Cons by (cases fs) (auto simp: and_then_def ret_def unwrap_opt_def)
qed

lemma key_order_all:
  assumes "codec_laws ck" "codec_sound cv" "well_encoded ck cv b" "finite (dom b)"
  shows "distinct (key_order ck b)" "set (key_order ck b) = dom (typed_view ck cv b)"
proof -
  have dec: "\<exists>k. ser ck k = Some kb \<and> de ck kb = Some k" if "kb \<in> dom b" for kb
    using that assms(3) codec_decodes [OF codec_laws_sound [OF assms(1)]] unfolding well_encoded_def by blast
  have "inj_on (\<lambda>kb. the (de ck kb)) (dom b)"
    by (rule inj_onI) (use dec in \<open>metis option.sel option.inject\<close>)
  then show "distinct (key_order ck b)" using assms(4) by (simp add: key_order_def distinct_map)
  have member: "k \<in> dom (typed_view ck cv b) \<longleftrightarrow> (\<exists>kb\<in>dom b. the (de ck kb) = k)" for k
  proof -
    obtain xb where xb: "ser ck k = Some xb" "de ck xb = Some k" using codec_encodes [OF assms(1)] by blast
    have "k \<in> dom (typed_view ck cv b) \<longleftrightarrow> xb \<in> dom b"
      using xb assms(2,3) by (auto simp: typed_view_def bind_eq_Some_conv elim: well_encoded_get)
    moreover have "kb = xb" if "kb \<in> dom b" "the (de ck kb) = k" for kb using dec [OF that(1)] that(2) xb by auto
    ultimately show ?thesis using xb by force
  qed
  then show "set (key_order ck b) = dom (typed_view ck cv b)" 
    by (intro set_eqI) (use assms(4) in \<open>simp add: key_order_def image_iff member; blast\<close>)
qed

lemma trait_iter_exact:
  assumes "sled_laws S m" "codec_laws ck" "codec_sound cv" "well_encoded ck cv (m t)" "finite (dom (m t))"
  shows "wp (trait_iter S ck cv) (\<lambda>xs t'. m t' = m t \<and>
    (\<exists>fs. xs = faulty_items fs (entries (key_order ck (m t)) (typed_view ck cv (m t))))) (\<lambda>_. False) t"
proof -
  have "wp (decode_items ck cv rs) (\<lambda>xs t''. m t'' = m t \<and>
      (\<exists>fs. xs = faulty_items fs (entries (key_order ck (m t)) (typed_view ck cv (m t))))) (\<lambda>_. False) t'"
    if "m t' = m t" "rs = faulty_items fs (entries (sorted_list_of_set (dom (m t))) (m t))" for rs fs t'
    using decode_items_exact [OF codec_laws_sound [OF assms(2)] assms(3,4), of "sorted_list_of_set (dom (m t))" fs t']
      that assms(5) by (auto simp: wp_def key_order_def)
  then show ?thesis
    by (simp add: trait_iter_def wp_rules)
      (rule wp_conseq [OF sled_laws_wp(5) [OF assms(1)]], use assms(5) in auto)
qed

text \<open>A batch is encoded entry by entry, and applied like the inserts it was made of.\<close>

lemma encode_batch_run:
  assumes "codec_laws ck" "codec_sound cv" "\<forall>(k, v)\<in>set kvs. ser cv v \<noteq> None"
  shows "\<exists>b. encode_batch ck cv kvs t = (Done b, t) \<and>
    (\<forall>bs. well_encoded ck cv bs \<longrightarrow> well_encoded ck cv (bs ++ map_of (rev b)) \<and>
      typed_view ck cv (bs ++ map_of (rev b)) = typed_view ck cv bs ++ map_of (rev kvs))"
  using assms(3)
proof (induction kvs)
  case Nil
  then show ?case by (simp add: ret_def)
next
  case (Cons kv kvs)
  obtain k v where kv: "kv = (k, v)" by (cases kv)
  obtain kb where kb: "ser ck k = Some kb" using codec_encodes [OF assms(1)] by blast
  from Cons.prems kv obtain vb where vb: "ser cv v = Some vb" by auto
  note enc = kb vb
  from Cons.prems have "\<forall>(k, v)\<in>set kvs. ser cv v \<noteq> None" by simp
  with Cons.IH obtain b where b: "encode_batch ck cv kvs t = (Done b, t)" and
    IH: "\<And>bs. well_encoded ck cv bs \<Longrightarrow> well_encoded ck cv (bs ++ map_of (rev b)) \<and>
      typed_view ck cv (bs ++ map_of (rev b)) = typed_view ck cv bs ++ map_of (rev kvs)" by metis
  have "encode_batch ck cv (kv # kvs) t = (Done ((kb, vb) # b), t)"
    by (simp add: kv enc b and_then_def ret_def)
  moreover have "well_encoded ck cv (bs ++ map_of (rev ((kb, vb) # b))) \<and>
      typed_view ck cv (bs ++ map_of (rev ((kb, vb) # b))) = typed_view ck cv bs ++ map_of (rev (kv # kvs))"
    if "well_encoded ck cv bs" for bs
    using IH [OF well_encoded_upd [OF that enc]] typed_view_upd [OF assms(1,2) enc, of bs] by (simp add: kv map_add_upd_left)
  ultimately show ?case by blast
qed

text \<open>
  The methods of the \<open>DB\<close> trait, over any sled tree and any bincode codecs that keep their
  documented promises, meet the store contract: on a tree that only holds what the trait wrote
  they never panic in an encoding or decoding \<open>unwrap\<close>, a sled error leaves the typed contents
  unchanged, and otherwise they read, insert, remove and get-or-insert exactly like a map.
\<close>

lemma trait_meets_store_contract:
  assumes "sled_laws S m" "codec_laws ck" "codec_laws cv"
  shows "kv_store (\<lambda>t. typed_view ck cv (m t)) (\<lambda>t. well_encoded ck cv (m t))
    (trait_contains_key S ck) (trait_get S ck cv) (trait_insert S ck cv)
    (trait_remove S ck cv) (trait_get_or_insert S ck cv)"
proof -
  note laws = assms(1,2) codec_laws_sound [OF assms(3)]
  have enc: "ser cv v \<noteq> None" for v
    using codec_encodes [OF assms(3), of v] by (metis option.distinct(1))
  show ?thesis
  proof (unfold_locales, goal_cases)
    case (1 t k)
    note found = found_iff [OF laws(3) this, of k]
    show ?case
      by (rule wp_conseq [OF trait_contains_law [OF assms(1,2)]]) (use 1 found in simp_all)
  next
    case (2 t k)
    then show ?case by (auto intro!: wp_conseq [OF trait_get_law [OF laws]])
  next
    case (3 t k v)
    then show ?case
      by (auto intro!: wp_conseq [OF trait_insert_law [OF laws _ enc]] split: sum.splits)
  next
    case (4 t k)
    then show ?case
      by (auto intro!: wp_conseq [OF trait_remove_law [OF laws]] split: sum.splits)
  next
    case (5 t k v)
    then show ?case
      by (auto intro!: wp_conseq [OF trait_get_or_insert_law [OF laws _ enc]] split: sum.splits)
  qed
qed

text \<open>
  The laws can hold: a tree kept as a map, with the identity as the codec of byte strings.
\<close>

definition map_tree :: "(bytes \<rightharpoonup> bytes) sled_api" where
  "map_tree = \<lparr>
    sl_contains_key = (\<lambda>k. gets (\<lambda>t. Inr (t k \<noteq> None))),
    sl_get = (\<lambda>k. gets (\<lambda>t. Inr (t k))),
    sl_insert = (\<lambda>k v t. (Done (Inr (t k)), t(k \<mapsto> v))),
    sl_remove = (\<lambda>k t. (Done (Inr (t k)), t(k := None))),
    sl_iter = gets (\<lambda>t. map Inr (entries (sorted_list_of_set (dom t)) t)),
    sl_apply_batch = (\<lambda>b t. (Done (Inr ()), t ++ map_of (rev b))),
    sl_flush = ret (Inr 0)\<rparr>"

definition raw_codec :: "bytes codec" where
  "raw_codec = \<lparr>ser = Some, de = Some\<rparr>"

lemma map_tree_laws: "sled_laws map_tree (\<lambda>t. t)"
  by (auto simp: sled_laws_def map_tree_def wp_def gets_def ret_def set_entries intro: exI [of _ "[]"])

lemma raw_codec_laws: "codec_laws raw_codec"
  by (simp add: codec_laws_def raw_codec_def)

lemma trait_meets_store_contract_example:
  "kv_store (\<lambda>t. typed_view raw_codec raw_codec t) (\<lambda>t. well_encoded raw_codec raw_codec t)
    (trait_contains_key map_tree raw_codec) (trait_get map_tree raw_codec raw_codec)
    (trait_insert map_tree raw_codec raw_codec) (trait_remove map_tree raw_codec raw_codec)
    (trait_get_or_insert map_tree raw_codec raw_codec)"
  by (rule trait_meets_store_contract [OF map_tree_laws raw_codec_laws raw_codec_laws])

end
