(* ===== verification/Rpc.thy ===== *)
theory Rpc
  imports Effects
begin

section \<open>Talking JSON-RPC: requests, retries and reply values\<close>

text \<open>
  What \<open>wallet_rpc.rs\<close> and \<open>daemon_rpc.rs\<close> share: sending a request with a bounded number of
  attempts, and reading fields out of the reply. The HTTP client (hyper) and the JSON values
  (simd_json) come from outside the repository. A client is a parameter that says how each
  attempt ends; a JSON value is of an arbitrary type \<open>'v\<close> with the accessors the code calls
  (\<open>json_api\<close>). A function of the two modules returns a value, an error, or panics:
  \<open>('e + 'a) outcome\<close>.
\<close>

datatype hyper_error = HyperTimeout | HyperOther

fun is_timeout :: "hyper_error \<Rightarrow> bool" where
  "is_timeout HyperTimeout = True"
| "is_timeout HyperOther = False"

text \<open>How one attempt ends: no response, or a response whose body cannot be read, is not
  JSON, or is a JSON value.\<close>

datatype 'v attempt =
    Failed hyper_error
  | BodyFailed hyper_error
  | BadJson
  | Replied 'v

datatype rpc_failure = FailHyper hyper_error | FailJson

record 'v json_api =
  jv_get :: "'v \<Rightarrow> string \<Rightarrow> 'v option"
  jv_index :: "'v \<Rightarrow> string \<Rightarrow> 'v outcome"
  jv_contains_key :: "'v \<Rightarrow> string \<Rightarrow> bool"
  jv_u64 :: "'v \<Rightarrow> u64 option"
  jv_str :: "'v \<Rightarrow> string option"
  jv_bool :: "'v \<Rightarrow> bool option"
  jv_array :: "'v \<Rightarrow> 'v list option"

subsection \<open>Results that may also panic\<close>

text \<open>\<open>and_try\<close> is sequencing with \<open>?\<close>; \<open>must\<close> is \<open>unwrap\<close> on an option.\<close>

definition and_try :: "('e + 'a) outcome \<Rightarrow> ('a \<Rightarrow> ('e + 'b) outcome) \<Rightarrow> ('e + 'b) outcome" where
  "and_try r f = (case r of Panic \<Rightarrow> Panic | Done (Inl e) \<Rightarrow> Done (Inl e) | Done (Inr x) \<Rightarrow> f x)"

definition must :: "'a option \<Rightarrow> ('e + 'a) outcome" where
  "must x = (case x of None \<Rightarrow> Panic | Some v \<Rightarrow> Done (Inr v))"

definition ok_or :: "'a option \<Rightarrow> 'e \<Rightarrow> ('e + 'a) outcome" where
  "ok_or x e = Done (case x of None \<Rightarrow> Inl e | Some v \<Rightarrow> Inr v)"

definition map_err :: "('e \<Rightarrow> 'f) \<Rightarrow> ('e + 'a) outcome \<Rightarrow> ('f + 'a) outcome" where
  "map_err g r = (case r of Panic \<Rightarrow> Panic | Done (Inl e) \<Rightarrow> Done (Inl (g e)) | Done (Inr x) \<Rightarrow> Done (Inr x))"

lemma and_try_simps [simp]:
  "and_try Panic f = Panic" "and_try (Done (Inl e)) f = Done (Inl e)"
  "and_try (Done (Inr x)) f = f x"
  by (simp_all add: and_try_def)

lemma must_simps [simp]: "must None = Panic" "must (Some v) = Done (Inr v)"
  by (simp_all add: must_def)

lemma ok_or_simps [simp]: "ok_or None e = Done (Inl e)" "ok_or (Some v) e = Done (Inr v)"
  by (simp_all add: ok_or_def)

lemma map_err_simps [simp]:
  "map_err g Panic = Panic" "map_err g (Done (Inl e)) = Done (Inl (g e))"
  "map_err g (Done (Inr x)) = Done (Inr x)"
  by (simp_all add: map_err_def)

lemma and_try_Inr:
  "and_try r f = Done (Inr y) \<longleftrightarrow> (\<exists>x. r = Done (Inr x) \<and> f x = Done (Inr y))"
  by (auto simp: and_try_def split: outcome.splits sum.splits)

text \<open>Collecting the results of a list: the first error, or all the values.\<close>

fun collect_results :: "('a \<Rightarrow> ('e + 'b) outcome) \<Rightarrow> 'a list \<Rightarrow> ('e + 'b list) outcome" where
  "collect_results f [] = Done (Inr [])"
| "collect_results f (x # xs) =
     and_try (f x) (\<lambda>y. and_try (collect_results f xs) (\<lambda>ys. Done (Inr (y # ys))))"

lemma collect_results_Inr:
  "collect_results f xs = Done (Inr ys) \<longleftrightarrow> list_all2 (\<lambda>x y. f x = Done (Inr y)) xs ys"
proof (induction xs arbitrary: ys)
  case (Cons x xs)
  then show ?case by (cases ys) (auto simp: and_try_Inr list_all2_Cons1)
qed auto

lemma collect_results_map:
  "(\<And>x. x \<in> set xs \<Longrightarrow> f x = Done (Inr (g x))) \<Longrightarrow> collect_results f xs = Done (Inr (map g xs))"
  by (induction xs) auto

subsection \<open>Attempts\<close>

text \<open>
  The loop \<open>for i in 0..MAX_CONN_ATTEMPTS\<close>: a response ends it, a timeout goes on (and is
  remembered when it is the last one), any other failure ends it. After the loop the
  remembered error is unwrapped.
\<close>

fun attempts ::
    "nat \<Rightarrow> (nat \<Rightarrow> 'v attempt) \<Rightarrow> hyper_error option \<Rightarrow> nat list \<Rightarrow> (rpc_failure + 'v) outcome" where
  "attempts max_conn client last_error [] =
     (case last_error of None \<Rightarrow> Panic | Some err \<Rightarrow> Done (Inl (FailHyper err)))"
| "attempts max_conn client last_error (i # is) =
     (case client i of
        Replied v \<Rightarrow> Done (Inr v)
      | BadJson \<Rightarrow> Done (Inl FailJson)
      | BodyFailed err \<Rightarrow> Done (Inl (FailHyper err))
      | Failed err \<Rightarrow>
          if is_timeout err
          then attempts max_conn client (if i = max_conn - 1 then Some err else last_error) is
          else Done (Inl (FailHyper err)))"

definition request_with :: "nat \<Rightarrow> (nat \<Rightarrow> 'v attempt) \<Rightarrow> (rpc_failure + 'v) outcome" where
  "request_with max_conn client = attempts max_conn client None [0..<max_conn]"

text \<open>The intended meaning: the first attempt that does not time out decides.\<close>

definition timed_out :: "'v attempt \<Rightarrow> bool" where
  "timed_out a = (a = Failed HyperTimeout)"

fun attempt_result :: "'v attempt \<Rightarrow> rpc_failure + 'v" where
  "attempt_result (Replied v) = Inr v"
| "attempt_result BadJson = Inl FailJson"
| "attempt_result (BodyFailed err) = Inl (FailHyper err)"
| "attempt_result (Failed err) = Inl (FailHyper err)"

lemma attempts_decided:
  assumes "\<exists>i \<in> set is. \<not> timed_out (client i)"
  shows "attempts n client e is =
    Done (attempt_result (client (hd (dropWhile (\<lambda>i. timed_out (client i)) is))))"
  using assms
proof (induction "is" arbitrary: e)
  case (Cons i "is")
  then show ?case
  proof (cases "client i")
    case (Failed err)
    with Cons show ?thesis by (cases err) (auto simp: timed_out_def)
  qed (auto simp: timed_out_def)
qed simp

lemma attempts_all_time_out:
  assumes "\<forall>i \<in> set is. timed_out (client i)"
  shows "attempts n client e is =
    (if n - 1 \<in> set is then Done (Inl (FailHyper HyperTimeout))
     else case e of None \<Rightarrow> Panic | Some err \<Rightarrow> Done (Inl (FailHyper err)))"
  using assms
proof (induction "is" arbitrary: e)
  case (Cons i "is")
  then have "client i = Failed HyperTimeout" by (simp add: timed_out_def)
  with Cons show ?case by (auto simp: timed_out_def)
qed simp

lemma request_with_decided:
  assumes "0 < n"
  shows "request_with n client =
    (case dropWhile (\<lambda>i. timed_out (client i)) [0..<n] of
       [] \<Rightarrow> Done (Inl (FailHyper HyperTimeout))
     | i # _ \<Rightarrow> Done (attempt_result (client i)))"
proof (cases "\<forall>i \<in> set [0..<n]. timed_out (client i)")
  case True
  then have none: "dropWhile (\<lambda>i. timed_out (client i)) [0..<n] = []"
    by (simp add: dropWhile_eq_Nil_conv)
  show ?thesis unfolding none using True assms
    by (simp add: request_with_def attempts_all_time_out)
next
  case False
  then have "dropWhile (\<lambda>i. timed_out (client i)) [0..<n] \<noteq> []"
    by (simp add: dropWhile_eq_Nil_conv)
  with False show ?thesis
    by (auto simp: request_with_def attempts_decided neq_Nil_conv split: list.split)
qed

text \<open>
  Retrying is total and faithful: with at least one attempt allowed, a request never reaches
  the \<open>unwrap\<close> of a missing last error; it makes the attempts in order, and returns what the
  first attempt that does not time out returns, or the timeout when all of them time out.
\<close>

lemma request_with_first_decisive:
  assumes "0 < n"
  shows "request_with n client =
    (case dropWhile (\<lambda>i. timed_out (client i)) [0..<n] of
       [] \<Rightarrow> Done (Inl (FailHyper HyperTimeout))
     | i # _ \<Rightarrow> Done (attempt_result (client i)))"
  using assms by (rule request_with_decided)

lemma request_with_first_decisive_example:
  "request_with 5 (\<lambda>i. if i < 2 then Failed HyperTimeout else Replied i) = Done (Inr (2::nat))"
  by (subst request_with_first_decisive) (simp_all add: timed_out_def upt_rec)

lemma request_with_not_Panic: "0 < n \<Longrightarrow> request_with n client \<noteq> Panic"
  by (auto simp: request_with_decided split: list.split)

subsection \<open>An instance of the JSON accessors\<close>

text \<open>JSON trees, for closed examples of the calls.\<close>

datatype json_value =
    JNum u64
  | JStr string
  | JBool bool
  | JArr "json_value list"
  | JObj "(string \<times> json_value) list"

definition json_tree_api :: "json_value json_api" where
  "json_tree_api = \<lparr>
    jv_get = (\<lambda>v k. case v of JObj kvs \<Rightarrow> map_of kvs k | _ \<Rightarrow> None),
    jv_index = (\<lambda>v k. case v of JObj kvs \<Rightarrow> (case map_of kvs k of Some x \<Rightarrow> Done x | None \<Rightarrow> Panic) | _ \<Rightarrow> Panic),
    jv_contains_key = (\<lambda>v k. case v of JObj kvs \<Rightarrow> map_of kvs k \<noteq> None | _ \<Rightarrow> False),
    jv_u64 = (\<lambda>v. case v of JNum n \<Rightarrow> Some n | _ \<Rightarrow> None),
    jv_str = (\<lambda>v. case v of JStr s \<Rightarrow> Some s | _ \<Rightarrow> None),
    jv_bool = (\<lambda>v. case v of JBool b \<Rightarrow> Some b | _ \<Rightarrow> None),
    jv_array = (\<lambda>v. case v of JArr vs \<Rightarrow> Some vs | _ \<Rightarrow> None)\<rparr>"

end
