(* ===== verification/Wallet_Rpc.thy ===== *)
theory Wallet_Rpc
  imports Rpc
begin

section \<open>The wallet's RPC client: crates/monero_wallet/src/wallet_rpc.rs\<close>

text \<open>
  \<open>WalletRPC\<close>: the JSON bodies it sends, as the strings the code builds, and what it makes of
  the replies. \<open>Address::from_str\<close> (monero crate) is the parameter \<open>ap_from_str\<close>, the
  rendering of an address \<open>ap_to_string\<close>.
\<close>

datatype wallet_rpc_error =
    InvalidPaymentId
  | InvalidSetDaemonReq
  | InvalidSetRefreshReq
  | MissingData string
  | AddrError
  | HyperError hyper_error
  | JSONError

record addr_api =
  ap_from_str :: "string \<Rightarrow> address option"
  ap_to_string :: "address \<Rightarrow> string"

record transfer =
  tr_address :: address
  tr_amount :: u64
  tr_fee :: u64
  tr_confirmations :: u64
  tr_double_spend_seen :: bool
  tr_height :: u64
  tr_addr_index :: u64
  tr_unlock_time :: u64

record transfers =
  ts_addr_index :: u64
  ts_in :: "transfer list"
  ts_out :: "transfer list"

record transfer_out =
  to_amount :: u64
  to_fee :: u64
  to_tx_key :: string

definition transfer_out_total :: "transfer_out \<Rightarrow> u64" where
  "transfer_out_total t = to_amount t + to_fee t"

record subaddress_balance =
  sb_addr :: address
  sb_addr_index :: u64
  sb_balance :: u64

record wallet_balance =
  wb_balance :: u64
  wb_per_subaddress :: "subaddress_balance list"

text \<open>The two clients answer a url and a body, attempt by attempt.\<close>

record 'v wallet_rpc =
  wr_client :: "string \<Rightarrow> string \<Rightarrow> nat \<Rightarrow> 'v attempt"
  wr_long_client :: "string \<Rightarrow> string \<Rightarrow> nat \<Rightarrow> 'v attempt"
  wr_url :: string
  wr_json :: "'v json_api"
  wr_addr :: addr_api

definition wallet_rpc_new :: "(string \<Rightarrow> string \<Rightarrow> nat \<Rightarrow> 'v attempt) \<Rightarrow>
    (string \<Rightarrow> string \<Rightarrow> nat \<Rightarrow> 'v attempt) \<Rightarrow> 'v json_api \<Rightarrow> addr_api \<Rightarrow> string \<Rightarrow> 'v wallet_rpc" where
  "wallet_rpc_new client long_client J A url = \<lparr>wr_client = client, wr_long_client = long_client,
     wr_url = url @ ''/json_rpc'', wr_json = J, wr_addr = A\<rparr>"

fun wallet_failure :: "rpc_failure \<Rightarrow> wallet_rpc_error" where
  "wallet_failure (FailHyper err) = HyperError err"
| "wallet_failure FailJson = JSONError"

definition request :: "'v wallet_rpc \<Rightarrow> string \<Rightarrow> (wallet_rpc_error + 'v) outcome" where
  "request W payload = map_err wallet_failure (request_with 5 (wr_client W (wr_url W) payload))"

definition long_request :: "'v wallet_rpc \<Rightarrow> string \<Rightarrow> (wallet_rpc_error + 'v) outcome" where
  "long_request W payload = map_err wallet_failure (request_with 2 (wr_long_client W (wr_url W) payload))"

subsection \<open>Request bodies\<close>

text \<open>\<open>[a,b,c]\<close>: every index followed by a comma, the last comma popped.\<close>

definition addr_indices_to_string :: "u64 list \<Rightarrow> string" where
  "addr_indices_to_string addr_indices =
     (let s = ''['' @ concat (map (\<lambda>i. to_decimal i @ '','') addr_indices) in
      (if addr_indices = [] then s else butlast s) @ '']'')"

definition bool_to_string :: "bool \<Rightarrow> string" where
  "bool_to_string b = (if b then ''true'' else ''false'')"

definition create_address_body :: "string \<Rightarrow> string" where
  "create_address_body username =
     ''{\"jsonrpc\":\"2.0\",\"id\":\"0\",\"method\":\"create_address\",\"params\":{\"account_index\":0,\"label\":\"''
     @ username @ ''\"}}''"

definition get_balance_body :: "u64 list \<Rightarrow> string" where
  "get_balance_body addr_indices =
     ''{\"jsonrpc\":\"2.0\",\"id\":\"0\",\"method\": \"get_balance\",\"params\":{\"account_index\":0,\"address_indices\":''
     @ addr_indices_to_string addr_indices @ ''}}''"

definition get_transfers_body :: "u64 list \<Rightarrow> bool \<Rightarrow> bool \<Rightarrow> string" where
  "get_transfers_body addr_indices transfers_in transfers_out =
     ''{\"jsonrpc\":\"2.0\",\"id\":\"0\",\"method\":\"get_transfers\",\"params\":{\"account_index\": 0,''
     @ ''\"in\":'' @ bool_to_string transfers_in @ '',\"out\":'' @ bool_to_string transfers_out
     @ '',\"subaddr_indices\":'' @ addr_indices_to_string addr_indices @ ''}}''"

definition get_address_body :: string where
  "get_address_body =
     ''{\"jsonrpc\":\"2.0\",\"id\":\"0\",\"method\":\"get_address\",\"params\":{\"account_index\":0}}}''"

definition transfer_body :: "addr_api \<Rightarrow> u8 option \<Rightarrow> address \<Rightarrow> u64 \<Rightarrow> u64 \<Rightarrow> string" where
  "transfer_body A prio dst amt addr_index =
     ''{\"jsonrpc\":\"2.0\",\"id\":\"0\",\"method\":\"transfer\",\"params\":{\"destinations\":[{\"amount\":''
     @ to_decimal amt @ '',\"address\":\"'' @ ap_to_string A dst @ ''\"}],\"priority\":''
     @ to_decimal (case prio of None \<Rightarrow> 0 | Some p \<Rightarrow> p)
     @ '',\"ring_size\":11'' @ '',\"account_index\":0'' @ '',\"get_tx_key\": true,''
     @ ''\"subaddr_indices\":['' @ to_decimal addr_index @ '']}}''"

definition set_daemon_body :: "string \<Rightarrow> bool \<Rightarrow> string" where
  "set_daemon_body daemon_url trusted =
     ''{\"jsonrpc\":\"2.0\",\"id\":\"0\",\"method\":\"set_daemon\",\"params\":{\"address\":\"''
     @ daemon_url @ ''\",\"trusted\":'' @ bool_to_string trusted @ ''}}''"

definition set_refresh_body :: "u64 \<Rightarrow> string" where
  "set_refresh_body refresh_time =
     ''{\"jsonrpc\":\"2.0\",\"id\":\"0\",\"method\":\"auto_refresh\",\"params\":{\"period\":''
     @ to_decimal refresh_time @ ''}}''"

subsection \<open>Calls\<close>

definition field :: "'v json_api \<Rightarrow> 'v \<Rightarrow> string \<Rightarrow> (wallet_rpc_error + 'v) outcome" where
  "field J v key = ok_or (jv_get J v key) (MissingData key)"

definition field_u64 :: "'v json_api \<Rightarrow> 'v \<Rightarrow> string \<Rightarrow> (wallet_rpc_error + u64) outcome" where
  "field_u64 J v key = and_try (field J v key) (\<lambda>x. must (jv_u64 J x))"

definition field_str :: "'v json_api \<Rightarrow> 'v \<Rightarrow> string \<Rightarrow> (wallet_rpc_error + string) outcome" where
  "field_str J v key = and_try (field J v key) (\<lambda>x. must (jv_str J x))"

definition rpc_create_address :: "'v wallet_rpc \<Rightarrow> string \<Rightarrow> (wallet_rpc_error + address \<times> u64) outcome" where
  "rpc_create_address W username =
     and_try (request W (create_address_body username)) (\<lambda>response.
     and_try (field (wr_json W) response ''result'') (\<lambda>result.
     and_try (field_str (wr_json W) result ''address'') (\<lambda>addr_str.
     and_try (must (ap_from_str (wr_addr W) addr_str)) (\<lambda>addr.
     and_try (field_u64 (wr_json W) result ''address_index'') (\<lambda>acc_index.
     Done (Inr (addr, acc_index)))))))"

definition parse_subaddress ::
    "'v wallet_rpc \<Rightarrow> string \<Rightarrow> 'v \<Rightarrow> (wallet_rpc_error + subaddress_balance) outcome" where
  "parse_subaddress W balance_type val =
     and_try (field_str (wr_json W) val ''address'') (\<lambda>addr_str.
     and_try (must (ap_from_str (wr_addr W) addr_str)) (\<lambda>addr.
     and_try (field_u64 (wr_json W) val ''address_index'') (\<lambda>addr_index.
     and_try (field_u64 (wr_json W) val balance_type) (\<lambda>balance.
     Done (Inr \<lparr>sb_addr = addr, sb_addr_index = addr_index, sb_balance = balance\<rparr>)))))"

text \<open>The items are parsed before the total, but a missing total is reported first.\<close>

definition rpc_get_balance ::
    "'v wallet_rpc \<Rightarrow> u64 list \<Rightarrow> bool \<Rightarrow> (wallet_rpc_error + wallet_balance) outcome" where
  "rpc_get_balance W addr_indices unlocked =
     and_try (request W (get_balance_body addr_indices)) (\<lambda>response.
     and_try (field (wr_json W) response ''result'') (\<lambda>result.
     and_try (field (wr_json W) result ''per_subaddress'') (\<lambda>per.
     and_try (must (jv_array (wr_json W) per)) (\<lambda>per_subaddress.
     let balance_type = (if unlocked then ''unlocked_balance'' else ''balance'') in
     case collect_results (parse_subaddress W balance_type) per_subaddress of
       Panic \<Rightarrow> Panic
     | Done balances \<Rightarrow>
         and_try (field_u64 (wr_json W) result balance_type) (\<lambda>balance.
         and_try (Done balances) (\<lambda>bs.
         Done (Inr \<lparr>wb_balance = balance, wb_per_subaddress = bs\<rparr>)))))))"

definition rpc_get_address :: "'v wallet_rpc \<Rightarrow> (wallet_rpc_error + address) outcome" where
  "rpc_get_address W =
     and_try (request W get_address_body) (\<lambda>response.
     case jv_index (wr_json W) response ''result'' of Panic \<Rightarrow> Panic | Done result \<Rightarrow>
     case jv_index (wr_json W) result ''address'' of Panic \<Rightarrow> Panic | Done v \<Rightarrow>
     and_try (ok_or (jv_str (wr_json W) v) (MissingData ''address'')) (\<lambda>addr_str.
     ok_or (ap_from_str (wr_addr W) addr_str) AddrError))"

text \<open>\<open>assert!(priority.unwrap_or(0) <= 3)\<close> panics before anything is sent.\<close>

definition rpc_transfer :: "'v wallet_rpc \<Rightarrow> u8 option \<Rightarrow> address \<Rightarrow> u64 \<Rightarrow> u64 \<Rightarrow>
    (wallet_rpc_error + transfer_out) outcome" where
  "rpc_transfer W prio dst amt addr_index =
     (if \<not> (case prio of None \<Rightarrow> 0 | Some p \<Rightarrow> p) \<le> 3 then Panic else
     and_try (long_request W (transfer_body (wr_addr W) prio dst amt addr_index)) (\<lambda>response.
     and_try (field (wr_json W) response ''result'') (\<lambda>result.
     and_try (field_u64 (wr_json W) result ''amount'') (\<lambda>amount.
     and_try (field_u64 (wr_json W) result ''fee'') (\<lambda>fee.
     and_try (field_str (wr_json W) result ''tx_key'') (\<lambda>tx_key.
     Done (Inr \<lparr>to_amount = amount, to_fee = fee, to_tx_key = tx_key\<rparr>)))))))"

definition rpc_set_daemon :: "'v wallet_rpc \<Rightarrow> string \<Rightarrow> bool \<Rightarrow> (wallet_rpc_error + unit) outcome" where
  "rpc_set_daemon W daemon_url trusted =
     and_try (request W (set_daemon_body daemon_url trusted)) (\<lambda>response.
     Done (if jv_contains_key (wr_json W) response ''result'' then Inr () else Inl InvalidSetDaemonReq))"

definition rpc_set_refresh_time :: "'v wallet_rpc \<Rightarrow> u64 \<Rightarrow> (wallet_rpc_error + unit) outcome" where
  "rpc_set_refresh_time W refresh_time =
     and_try (request W (set_refresh_body refresh_time)) (\<lambda>response.
     Done (if jv_contains_key (wr_json W) response ''result'' then Inr () else Inl InvalidSetRefreshReq))"

subsection \<open>Transfers\<close>

text \<open>The closure \<open>val_to_transfer\<close>: a missing field makes the whole transfer \<open>None\<close>
  (\<open>Inl ()\<close>), a field of the wrong type panics.\<close>

definition tr_field :: "'v json_api \<Rightarrow> 'v \<Rightarrow> string \<Rightarrow> (unit + 'v) outcome" where
  "tr_field J v key = ok_or (jv_get J v key) ()"

definition tr_u64 :: "'v json_api \<Rightarrow> 'v \<Rightarrow> string \<Rightarrow> (unit + u64) outcome" where
  "tr_u64 J v key = and_try (tr_field J v key) (\<lambda>x. must (jv_u64 J x))"

definition val_to_transfer :: "'v wallet_rpc \<Rightarrow> 'v \<Rightarrow> (unit + transfer) outcome" where
  "val_to_transfer W val = (let J = wr_json W in
     and_try (tr_field J val ''address'') (\<lambda>a.
     and_try (must (jv_str J a)) (\<lambda>addr_str.
     and_try (must (ap_from_str (wr_addr W) addr_str)) (\<lambda>addr.
     and_try (tr_u64 J val ''amount'') (\<lambda>amount.
     and_try (tr_u64 J val ''confirmations'') (\<lambda>confirmations.
     and_try (tr_field J val ''double_spend_seen'') (\<lambda>d.
     and_try (must (jv_bool J d)) (\<lambda>double_spend_seen.
     and_try (tr_u64 J val ''height'') (\<lambda>height.
     and_try (tr_field J val ''subaddr_index'') (\<lambda>sub.
     and_try (tr_u64 J sub ''minor'') (\<lambda>addr_index.
     and_try (tr_u64 J val ''unlock_time'') (\<lambda>unlock_time.
     and_try (tr_u64 J val ''fee'') (\<lambda>fee.
     Done (Inr \<lparr>tr_address = addr, tr_amount = amount, tr_fee = fee,
       tr_confirmations = confirmations, tr_double_spend_seen = double_spend_seen,
       tr_height = height, tr_addr_index = addr_index, tr_unlock_time = unlock_time\<rparr>))))))))))))))"

text \<open>\<open>filter_map\<close> with a closure that may panic.\<close>

fun filter_map_results :: "('v \<Rightarrow> (unit + 'b) outcome) \<Rightarrow> 'v list \<Rightarrow> ('e + 'b list) outcome" where
  "filter_map_results f [] = Done (Inr [])"
| "filter_map_results f (v # vs) = (case f v of
      Panic \<Rightarrow> Panic
    | Done (Inl _) \<Rightarrow> filter_map_results f vs
    | Done (Inr b) \<Rightarrow> and_try (filter_map_results f vs) (\<lambda>bs. Done (Inr (b # bs))))"

definition transfer_list :: "'v wallet_rpc \<Rightarrow> 'v \<Rightarrow> string \<Rightarrow> (wallet_rpc_error + transfer list) outcome" where
  "transfer_list W result key = (case jv_get (wr_json W) result key of
      Some arr \<Rightarrow> and_try (must (jv_array (wr_json W) arr)) (filter_map_results (val_to_transfer W))
    | None \<Rightarrow> Done (Inr []))"

text \<open>
  A transfer with index \<open>i\<close> goes to slot \<open>i - 1\<close>, if there is one. An incoming transfer with
  index 0 fails the \<open>checked_sub(1).unwrap()\<close>; an outgoing one is dropped.
\<close>

fun place_in :: "transfer list \<Rightarrow> transfers list \<Rightarrow> transfers list outcome" where
  "place_in [] ts = Done ts"
| "place_in (t # rest) ts = (case checked_sub (tr_addr_index t) 1 of
      None \<Rightarrow> Panic
    | Some j \<Rightarrow> place_in rest
        (if unat j < length ts
         then ts[unat j := (ts ! unat j)\<lparr>ts_in := ts_in (ts ! unat j) @ [t]\<rparr>] else ts))"

fun place_out :: "transfer list \<Rightarrow> transfers list \<Rightarrow> transfers list" where
  "place_out [] ts = ts"
| "place_out (t # rest) ts = place_out rest
     (if 0 < tr_addr_index t then
        (let j = unat (tr_addr_index t - 1) in
         if j < length ts then ts[j := (ts ! j)\<lparr>ts_out := ts_out (ts ! j) @ [t]\<rparr>] else ts)
      else ts)"

definition distribute :: "u64 list \<Rightarrow> transfer list \<Rightarrow> transfer list \<Rightarrow> transfers list outcome" where
  "distribute addr_indices ins outs =
     (case place_in ins (map (\<lambda>i. \<lparr>ts_addr_index = i, ts_in = [], ts_out = []\<rparr>) addr_indices) of
        Panic \<Rightarrow> Panic
      | Done ts \<Rightarrow> Done (place_out outs ts))"

definition rpc_get_transfers ::
    "'v wallet_rpc \<Rightarrow> u64 list \<Rightarrow> bool \<Rightarrow> bool \<Rightarrow> (wallet_rpc_error + transfers list) outcome" where
  "rpc_get_transfers W addr_indices transfers_in transfers_out =
     and_try (request W (get_transfers_body addr_indices transfers_in transfers_out)) (\<lambda>response.
     and_try (field (wr_json W) response ''result'') (\<lambda>result.
     and_try (transfer_list W result ''in'') (\<lambda>ins.
     and_try (transfer_list W result ''out'') (\<lambda>outs.
     case distribute addr_indices ins outs of Panic \<Rightarrow> Panic | Done ts \<Rightarrow> Done (Inr ts)))))"

subsection \<open>Where a transfer ends up\<close>

definition for_slot :: "nat \<Rightarrow> transfer list \<Rightarrow> transfer list" where
  "for_slot j = filter (\<lambda>t. unat (tr_addr_index t) = Suc j)"

lemma unat_pos_word:
  assumes "i \<noteq> (0::u64)"
  obtains k where "unat i = Suc k" "unat (i - 1) = k" "1 \<le> i" "0 < i"
proof
  have "unat i \<noteq> 0" using assms by (simp add: unat_eq_zero)
  then show "unat i = Suc (unat i - 1)" by simp
  show "1 \<le> i" "0 < i" using \<open>unat i \<noteq> 0\<close> by (simp_all add: word_le_nat_alt word_less_nat_alt)
  then show "unat (i - 1) = unat i - 1" by (simp add: unat_sub)
qed

lemma place_in_eq:
  "place_in ins ts = (if \<exists>t \<in> set ins. tr_addr_index t = 0 then Panic
    else Done (map (\<lambda>j. (ts ! j)\<lparr>ts_in := ts_in (ts ! j) @ for_slot j ins\<rparr>) [0..<length ts]))"
proof (induction ins ts rule: place_in.induct)
  case (1 ts)
  show ?case by (auto simp: for_slot_def intro: nth_equalityI)
next
  case (2 t rest ts)
  show ?case
  proof (cases "tr_addr_index t = 0")
    case True
    then show ?thesis by (simp add: checked_sub_def)
  next
    case False
    then obtain k where k: "unat (tr_addr_index t) = Suc k" "unat (tr_addr_index t - 1) = k"
      "1 \<le> tr_addr_index t" by (rule unat_pos_word)
    show ?thesis
      using False "2.IH" [of "tr_addr_index t - 1"] k
      by (auto simp: checked_sub_def for_slot_def nth_list_update_split)
  qed
qed

lemma place_out_eq:
  "place_out outs ts =
    map (\<lambda>j. (ts ! j)\<lparr>ts_out := ts_out (ts ! j) @ for_slot j outs\<rparr>) [0..<length ts]"
proof (induction outs ts rule: place_out.induct)
  case (1 ts)
  show ?case by (auto simp: for_slot_def intro: nth_equalityI)
next
  case (2 t rest ts)
  show ?case
  proof (cases "tr_addr_index t = 0")
    case True
    then show ?thesis using 2 by (simp add: for_slot_def)
  next
    case False
    then obtain k where "unat (tr_addr_index t) = Suc k" "unat (tr_addr_index t - 1) = k"
      "0 < tr_addr_index t" by (rule unat_pos_word)
    with 2 show ?thesis
      by (auto simp: for_slot_def nth_list_update_split Let_def)
  qed
qed

lemma distribute_eq:
  "distribute addr_indices ins outs =
    (if \<exists>t. t \<in> set ins \<and> tr_addr_index t = 0 then Panic
     else Done (map (\<lambda>j. \<lparr>ts_addr_index = addr_indices ! j,
       ts_in = filter (\<lambda>t. unat (tr_addr_index t) = Suc j) ins,
       ts_out = filter (\<lambda>t. unat (tr_addr_index t) = Suc j) outs\<rparr>) [0..<length addr_indices]))"
  by (auto simp: distribute_def place_in_eq place_out_eq for_slot_def intro!: nth_equalityI)

text \<open>
  What \<open>get_transfers\<close> builds, in full: it panics exactly when the wallet reports an incoming
  transfer to subaddress 0; otherwise the list has one entry per requested index, labelled with
  that index in the order requested, and entry \<open>j\<close> holds exactly the transfers to subaddress
  \<open>j + 1\<close>, in the wallet's order, whatever the label of that entry is.
\<close>

lemma distribute_exact:
  "distribute addr_indices ins outs =
    (if \<exists>t. t \<in> set ins \<and> tr_addr_index t = 0 then Panic
     else Done (map (\<lambda>j. \<lparr>ts_addr_index = addr_indices ! j,
       ts_in = filter (\<lambda>t. unat (tr_addr_index t) = Suc j) ins,
       ts_out = filter (\<lambda>t. unat (tr_addr_index t) = Suc j) outs\<rparr>) [0..<length addr_indices]))"
  by (rule distribute_eq)

text \<open>
  When the indices are requested in the order 1, 2, ..., n, every transfer in the result of
  \<open>get_transfers\<close>, incoming or outgoing, sits in the entry labelled with its own subaddress.
\<close>

lemma distribute_labels_agree:
  assumes "distribute (map of_nat [1..<Suc n]) ins outs = Done ts" and "n < 2 ^ 64"
    and "e \<in> set ts" and "t \<in> set (ts_in e) \<or> t \<in> set (ts_out e)"
  shows "ts_addr_index e = tr_addr_index t"
proof -
  from assms(1,3) obtain j where j: "j < n" "ts_addr_index e = map of_nat [1..<Suc n] ! j"
    "ts_in e = filter (\<lambda>t. unat (tr_addr_index t) = Suc j) ins"
    "ts_out e = filter (\<lambda>t. unat (tr_addr_index t) = Suc j) outs"
    by (auto simp: distribute_eq split: if_splits simp del: upt_Suc)
  with assms(4) have "unat (tr_addr_index t) = Suc j" by auto
  moreover have "ts_addr_index e = of_nat (Suc j)" using j(1,2) by (simp del: upt_Suc)
  moreover have "tr_addr_index t = of_nat (unat (tr_addr_index t))" by simp
  ultimately show ?thesis by simp
qed

definition example_transfer :: "u64 \<Rightarrow> u64 \<Rightarrow> transfer" where
  "example_transfer i amt = \<lparr>tr_address = ''4a'', tr_amount = amt, tr_fee = 0, tr_confirmations = 12,
    tr_double_spend_seen = False, tr_height = 1, tr_addr_index = i, tr_unlock_time = 0\<rparr>"

lemma distribute_labels_agree_example:
  "distribute [1, 2] [example_transfer 2 5] [] =
      Done [\<lparr>ts_addr_index = 1, ts_in = [], ts_out = []\<rparr>,
        \<lparr>ts_addr_index = 2, ts_in = [example_transfer 2 5], ts_out = []\<rparr>] \<and>
   ts_addr_index \<lparr>ts_addr_index = 2, ts_in = [example_transfer 2 5], ts_out = []\<rparr> =
     tr_addr_index (example_transfer 2 5)"
proof
  show run: "distribute [1, 2] [example_transfer 2 5] [] =
      Done [\<lparr>ts_addr_index = 1, ts_in = [], ts_out = []\<rparr>,
        \<lparr>ts_addr_index = 2, ts_in = [example_transfer 2 5], ts_out = []\<rparr>]"
    by (simp add: distribute_def checked_sub_def example_transfer_def)
  have "map of_nat [1..<Suc 2] = [1, 2 :: u64]" by (simp add: upt_rec)
  with run have run': "distribute (map of_nat [1..<Suc 2]) [example_transfer 2 5] [] =
      Done [\<lparr>ts_addr_index = 1, ts_in = [], ts_out = []\<rparr>,
        \<lparr>ts_addr_index = 2, ts_in = [example_transfer 2 5], ts_out = []\<rparr>]"
    by (simp only:)
  show "ts_addr_index \<lparr>ts_addr_index = 2, ts_in = [example_transfer 2 5], ts_out = []\<rparr> =
      tr_addr_index (example_transfer 2 5)"
    by (rule distribute_labels_agree [OF run']) simp_all
qed

text \<open>
  In any other order they are mixed up. \<open>update_transfers\<close> requests the indices in the order
  in which the money tree lists its users, by encoded user name; with two users listed in the
  opposite order of their subaddresses, the deposit to subaddress 1 is put in the entry
  labelled 2.
\<close>

lemma distribute_mislabels:
  "distribute [2, 1] [example_transfer 1 amt] [] =
    Done [\<lparr>ts_addr_index = 2, ts_in = [example_transfer 1 amt], ts_out = []\<rparr>,
          \<lparr>ts_addr_index = 1, ts_in = [], ts_out = []\<rparr>]"
  by (simp add: distribute_def checked_sub_def example_transfer_def)

subsection \<open>The request bodies\<close>

fun split_commas :: "string \<Rightarrow> string list" where
  "split_commas [] = [[]]"
| "split_commas (c # cs) = (if c = CHR '','' then [] # split_commas cs
     else (c # hd (split_commas cs)) # tl (split_commas cs))"

text \<open>Reading a JSON array of numbers.\<close>

definition read_indices :: "string \<Rightarrow> nat list" where
  "read_indices s = (let body = butlast (tl s) in
     if body = [] then [] else map of_decimal (split_commas body))"

lemma split_commas_nonempty [simp]: "split_commas s \<noteq> []"
  by (induction s) auto

lemma split_commas_word: "CHR '','' \<notin> set w \<Longrightarrow> split_commas w = [w]"
  by (induction w) auto

lemma split_commas_append:
  "CHR '','' \<notin> set w \<Longrightarrow> split_commas (w @ CHR '','' # s) = w # split_commas s"
  by (induction w) auto

lemma comma_not_digit: "CHR '','' \<notin> set (decimal n)"
  using decimal_digits [of "CHR '',''" n] by (auto simp: is_digit_def)

lemma split_index_list:
  "xs \<noteq> [] \<Longrightarrow> split_commas (butlast (concat (map (\<lambda>i. to_decimal i @ '','') xs))) = map to_decimal xs"
proof (induction xs)
  case (Cons x xs)
  have no_comma: "CHR '','' \<notin> set (to_decimal x)" by (simp add: to_decimal_def comma_not_digit)
  show ?case
  proof (cases "xs = []")
    case True
    then show ?thesis using no_comma by (simp add: butlast_append split_commas_word)
  next
    case False
    then have "concat (map (\<lambda>i. to_decimal i @ '','') xs) \<noteq> []" by (cases xs) auto
    with Cons False no_comma show ?thesis by (simp add: butlast_append split_commas_append)
  qed
qed simp

lemma addr_indices_to_string_eq:
  "addr_indices_to_string xs =
    ''['' @ butlast (concat (map (\<lambda>i. to_decimal i @ '','') xs)) @ '']''"
proof (cases xs)
  case (Cons x ys)
  then have "concat (map (\<lambda>i. to_decimal i @ '','') xs) \<noteq> []" by simp
  with Cons show ?thesis by (simp add: addr_indices_to_string_def Let_def)
qed (simp add: addr_indices_to_string_def)

text \<open>
  The index list sent to the wallet is well formed for every list: \<open>addr_indices_to_string\<close>
  writes a bracketed, comma-separated JSON array with no trailing comma, and reading that array
  gives back exactly the indices, in order.
\<close>

lemma addr_indices_roundtrip:
  "read_indices (addr_indices_to_string xs) = map unat xs"
proof (cases "xs = []")
  case True
  then show ?thesis by (simp add: read_indices_def addr_indices_to_string_def)
next
  case False
  then obtain x ys where "xs = x # ys" by (cases xs) auto
  then have "butlast (concat (map (\<lambda>i. to_decimal i @ '','') xs)) \<noteq> []"
    by (cases ys) (auto simp: butlast_append to_decimal_def)
  with False split_index_list [OF False] show ?thesis
    by (simp add: read_indices_def addr_indices_to_string_eq Let_def comp_def)
qed

text \<open>The surplus of opening over closing braces of a string.\<close>

definition brace_balance :: "string \<Rightarrow> int" where
  "brace_balance s = (\<Sum>c\<leftarrow>s. if c = CHR ''{'' then 1 else if c = CHR ''}'' then - 1 else 0)"

lemma brace_balance_simps [simp]:
  "brace_balance [] = 0"
  "brace_balance (c # s) =
    (if c = CHR ''{'' then 1 else if c = CHR ''}'' then - 1 else 0) + brace_balance s"
  "brace_balance (s @ t) = brace_balance s + brace_balance t"
  by (simp_all add: brace_balance_def)

lemma brace_balance_none: "CHR ''{'' \<notin> set s \<Longrightarrow> CHR ''}'' \<notin> set s \<Longrightarrow> brace_balance s = 0"
  by (induction s) auto

lemma brace_balance_decimal [simp]: "brace_balance (to_decimal w) = 0"
  unfolding to_decimal_def
  by (rule brace_balance_none) (auto dest!: decimal_digits simp: is_digit_def)

lemma brace_balance_indices [simp]: "brace_balance (addr_indices_to_string xs) = 0"
proof (rule brace_balance_none)
  have "set (addr_indices_to_string xs) \<subseteq>
      {CHR ''['', CHR '']'', CHR '',''} \<union> (\<Union>i. set (to_decimal (i::u64)))"
    by (cases "xs = []") (auto simp: addr_indices_to_string_eq dest!: in_set_butlastD)
  then show "CHR ''{'' \<notin> set (addr_indices_to_string xs)" "CHR ''}'' \<notin> set (addr_indices_to_string xs)"
    by (auto simp: to_decimal_def is_digit_def dest!: subsetD decimal_digits)
qed

lemma brace_balance_bool [simp]: "brace_balance (bool_to_string b) = 0"
  by (simp add: bool_to_string_def)

text \<open>
  The bodies of the calls that read balances and transfers and of \<open>auto_refresh\<close> close every
  brace they open, for all arguments; the constant body of \<open>get_address\<close> does not: it closes one
  brace more than it opens, so it is not a JSON document.
\<close>

lemma request_bodies_braces:
  "brace_balance (get_balance_body xs) = 0 \<and> brace_balance (get_transfers_body xs i out) = 0 \<and>
   brace_balance (set_refresh_body r) = 0 \<and> brace_balance get_address_body = - 1"
  by (simp add: get_balance_body_def get_transfers_body_def set_refresh_body_def get_address_body_def)

end
