(* ===== verification/Daemon_Rpc.thy ===== *)
theory Daemon_Rpc
  imports Rpc
begin

section \<open>The daemon's RPC client: crates/monero_wallet/src/daemon_rpc.rs\<close>

text \<open>
  \<open>DaemonRPC\<close>. Hexadecimal decoding (hex_simd), the consensus decoding of blocks,
  transactions and hashes (monero crate) and the rendering of a JSON array of strings
  (simd_json) are parameters.
\<close>

datatype daemon_rpc_error =
    DaemonMissingData
  | MoneroEncodingError
  | DaemonHyperError hyper_error
  | HexError
  | DaemonJSONError

record ('v, 'h, 'b, 'tx) daemon_rpc =
  dr_client :: "string \<Rightarrow> string \<Rightarrow> nat \<Rightarrow> 'v attempt"
  dr_url :: string
  dr_json :: "'v json_api"
  dr_hex :: "bytes \<Rightarrow> bytes option"
  dr_hash_from_slice :: "bytes \<Rightarrow> 'h outcome"
  dr_hash_hex :: "'h \<Rightarrow> string"
  dr_block :: "bytes \<Rightarrow> 'b option"
  dr_block_hashes :: "'b \<Rightarrow> 'h list"
  dr_tx :: "bytes \<Rightarrow> 'tx option"
  dr_hash :: "bytes \<Rightarrow> 'h option"
  dr_json_array :: "string list \<Rightarrow> string"

fun daemon_failure :: "rpc_failure \<Rightarrow> daemon_rpc_error" where
  "daemon_failure (FailHyper err) = DaemonHyperError err"
| "daemon_failure FailJson = DaemonJSONError"

definition daemon_request ::
    "('v, 'h, 'b, 'tx) daemon_rpc \<Rightarrow> string \<Rightarrow> string \<Rightarrow> (daemon_rpc_error + 'v) outcome" where
  "daemon_request D payload url =
     map_err daemon_failure (request_with 5 (dr_client D (dr_url D @ url) payload))"

text \<open>Indexing twice, as in \<open>response["result"]["fee"]\<close>.\<close>

definition index2 :: "'v json_api \<Rightarrow> 'v \<Rightarrow> string \<Rightarrow> string \<Rightarrow> (daemon_rpc_error + 'v) outcome" where
  "index2 J v a b = (case jv_index J v a of Panic \<Rightarrow> Panic | Done x \<Rightarrow>
     (case jv_index J x b of Panic \<Rightarrow> Panic | Done y \<Rightarrow> Done (Inr y)))"

definition index1 :: "'v json_api \<Rightarrow> 'v \<Rightarrow> string \<Rightarrow> (daemon_rpc_error + 'v) outcome" where
  "index1 J v a = (case jv_index J v a of Panic \<Rightarrow> Panic | Done x \<Rightarrow> Done (Inr x))"

definition get_fee_body :: string where
  "get_fee_body = ''{\"jsonrpc\":\"2.0\",\"id\":\"0\",\"method\":\"get_fee_estimate\"}}''"

definition daemon_get_fee :: "('v, 'h, 'b, 'tx) daemon_rpc \<Rightarrow> (daemon_rpc_error + u64) outcome" where
  "daemon_get_fee D =
     and_try (daemon_request D get_fee_body ''/json_rpc'') (\<lambda>response.
     and_try (index2 (dr_json D) response ''result'' ''fee'') (\<lambda>v.
     ok_or (jv_u64 (dr_json D) v) DaemonMissingData))"

definition get_block_body :: "u64 \<Rightarrow> string" where
  "get_block_body height =
     ''{\"jsonrpc\":\"2.0\",\"id\":\"0\",\"method\":\"get_block\",\"params\":{\"height\":''
     @ to_decimal height @ ''}}''"

definition daemon_block ::
    "('v, 'h, 'b, 'tx) daemon_rpc \<Rightarrow> u64 \<Rightarrow> (daemon_rpc_error + 'h \<times> 'b) outcome" where
  "daemon_block D height =
     and_try (daemon_request D (get_block_body height) ''/json_rpc'') (\<lambda>res.
     and_try (index2 (dr_json D) res ''result'' ''block_header'') (\<lambda>header.
     and_try (index1 (dr_json D) header ''hash'') (\<lambda>h.
     and_try (ok_or (jv_str (dr_json D) h) DaemonMissingData) (\<lambda>block_hash_hex.
     and_try (ok_or (dr_hex D (as_bytes block_hash_hex)) HexError) (\<lambda>block_hash_bytes.
     case dr_hash_from_slice D block_hash_bytes of Panic \<Rightarrow> Panic | Done block_hash \<Rightarrow>
     and_try (index2 (dr_json D) res ''result'' ''blob'') (\<lambda>b.
     and_try (ok_or (jv_str (dr_json D) b) DaemonMissingData) (\<lambda>block_str.
     and_try (ok_or (dr_hex D (as_bytes block_str)) HexError) (\<lambda>block_hex.
     and_try (ok_or (dr_block D block_hex) MoneroEncodingError) (\<lambda>block.
     Done (Inr (block_hash, block))))))))))) "

text \<open>The pool: a reply without the array is an empty pool.\<close>

definition pool_tx :: "('v, 'h, 'b, 'tx) daemon_rpc \<Rightarrow> 'v \<Rightarrow> (daemon_rpc_error + 'tx) outcome" where
  "pool_tx D blob =
     and_try (index1 (dr_json D) blob ''tx_blob'') (\<lambda>v.
     and_try (ok_or (jv_str (dr_json D) v) DaemonMissingData) (\<lambda>tx_hex.
     and_try (ok_or (dr_hex D (as_bytes tx_hex)) HexError) (\<lambda>tx_bytes.
     ok_or (dr_tx D tx_bytes) MoneroEncodingError)))"

definition daemon_txpool :: "('v, 'h, 'b, 'tx) daemon_rpc \<Rightarrow> (daemon_rpc_error + 'tx list) outcome" where
  "daemon_txpool D =
     and_try (daemon_request D [] ''/get_transaction_pool'') (\<lambda>res.
     and_try (index1 (dr_json D) res ''transactions'') (\<lambda>txs.
     case jv_array (dr_json D) txs of
       None \<Rightarrow> Done (Inr [])
     | Some blobs \<Rightarrow> collect_results (pool_tx D) blobs))"

definition pool_hash :: "('v, 'h, 'b, 'tx) daemon_rpc \<Rightarrow> 'v \<Rightarrow> (daemon_rpc_error + 'h) outcome" where
  "pool_hash D blob =
     and_try (ok_or (jv_str (dr_json D) blob) DaemonMissingData) (\<lambda>tx_hash_hex.
     and_try (ok_or (dr_hex D (as_bytes tx_hash_hex)) HexError) (\<lambda>tx_hash_bytes.
     ok_or (dr_hash D tx_hash_bytes) MoneroEncodingError))"

definition daemon_txpool_hashes :: "('v, 'h, 'b, 'tx) daemon_rpc \<Rightarrow> (daemon_rpc_error + 'h set) outcome" where
  "daemon_txpool_hashes D =
     and_try (daemon_request D [] ''/get_transaction_pool_hashes'') (\<lambda>res.
     and_try (index1 (dr_json D) res ''tx_hashes'') (\<lambda>hs.
     case jv_array (dr_json D) hs of
       None \<Rightarrow> Done (Inr {})
     | Some blobs \<Rightarrow> and_try (collect_results (pool_hash D) blobs) (\<lambda>l. Done (Inr (set l)))))"

definition get_block_count_body :: string where
  "get_block_count_body = ''{\"jsonrpc\":\"2.0\",\"id\":\"0\",\"method\":\"get_block_count\"}''"

definition daemon_height :: "('v, 'h, 'b, 'tx) daemon_rpc \<Rightarrow> (daemon_rpc_error + u64) outcome" where
  "daemon_height D =
     and_try (daemon_request D get_block_count_body ''/json_rpc'') (\<lambda>res.
     and_try (index2 (dr_json D) res ''result'' ''count'') (\<lambda>v.
     ok_or (jv_u64 (dr_json D) v) DaemonMissingData))"

subsection \<open>Transactions by hash, in batches\<close>

definition MAX_REQUESTED_TRANSACTIONS :: nat where
  "MAX_REQUESTED_TRANSACTIONS = 100"

definition transactions_body :: "('v, 'h, 'b, 'tx) daemon_rpc \<Rightarrow> 'h list \<Rightarrow> string" where
  "transactions_body D hashes =
     ''{\"txs_hashes\":'' @ dr_json_array D (map (dr_hash_hex D) hashes) @ ''}''"

text \<open>A transaction of the reply; the \<open>expect\<close> on its string panics.\<close>

definition reply_tx :: "('v, 'h, 'b, 'tx) daemon_rpc \<Rightarrow> 'v \<Rightarrow> (daemon_rpc_error + 'tx) outcome" where
  "reply_tx D tx_json =
     and_try (must (jv_str (dr_json D) tx_json)) (\<lambda>tx_hex.
     and_try (ok_or (dr_hex D (as_bytes tx_hex)) HexError) (\<lambda>tx_bytes.
     ok_or (dr_tx D tx_bytes) MoneroEncodingError))"

definition transactions_batch ::
    "('v, 'h, 'b, 'tx) daemon_rpc \<Rightarrow> 'h list \<Rightarrow> (daemon_rpc_error + 'tx list) outcome" where
  "transactions_batch D hashes =
     and_try (daemon_request D (transactions_body D hashes) ''/get_transactions'') (\<lambda>res.
     and_try (index1 (dr_json D) res ''txs_as_hex'') (\<lambda>v.
     and_try (ok_or (jv_array (dr_json D) v) DaemonMissingData) (\<lambda>hexes.
     collect_results (reply_tx D) hexes)))"

text \<open>The loop \<open>for i in 0..=len / 100\<close>; an empty slice ends it.\<close>

fun batch_loop ::
    "('h list \<Rightarrow> ('e + 'tx list) outcome) \<Rightarrow> 'h list \<Rightarrow> 'tx list \<Rightarrow> nat list \<Rightarrow> ('e + 'tx list) outcome" where
  "batch_loop fetch hashes transactions [] = Done (Inr transactions)"
| "batch_loop fetch hashes transactions (i # is) =
     (let starting_index = i * MAX_REQUESTED_TRANSACTIONS;
          ending_index = min (MAX_REQUESTED_TRANSACTIONS * (i + 1)) (length hashes) in
      if ending_index = starting_index then Done (Inr transactions)
      else and_try (fetch (take (ending_index - starting_index) (drop starting_index hashes)))
        (\<lambda>txs. batch_loop fetch hashes (transactions @ txs) is))"

definition transactions_by_hashes ::
    "('v, 'h, 'b, 'tx) daemon_rpc \<Rightarrow> 'h list \<Rightarrow> (daemon_rpc_error + 'tx list) outcome" where
  "transactions_by_hashes D hashes =
     batch_loop (transactions_batch D) hashes []
       [0..<Suc (length hashes div MAX_REQUESTED_TRANSACTIONS)]"

definition block_transactions ::
    "('v, 'h, 'b, 'tx) daemon_rpc \<Rightarrow> 'b \<Rightarrow> (daemon_rpc_error + 'tx list) outcome" where
  "block_transactions D block = transactions_by_hashes D (dr_block_hashes D block)"

text \<open>
  From batch \<open>i\<close> on, the loop fetches the hashes that are left, none twice. The batches it
  asks for are not empty and within the daemon's limit.
\<close>

lemma batch_loop_from:
  assumes fetch: "\<And>j. j * MAX_REQUESTED_TRANSACTIONS < length hashes \<Longrightarrow>
      fetch (take MAX_REQUESTED_TRANSACTIONS (drop (j * MAX_REQUESTED_TRANSACTIONS) hashes)) =
      Done (Inr (map f (take MAX_REQUESTED_TRANSACTIONS (drop (j * MAX_REQUESTED_TRANSACTIONS) hashes))))"
    and n: "n = Suc (length hashes div MAX_REQUESTED_TRANSACTIONS)" and "i \<le> n"
    and "i * MAX_REQUESTED_TRANSACTIONS \<le> length hashes \<or> i = n"
  shows "batch_loop fetch hashes acc [i..<n] =
    Done (Inr (acc @ map f (drop (i * MAX_REQUESTED_TRANSACTIONS) hashes)))"
  using assms(3,4)
proof (induction "n - i" arbitrary: i acc)
  case 0
  then have "i = n" by simp
  then have "length hashes \<le> i * MAX_REQUESTED_TRANSACTIONS"
    using n by (simp add: MAX_REQUESTED_TRANSACTIONS_def)
  with \<open>i = n\<close> show ?case by simp
next
  case (Suc k)
  let ?m = MAX_REQUESTED_TRANSACTIONS
  let ?batch = "take (min (?m * (i + 1)) (length hashes) - i * ?m) (drop (i * ?m) hashes)"
  from Suc.hyps(2) have "i < n" by simp
  with Suc.prems have le: "i * ?m \<le> length hashes" by simp
  have pos: "0 < ?m" by (simp add: MAX_REQUESTED_TRANSACTIONS_def)
  have range: "[i..<n] = i # [Suc i..<n]" using \<open>i < n\<close> by (simp add: upt_rec)
  show ?case
  proof (cases "length hashes = i * ?m")
    case True
    with range pos show ?thesis by (simp add: Let_def)
  next
    case False
    with le have more: "i * ?m < length hashes" by simp
    have batch: "?batch = take ?m (drop (i * ?m) hashes)" 
      using le by (cases "?m * (i + 1) \<le> length hashes") (simp_all add: min_def mult.commute)
    have "min (?m * (i + 1)) (length hashes) \<noteq> i * ?m" using more pos by (simp add: min_def)
    moreover have "fetch ?batch = Done (Inr (map f ?batch))"
      unfolding batch using more by (rule fetch)
    moreover have "batch_loop fetch hashes (acc @ map f ?batch) [Suc i..<n] =
        Done (Inr ((acc @ map f ?batch) @ map f (drop (Suc i * ?m) hashes)))"
    proof (rule Suc.hyps(1))
      show "k = n - Suc i" "Suc i \<le> n" using Suc.hyps(2) by simp_all
      show "Suc i * ?m \<le> length hashes \<or> Suc i = n"
        using n \<open>i < n\<close> by (auto simp: less_Suc_eq MAX_REQUESTED_TRANSACTIONS_def)
    qed
    moreover have "map f ?batch @ map f (drop (Suc i * ?m) hashes) = map f (drop (i * ?m) hashes)"
      unfolding batch by (metis add.commute append_take_drop_id drop_drop map_append mult_Suc)
    ultimately show ?thesis using range by (simp add: Let_def)
  qed
qed

text \<open>
  Fetching transactions in batches is correct: if the daemon answers each batch of (at most)
  100 consecutive hashes with one transaction per hash, in order, then
  \<open>transactions_by_hashes\<close> returns the transactions of all hashes, in order, each fetched
  exactly once, whatever the number of hashes (none, or a multiple of 100, included).
\<close>

lemma transactions_by_hashes_complete:
  assumes "\<And>i. i * 100 < length hashes \<Longrightarrow>
    transactions_batch D (take 100 (drop (i * 100) hashes)) =
      Done (Inr (map f (take 100 (drop (i * 100) hashes))))"
  shows "transactions_by_hashes D hashes = Done (Inr (map f hashes))"
  using batch_loop_from [where fetch = "transactions_batch D" and hashes = hashes and f = f
      and i = 0 and acc = "[]", OF _ refl] assms
  by (simp add: transactions_by_hashes_def MAX_REQUESTED_TRANSACTIONS_def)

text \<open>A daemon that knows one transaction.\<close>

definition example_daemon :: "(json_value, string, bytes, bytes) daemon_rpc" where
  "example_daemon = \<lparr>
    dr_client = (\<lambda>url body i. if i = 0 then Failed HyperTimeout
      else Replied (JObj [(''txs_as_hex'', JArr [JStr ''ab''])])),
    dr_url = ''http://127.0.0.1:18081'', dr_json = json_tree_api, dr_hex = Some,
    dr_hash_from_slice = (\<lambda>_. Done ''h''), dr_hash_hex = id, dr_block = Some,
    dr_block_hashes = (\<lambda>_. [''h'']), dr_tx = Some, dr_hash = (\<lambda>_. Some ''h''),
    dr_json_array = concat\<rparr>"

lemma transactions_by_hashes_complete_example:
  "transactions_by_hashes example_daemon [''h''] = Done (Inr [as_bytes ''ab''])"
proof -
  have "transactions_by_hashes example_daemon [''h''] = Done (Inr (map (\<lambda>_. as_bytes ''ab'') [''h'']))"
  proof (rule transactions_by_hashes_complete)
    fix i :: nat
    assume "i * 100 < length [''h'']"
    then have "i = 0" by simp
    then show "transactions_batch example_daemon (take 100 (drop (i * 100) [''h''])) =
        Done (Inr (map (\<lambda>_. as_bytes ''ab'') (take 100 (drop (i * 100) [''h'']))))"
      by (simp add: transactions_batch_def daemon_request_def request_with_def upt_rec
        example_daemon_def json_tree_api_def index1_def reply_tx_def)
  qed
  then show ?thesis by simp
qed

end
