(* ===== verification/Wallet.thy ===== *)
theory Wallet
  imports Wallet_Rpc Daemon_Rpc
begin

section \<open>The wallet: crates/monero_wallet/src/lib.rs\<close>

text \<open>
  \<open>Wallet\<close> puts the two clients together and wraps their errors. \<open>Wallet::new\<close> asks for the
  address until it gets one; that loop need not end, so it is a partial function.
\<close>

datatype wallet_error = WalletRPC wallet_rpc_error | DaemonRPC daemon_rpc_error

record ('v, 'h, 'b, 'tx) wallet =
  wt_wallet_rpc :: "'v wallet_rpc"
  wt_daemon_rpc :: "('v, 'h, 'b, 'tx) daemon_rpc"
  wt_addr :: address

text \<open>\<open>while addr == None\<close>: the \<open>n\<close>-th call of \<open>get_address\<close> and all later ones. The network
  changes between calls, so the client of each call is its own.\<close>

partial_function (option) wait_for_address ::
    "(nat \<Rightarrow> 'v wallet_rpc) \<Rightarrow> nat \<Rightarrow> address outcome option" where
  "wait_for_address W n = (case rpc_get_address (W n) of
      Panic \<Rightarrow> Some Panic
    | Done (Inr addr) \<Rightarrow> Some (Done addr)
    | Done (Inl _) \<Rightarrow> wait_for_address W (Suc n))"

definition wallet_new ::
    "(nat \<Rightarrow> 'v wallet_rpc) \<Rightarrow> 'v wallet_rpc \<Rightarrow> ('v, 'h, 'b, 'tx) daemon_rpc \<Rightarrow>
     ('v, 'h, 'b, 'tx) wallet outcome option" where
  "wallet_new calls W D = map_option (\<lambda>r. case r of
      Panic \<Rightarrow> Panic
    | Done addr \<Rightarrow> Done \<lparr>wt_wallet_rpc = W, wt_daemon_rpc = D, wt_addr = addr\<rparr>)
    (wait_for_address calls 0)"

definition wallet_transfer :: "('v, 'h, 'b, 'tx) wallet \<Rightarrow> u8 option \<Rightarrow> address \<Rightarrow> u64 \<Rightarrow> u64 \<Rightarrow>
    (wallet_rpc_error + transfer_out) outcome" where
  "wallet_transfer w prio dst amt addr_index = rpc_transfer (wt_wallet_rpc w) prio dst amt addr_index"

definition wallet_get_balance :: "('v, 'h, 'b, 'tx) wallet \<Rightarrow> u64 list \<Rightarrow> (wallet_error + wallet_balance) outcome" where
  "wallet_get_balance w idx = map_err WalletRPC (rpc_get_balance (wt_wallet_rpc w) idx True)"

definition wallet_get_all_balance :: "('v, 'h, 'b, 'tx) wallet \<Rightarrow> u64 list \<Rightarrow> (wallet_error + wallet_balance) outcome" where
  "wallet_get_all_balance w idx = map_err WalletRPC (rpc_get_balance (wt_wallet_rpc w) idx False)"

definition wallet_get_transfers :: "('v, 'h, 'b, 'tx) wallet \<Rightarrow> u64 list \<Rightarrow> bool \<Rightarrow> bool \<Rightarrow>
    (wallet_error + transfers list) outcome" where
  "wallet_get_transfers w idx ins outs = map_err WalletRPC (rpc_get_transfers (wt_wallet_rpc w) idx ins outs)"

definition wallet_get_height :: "('v, 'h, 'b, 'tx) wallet \<Rightarrow> (wallet_error + u64) outcome" where
  "wallet_get_height w = map_err DaemonRPC (daemon_height (wt_daemon_rpc w))"

definition wallet_get_fee :: "('v, 'h, 'b, 'tx) wallet \<Rightarrow> (wallet_error + u64) outcome" where
  "wallet_get_fee w = map_err DaemonRPC (daemon_get_fee (wt_daemon_rpc w))"

definition wallet_set_daemon :: "('v, 'h, 'b, 'tx) wallet \<Rightarrow> string \<Rightarrow> bool \<Rightarrow> (wallet_error + unit) outcome" where
  "wallet_set_daemon w url trusted = map_err WalletRPC (rpc_set_daemon (wt_wallet_rpc w) url trusted)"

definition wallet_set_refresh_time :: "('v, 'h, 'b, 'tx) wallet \<Rightarrow> u64 \<Rightarrow> (wallet_error + unit) outcome" where
  "wallet_set_refresh_time w t = map_err WalletRPC (rpc_set_refresh_time (wt_wallet_rpc w) t)"

definition wallet_create_address :: "('v, 'h, 'b, 'tx) wallet \<Rightarrow> string \<Rightarrow> (wallet_error + address \<times> u64) outcome" where
  "wallet_create_address w username = map_err WalletRPC (rpc_create_address (wt_wallet_rpc w) username)"

subsection \<open>Starting up\<close>

lemma wait_for_address_skip:
  assumes "\<And>i. i < k \<Longrightarrow> \<exists>e. rpc_get_address (W (n + i)) = Done (Inl e)"
  shows "wait_for_address W n = wait_for_address W (n + k)"
  using assms
proof (induction k arbitrary: n)
  case (Suc k)
  from Suc.prems [of 0] obtain e where "rpc_get_address (W n) = Done (Inl e)" by auto
  then have "wait_for_address W n = wait_for_address W (Suc n)"
    by (simp add: wait_for_address.simps [of W n])
  also have "\<dots> = wait_for_address W (Suc n + k)"
  proof (rule Suc.IH)
    show "\<exists>e. rpc_get_address (W (Suc n + i)) = Done (Inl e)" if "i < k" for i
      using Suc.prems [of "Suc i"] that by simp
  qed
  finally show ?case by simp
qed simp

text \<open>
  Start-up terminates as soon as the wallet RPC server answers: if the \<open>k\<close>-th request for the
  address is the first that does not fail, \<open>Wallet::new\<close> returns after it, with the address that
  request gave (or panics if reading that reply panics); the failures before it are retried.
\<close>

lemma wallet_new_returns:
  assumes "\<And>i. i < k \<Longrightarrow> \<exists>e. rpc_get_address (calls i) = Done (Inl e)"
    and "rpc_get_address (calls k) = Done (Inr addr)"
  shows "wallet_new calls W D = Some (Done \<lparr>wt_wallet_rpc = W, wt_daemon_rpc = D, wt_addr = addr\<rparr>)"
proof -
  have "wait_for_address calls 0 = wait_for_address calls k"
    using wait_for_address_skip [of k calls 0] assms(1) by simp
  also have "\<dots> = Some (Done addr)"
    using assms(2) by (simp add: wait_for_address.simps [of calls k])
  finally show ?thesis by (simp add: wallet_new_def)
qed

text \<open>A wallet server that is down for the first call and answers later ones, with one
  subaddress.\<close>

definition example_addr_api :: addr_api where
  "example_addr_api = \<lparr>ap_from_str = (\<lambda>s. if s = [] then None else Some s), ap_to_string = id\<rparr>"

definition example_subaddress :: json_value where
  "example_subaddress = JObj [(''address'', JStr ''4a''), (''address_index'', JNum 1),
    (''unlocked_balance'', JNum 90000000), (''balance'', JNum 95000000)]"

definition example_wallet_rpc :: "nat \<Rightarrow> json_value wallet_rpc" where
  "example_wallet_rpc n = wallet_rpc_new
    (\<lambda>url body i. if n = 0 then Failed HyperOther
      else Replied (JObj [(''result'', JObj [(''address'', JStr ''4a''), (''address_index'', JNum 1),
        (''per_subaddress'', JArr [example_subaddress]),
        (''unlocked_balance'', JNum 90000000), (''balance'', JNum 95000000)])]))
    (\<lambda>url body i. Replied (JObj [(''result'', JObj [(''amount'', JNum 41200000),
      (''fee'', JNum 7800000), (''tx_key'', JStr ''k'')])]))
    json_tree_api example_addr_api ''http://127.0.0.1:19000''"

lemma wallet_new_returns_example:
  "wallet_new example_wallet_rpc (example_wallet_rpc 1) example_daemon =
    Some (Done \<lparr>wt_wallet_rpc = example_wallet_rpc 1, wt_daemon_rpc = example_daemon, wt_addr = ''4a''\<rparr>)"
  by (rule wallet_new_returns [of 1])
    (simp_all add: example_wallet_rpc_def wallet_rpc_new_def rpc_get_address_def request_def
      request_with_def upt_rec json_tree_api_def example_addr_api_def)

end
