(* ===== verification/Financial.thy ===== *)
theory Financial
  imports Wallet
begin

section \<open>An account's money: \<open>FinancialInfo\<close> and \<open>CachedFee\<close> of src/money.rs\<close>

text \<open>
  The balance arithmetic is on u64 and the release profile turns overflow checks off, so
  every operation wraps around as it does on \<open>64 word\<close>. The lemmas say when the wrapped
  value is the intended one.
\<close>

record financial_info =
  fi_xmr_addr :: "address option"
  fi_deposit_addr :: address
  fi_transfers :: transfers
  fi_balance :: u64
  fi_pending_balance :: u64
  fi_service_fee_total :: u64
  fi_amount_spent :: u64

definition financial_info_new :: "u64 \<Rightarrow> address \<Rightarrow> financial_info" where
  "financial_info_new addr_index deposit_addr = \<lparr>fi_xmr_addr = None, fi_deposit_addr = deposit_addr,
     fi_transfers = \<lparr>ts_addr_index = addr_index, ts_in = [], ts_out = []\<rparr>,
     fi_balance = 0, fi_pending_balance = 0, fi_service_fee_total = 0, fi_amount_spent = 0\<rparr>"

definition transfer_out_fees :: "financial_info \<Rightarrow> u64" where
  "transfer_out_fees f = sum_list (map (\<lambda>t. (tr_amount t + tr_fee t) div 49) (ts_out (fi_transfers f)))"

definition fi_get_balance :: "financial_info \<Rightarrow> u64" where
  "fi_get_balance f =
     fi_balance f - max (fi_service_fee_total f) (transfer_out_fees f) - fi_amount_spent f"

text \<open>\<open>Ok\<close> (\<open>Inr\<close>) the new balance and the updated account, or \<open>Err\<close> (\<open>Inl\<close>) the old balance.\<close>

definition spend_money :: "u64 \<Rightarrow> financial_info \<Rightarrow> (u64 + u64) \<times> financial_info" where
  "spend_money amount_spent f = (let old_balance = fi_get_balance f in
     case checked_sub old_balance amount_spent of
       Some new_balance \<Rightarrow> (Inr new_balance, f\<lparr>fi_amount_spent := fi_amount_spent f + amount_spent\<rparr>)
     | None \<Rightarrow> (Inl old_balance, f))"

subsection \<open>When the balance is the intended number\<close>

text \<open>What the account owes the server: fees and purchases. It is solvent when the wallet's
  unlocked balance covers that.\<close>

definition dues :: "financial_info \<Rightarrow> nat" where
  "dues f = unat (max (fi_service_fee_total f) (transfer_out_fees f)) + unat (fi_amount_spent f)"

definition solvent :: "financial_info \<Rightarrow> bool" where
  "solvent f \<longleftrightarrow> dues f \<le> unat (fi_balance f)"

lemma balance_modulo:
  "int (unat (fi_get_balance f)) = (int (unat (fi_balance f)) - int (dues f)) mod 2 ^ 64 \<and>
   (int (unat (fi_get_balance f)) = int (unat (fi_balance f)) - int (dues f)) = solvent f"
proof -
  let ?d = "int (unat (fi_balance f)) - int (dues f)"
  have eq: "int (unat (fi_get_balance f)) = ?d mod 2 ^ 64"
    by (simp add: fi_get_balance_def dues_def uint_word_ariths mod_simps algebra_simps)
  have "?d < 2 ^ 64"
    using uint_bounded [of "fi_balance f"] by simp
  with eq have exact: "(int (unat (fi_get_balance f)) = ?d) = (0 \<le> ?d)"
    by (metis mod_pos_pos_trivial of_nat_0_le_iff)
  have "(0 \<le> ?d) = solvent f" unfolding solvent_def by linarith
  with eq exact show ?thesis by blast
qed

lemma solvent_balance: "solvent f \<Longrightarrow> unat (fi_get_balance f) = unat (fi_balance f) - dues f"
  using balance_modulo [of f] unfolding solvent_def by linarith

text \<open>An insolvent account reports an enormous balance instead of a debt.\<close>

lemma insolvent_balance:
  assumes "\<not> solvent f" "dues f \<le> 2 ^ 64 + unat (fi_balance f)"
  shows "unat (fi_get_balance f) = 2 ^ 64 + unat (fi_balance f) - dues f"
proof -
  let ?d = "int (unat (fi_balance f)) - int (dues f)"
  have "int (dues f) \<le> int (2 ^ 64 + unat (fi_balance f))"
    using assms(2) by (simp only: of_nat_le_iff)
  then have ge: "int (dues f) \<le> 2 ^ 64 + int (unat (fi_balance f))"
    by (simp only: of_nat_add of_nat_power of_nat_numeral)
  have "?d < 0" using assms(1) unfolding solvent_def by linarith
  with ge have "(?d + 2 ^ 64) mod 2 ^ 64 = ?d + 2 ^ 64"
    by (intro mod_pos_pos_trivial) linarith+
  then have "?d mod 2 ^ 64 = ?d + 2 ^ 64" by (simp only: mod_add_self2)
  then have "int (unat (fi_get_balance f)) = 2 ^ 64 + int (unat (fi_balance f)) - int (dues f)"
    using balance_modulo [of f] by linarith
  also have "\<dots> = int (2 ^ 64 + unat (fi_balance f) - dues f)"
    using ge assms(2) by (simp only: of_nat_diff of_nat_add of_nat_power of_nat_numeral)
  finally show ?thesis by (simp only: of_nat_eq_iff)
qed

text \<open>
  The reported balance is the wallet's unlocked balance minus fees and purchases modulo
  \<open>2 ^ 64\<close>, and it is the exact difference precisely for the accounts whose dues are covered
  by the wallet balance; for every other account the subtraction wraps around.
\<close>

lemma get_balance_value:
  "int (unat (fi_get_balance f)) = (int (unat (fi_balance f)) - int (dues f)) mod 2 ^ 64 \<and>
   (int (unat (fi_get_balance f)) = int (unat (fi_balance f)) - int (dues f)) = solvent f"
  by (rule balance_modulo)

subsection \<open>Spending\<close>

lemma spend_money_cases:
  "(if amt \<le> fi_get_balance f
    then spend_money amt f =
        (Inr (fi_get_balance f - amt), f\<lparr>fi_amount_spent := fi_amount_spent f + amt\<rparr>) \<and>
      fi_get_balance (snd (spend_money amt f)) = fi_get_balance f - amt
    else spend_money amt f = (Inl (fi_get_balance f), f))"
  by (auto simp: spend_money_def checked_sub_def fi_get_balance_def transfer_out_fees_def Let_def)

text \<open>
  \<open>spend_money\<close> in full: it succeeds exactly when the amount is at most the balance; then it
  returns the balance minus the amount, that value is the account's balance from then on, and
  only the amount spent has changed; otherwise it returns the balance and changes nothing.
\<close>

lemma spend_money_result:
  "(if amt \<le> fi_get_balance f
    then spend_money amt f =
        (Inr (fi_get_balance f - amt), f\<lparr>fi_amount_spent := fi_amount_spent f + amt\<rparr>) \<and>
      fi_get_balance (snd (spend_money amt f)) = fi_get_balance f - amt
    else spend_money amt f = (Inl (fi_get_balance f), f))"
  by (rule spend_money_cases)

lemma spend_money_solvent:
  assumes "solvent f" "amt \<le> fi_get_balance f"
  shows "solvent (f\<lparr>fi_amount_spent := fi_amount_spent f + amt\<rparr>)"
proof -
  have "unat amt \<le> unat (fi_balance f) - dues f"
    using assms by (simp add: solvent_balance word_le_nat_alt)
  with assms(1) have le: "dues f + unat amt \<le> unat (fi_balance f)" by (simp add: solvent_def)
  then have "unat (fi_amount_spent f) + unat amt < 2 ^ 64"
    using unsigned_less [of "fi_balance f", where ?'a = nat] by (simp add: dues_def)
  then have "unat (fi_amount_spent f + amt) = unat (fi_amount_spent f) + unat amt"
    by (simp add: unat_add_exact)
  with le show ?thesis by (simp add: solvent_def dues_def transfer_out_fees_def)
qed

text \<open>A sequence of purchases: what each one of them answers, and the account at the end.\<close>

fun spend_all :: "u64 list \<Rightarrow> financial_info \<Rightarrow> (u64 + u64) list \<times> financial_info" where
  "spend_all [] f = ([], f)"
| "spend_all (a # as) f = (case spend_money a f of (r, f') \<Rightarrow>
     (case spend_all as f' of (rs, f'') \<Rightarrow> (r # rs, f'')))"

fun accepted :: "u64 list \<Rightarrow> (u64 + u64) list \<Rightarrow> nat" where
  "accepted (a # as) (Inr _ # rs) = unat a + accepted as rs"
| "accepted (a # as) (Inl _ # rs) = accepted as rs"
| "accepted _ _ = 0"

text \<open>
  C28: No overspending: starting from a solvent account, after any sequence of purchases the
  amounts of the accepted ones add up exactly to what the balance went down by, so together
  they never exceed the balance there was, and the account is still solvent.
\<close>

theorem spend_all_conserves:
  assumes "solvent f" and "spend_all as f = (rs, f')"
  shows "accepted as rs + unat (fi_get_balance f') = unat (fi_get_balance f) \<and> solvent f'"
  using assms
proof (induction "as" arbitrary: f rs)
  case (Cons a "as")
  from Cons.prems(2) obtain r g rs' where split: "spend_money a f = (r, g)"
    "spend_all as g = (rs', f')" "rs = r # rs'" by (auto split: prod.splits)
  show ?case
  proof (cases "a \<le> fi_get_balance f")
    case True
    with spend_money_cases [of a f] split(1)
    have g: "r = Inr (fi_get_balance f - a)" "fi_get_balance g = fi_get_balance f - a"
      "g = f\<lparr>fi_amount_spent := fi_amount_spent f + a\<rparr>" by auto
    with True Cons.prems(1) have "solvent g" by (simp add: spend_money_solvent)
    from Cons.IH [OF this split(2)] g(1,2) split(3) True show ?thesis
      by (auto simp: unat_sub word_le_nat_alt)
  next
    case False
    with spend_money_cases [of a f] split Cons.IH [OF Cons.prems(1)] show ?thesis by auto
  qed
qed simp

definition example_account :: "u64 \<Rightarrow> u64 \<Rightarrow> financial_info" where
  "example_account bal spent = (financial_info_new 1 ''4a'')\<lparr>fi_balance := bal, fi_amount_spent := spent\<rparr>"

lemmas example_account_defs = example_account_def financial_info_new_def fi_get_balance_def
  transfer_out_fees_def dues_def solvent_def

theorem spend_all_conserves_witness:
  "spend_all [30, 80, 20] (example_account 100 10) =
      ([Inr 60, Inl 60, Inr 40], example_account 100 60) \<and>
   accepted [30, 80, 20] [Inr 60, Inl 60, Inr 40] + unat (fi_get_balance (example_account 100 60)) =
      unat (fi_get_balance (example_account 100 10)) \<and> solvent (example_account 100 60)"
proof -
  have run: "spend_all [30, 80, 20] (example_account 100 10) =
      ([Inr 60, Inl 60, Inr 40], example_account 100 60)"
    by (simp add: spend_money_def checked_sub_def Let_def example_account_defs)
  moreover have "solvent (example_account 100 10)" by (simp add: example_account_defs)
  ultimately show ?thesis using spend_all_conserves [OF _ run] by blast
qed

text \<open>
  An account that paid the listing fee of 4271880000 and then withdrew its deposit is
  credited with almost \<open>2 ^ 64\<close> piconero: the balance wraps around, and any purchase up to that
  amount is accepted.
\<close>

lemma overdrawn_account_can_spend:
  "fi_get_balance (example_account 0 4271880000) = 18446744069437671616 \<and>
   fst (spend_money 1000000000000 (example_account 0 4271880000)) = Inr 18446743069437671616"
  by (simp add: spend_money_def checked_sub_def Let_def example_account_defs)

subsection \<open>The cached network fee\<close>

record cached_fee =
  cf_fee :: u64
  cf_block_updated :: u64

definition cached_fee_new :: cached_fee where
  "cached_fee_new = \<lparr>cf_fee = 0, cf_block_updated = 0\<rparr>"

text \<open>A fee of 0 means not initialised: ask the wallet, with 4157 per byte as the fall-back, and
  multiply by the 2000 bytes of an average transaction. Otherwise the cached number as it is.\<close>

definition get_fee :: "cached_fee \<Rightarrow> ('v, 'h, 'b, 'tx) wallet \<Rightarrow> u64 outcome" where
  "get_fee c w = (if cf_fee c = 0
     then (case wallet_get_fee w of
         Panic \<Rightarrow> Panic
       | Done r \<Rightarrow> Done ((case r of Inr fee \<Rightarrow> fee | Inl _ \<Rightarrow> 4157) * 2000))
     else Done (cf_fee c))"

definition get_uptodate_fee :: "('v, 'h, 'b, 'tx) wallet \<Rightarrow> u64 option outcome" where
  "get_uptodate_fee w = (case wallet_get_fee w of
      Panic \<Rightarrow> Panic
    | Done (Inr fee_per_byte) \<Rightarrow> Done (Some (fee_per_byte * 2000))
    | Done (Inl _) \<Rightarrow> Done None)"

text \<open>One round of \<open>update_cached_fee\<close>.\<close>

definition update_cached_fee :: "('v, 'h, 'b, 'tx) wallet \<Rightarrow> cached_fee \<Rightarrow> cached_fee outcome" where
  "update_cached_fee w c = (case wallet_get_fee w of
      Panic \<Rightarrow> Panic
    | Done (Inr fee) \<Rightarrow> Done (c\<lparr>cf_fee := fee\<rparr>)
    | Done (Inl _) \<Rightarrow> Done c)"

text \<open>
  The cache changes the unit of the fee. With the wallet reporting a non-zero fee per byte,
  \<open>get_fee\<close> answers 2000 times that fee before the first round of \<open>update_cached_fee\<close> and only
  the fee per byte itself after it, while \<open>get_uptodate_fee\<close> always answers the fee of a
  2000-byte transaction.
\<close>

lemma cached_fee_changes_unit:
  assumes "wallet_get_fee w = Done (Inr fee)" and "fee \<noteq> 0"
  shows "get_fee cached_fee_new w = Done (fee * 2000) \<and>
    get_uptodate_fee w = Done (Some (fee * 2000)) \<and>
    (\<exists>c. update_cached_fee w cached_fee_new = Done c \<and> get_fee c w = Done fee)"
  using assms by (simp add: get_fee_def get_uptodate_fee_def update_cached_fee_def cached_fee_new_def)

text \<open>A wallet whose daemon reports 4000 piconero per byte.\<close>

definition example_wallet :: "(json_value, string, bytes, bytes) wallet" where
  "example_wallet = \<lparr>wt_wallet_rpc = example_wallet_rpc 1,
     wt_daemon_rpc = example_daemon\<lparr>dr_client := (\<lambda>url body i.
       Replied (JObj [(''result'', JObj [(''fee'', JNum 4000)])]))\<rparr>, wt_addr = ''4a''\<rparr>"

lemma example_wallet_fee: "wallet_get_fee example_wallet = Done (Inr 4000)"
  by (simp add: wallet_get_fee_def example_wallet_def example_daemon_def daemon_get_fee_def
    daemon_request_def request_with_def upt_rec index2_def json_tree_api_def)

lemma cached_fee_changes_unit_example:
  "get_fee cached_fee_new example_wallet = Done 8000000 \<and>
    (\<exists>c. update_cached_fee example_wallet cached_fee_new = Done c \<and> get_fee c example_wallet = Done 4000)"
  using cached_fee_changes_unit [OF example_wallet_fee] by simp

end
