(* ===== verification/Logging.thy ===== *)
theory Logging
  imports Db
begin

section \<open>The event log: src/logging.rs\<close>

text \<open>
  \<open>Log::new\<close> and \<open>Log::send\<close>, which every handler calls, and \<open>logging_service\<close>, the pair of
  tasks that collects the records in a buffer and writes the buffer to the log file. The
  clock and the log channel are part of the handlers' state. \<open>simd_json::to_string\<close> at type
  \<open>Log\<close> is a parameter (\<open>render\<close>).
\<close>

type_synonym ip_addr = string

datatype event =
    Registration bool
  | Login bool
  | Withdrawal u64 address
  | GetBalance
  | BalanceChange u64 u64
  | ServerError
  | UserError
  | DepositReq
  | AttachAddr
  | AuthFailureNonLogin

datatype log_type = LogAuth | LogMoney

datatype priority = Low | Medium | High

record log =
  lg_log_type :: log_type
  lg_username :: "string option"
  lg_time :: u64
  lg_ip :: ip_addr
  lg_event :: event
  lg_reason :: string
  lg_priority :: priority

text \<open>The Unix time of the clock (an i64), the sending end of the log channel, and whether
  its receiver is still there.\<close>

record log_env = sled_env +
  clock :: int
  log_queue :: "log list"
  log_open :: bool

text \<open>\<open>OffsetDateTime::now_utc().unix_timestamp().try_into().unwrap()\<close> at type u64.\<close>

definition now_u64 :: "('z log_env_scheme, u64) eff" where
  "now_u64 = (\<lambda>s. if clock s < 0 then (Panic, s) else (Done (of_int (clock s)), s))"

definition log_new :: "string option \<Rightarrow> ip_addr \<Rightarrow> event \<Rightarrow> log_type \<Rightarrow> string \<Rightarrow> priority \<Rightarrow>
    ('z log_env_scheme, log) eff" where
  "log_new username ip event ty reason priority = and_then now_u64 (\<lambda>time.
     ret \<lparr>lg_log_type = ty, lg_username = username, lg_time = time, lg_ip = ip,
       lg_event = event, lg_reason = reason, lg_priority = priority\<rparr>)"

text \<open>Sending fails, giving the record back, when the receiver is gone.\<close>

definition log_send :: "log \<Rightarrow> ('z log_env_scheme, log + unit) eff" where
  "log_send l = (\<lambda>s. if log_open s then (Done (Inr ()), s\<lparr>log_queue := log_queue s @ [l]\<rparr>)
     else (Done (Inl l), s))"

text \<open>The shape of every logging statement of the handlers:
  \<open>Log::new(user, socket_addr.unwrap().ip(), ..).send(&logger).await.unwrap()\<close>.\<close>

definition log_from :: "ip_addr option \<Rightarrow> string option \<Rightarrow> event \<Rightarrow> log_type \<Rightarrow> string \<Rightarrow> priority \<Rightarrow>
    ('z log_env_scheme, unit) eff" where
  "log_from socket_addr username event ty reason priority =
     and_then (unwrap_opt socket_addr) (\<lambda>ip.
     and_then (log_new username ip event ty reason priority) (\<lambda>l.
     unwrapped (log_send l)))"

lemma wp_now_u64 [wp_rules]:
  "wp now_u64 Q E s = (if clock s < 0 then E s else Q (of_int (clock s)) s)"
  by (simp add: wp_def now_u64_def)

lemma now_u64_run [run_rules]: "0 \<le> clock s \<Longrightarrow> now_u64 s = (Done (of_int (clock s)), s)"
  by (simp add: now_u64_def)

lemma wp_log_send [wp_rules]:
  "wp (log_send l) Q E s =
    (if log_open s then Q (Inr ()) (s\<lparr>log_queue := log_queue s @ [l]\<rparr>) else Q (Inl l) s)"
  by (simp add: wp_def log_send_def)

text \<open>A logging statement adds records to the queue and touches nothing else.\<close>

lemma wp_log_from:
  assumes "\<And>l. Q () (s\<lparr>log_queue := log_queue s @ [l]\<rparr>)" "E s"
  shows "wp (log_from a u e t r p) Q E s"
  using assms by (simp add: log_from_def log_new_def wp_rules split: option.split)

definition log_record :: "ip_addr \<Rightarrow> string option \<Rightarrow> event \<Rightarrow> log_type \<Rightarrow> string \<Rightarrow> priority \<Rightarrow> int \<Rightarrow> log"
  where "log_record ip u e t r p c = \<lparr>lg_log_type = t, lg_username = u, lg_time = of_int c,
    lg_ip = ip, lg_event = e, lg_reason = r, lg_priority = p\<rparr>"

lemma wp_log_from_eq:
  "wp (log_from a u e t r p) Q E s =
    (case a of None \<Rightarrow> E s | Some ip \<Rightarrow>
      if 0 \<le> clock s \<and> log_open s
      then Q () (s\<lparr>log_queue := log_queue s @ [log_record ip u e t r p (clock s)]\<rparr>)
      else E s)"
  by (auto simp: log_from_def log_new_def wp_rules log_record_def split: option.split)

lemma log_from_run [run_rules]:
  "0 \<le> clock s \<Longrightarrow> log_open s \<Longrightarrow> log_from (Some ip) u e t r p s =
    (Done (), s\<lparr>log_queue := log_queue s @ [log_record ip u e t r p (clock s)]\<rparr>)"
  by (simp add: log_from_def log_new_def log_record_def log_send_def run_rules)

subsection \<open>The logging service\<close>

text \<open>
  The receiving task pushes each record's JSON and a newline onto the buffer, and after a
  push that leaves more than 65,000 bytes it sends a token through a channel of capacity
  one, waiting while the channel is full. The writing task waits for a token or for 90
  seconds, takes the lock, writes the buffer to the file and clears it. The lock is held
  over a push and over a write, so these are single steps; their interleaving is free.

  Both tasks unwrap. \<open>write_all\<close> may fail after it has written a part of the buffer; then the
  writing task panics, and with it the receiving end of the tokens is gone. From then on a
  token cannot be sent: the next push beyond the limit (or the one that is waiting) panics in the
  receiving task, and with it the receiver of the log records is gone, so that sending a record
  fails. In the release profile the first of these panics ends the process (\<open>panic = "abort"\<close>);
  then the steps after it do not happen.
\<close>

definition BUFFER_LIMIT :: nat where
  "BUFFER_LIMIT = 65000"

record log_service =
  ls_inbox :: "log list"      \<comment> \<open>records in the log channel\<close>
  ls_buffer :: string         \<comment> \<open>\<open>logs_to_write\<close>\<close>
  ls_file :: string           \<comment> \<open>what has been appended to coinstribute.log\<close>
  ls_sending :: bool          \<comment> \<open>the receiver waits in \<open>force_write_sender.send(())\<close>\<close>
  ls_token :: bool            \<comment> \<open>a token is in the channel\<close>
  ls_writing :: bool          \<comment> \<open>the writer has left its \<open>select!\<close> and wants the lock\<close>
  ls_writer :: bool           \<comment> \<open>the writing task has not panicked\<close>
  ls_receiver :: bool         \<comment> \<open>the receiving task has not panicked\<close>

definition log_line :: "(log \<Rightarrow> string) \<Rightarrow> log \<Rightarrow> string" where
  "log_line render l = render l @ [CHR 0x0A]"

definition log_service_start :: "log_service" where
  "log_service_start = \<lparr>ls_inbox = [], ls_buffer = [], ls_file = [], ls_sending = False,
    ls_token = False, ls_writing = False, ls_writer = True, ls_receiver = True\<rparr>"

definition receive_log :: "(log \<Rightarrow> string) \<Rightarrow> log \<Rightarrow> log list \<Rightarrow> log_service \<Rightarrow> log_service" where
  "receive_log render l rest s = (let buf = ls_buffer s @ log_line render l in
     s\<lparr>ls_inbox := rest, ls_buffer := buf, ls_sending := BUFFER_LIMIT < length buf\<rparr>)"

text \<open>\<open>file.write_all(..).await.unwrap(); logs_to_write.clear()\<close>: the write succeeds, or it fails after \<open>n\<close> bytes. The
  buffer is cleared only by the former.\<close>

definition write_logs :: "log_service \<Rightarrow> log_service" where
  "write_logs s = s\<lparr>ls_file := ls_file s @ ls_buffer s, ls_buffer := [], ls_writing := False\<rparr>"

definition write_fails :: "nat \<Rightarrow> log_service \<Rightarrow> log_service" where
  "write_fails n s = s\<lparr>ls_file := ls_file s @ take n (ls_buffer s), ls_writing := False, ls_token := False,
     ls_writer := False\<rparr>"

inductive log_step :: "(log \<Rightarrow> string) \<Rightarrow> log_service \<Rightarrow> log_service \<Rightarrow> bool" for render where
  receive: "ls_receiver s \<Longrightarrow> \<not> ls_sending s \<Longrightarrow> ls_inbox s = l # rest \<Longrightarrow>
    log_step render s (receive_log render l rest s)"
| put_token: "ls_receiver s \<Longrightarrow> ls_sending s \<Longrightarrow> ls_writer s \<Longrightarrow> \<not> ls_token s \<Longrightarrow>
    log_step render s (s\<lparr>ls_sending := False, ls_token := True\<rparr>)"
| send_panics: "ls_receiver s \<Longrightarrow> ls_sending s \<Longrightarrow> \<not> ls_writer s \<Longrightarrow>
    log_step render s (s\<lparr>ls_sending := False, ls_receiver := False\<rparr>)"
| take_token: "ls_writer s \<Longrightarrow> \<not> ls_writing s \<Longrightarrow> ls_token s \<Longrightarrow>
    log_step render s (s\<lparr>ls_token := False, ls_writing := True\<rparr>)"
| timer: "ls_writer s \<Longrightarrow> \<not> ls_writing s \<Longrightarrow> log_step render s (s\<lparr>ls_writing := True\<rparr>)"
| write_out: "ls_writer s \<Longrightarrow> ls_writing s \<Longrightarrow> log_step render s (write_logs s)"
| write_panics: "ls_writer s \<Longrightarrow> ls_writing s \<Longrightarrow> n \<le> length (ls_buffer s) \<Longrightarrow> log_step render s (write_fails n s)"

text \<open>\<open>log_run render ls s\<close>: the service can be in state \<open>s\<close> after the records \<open>ls\<close> were sent. Sending succeeds as long as the
  receiving task is there.\<close>

inductive log_run :: "(log \<Rightarrow> string) \<Rightarrow> log list \<Rightarrow> log_service \<Rightarrow> bool" for render where
  start: "log_run render [] log_service_start"
| arrive: "log_run render ls s \<Longrightarrow> ls_receiver s \<Longrightarrow> log_run render (ls @ [l]) (s\<lparr>ls_inbox := ls_inbox s @ [l]\<rparr>)"
| service: "log_run render ls s \<Longrightarrow> log_step render s s' \<Longrightarrow> log_run render ls s'"

inductive_cases log_stepE: "log_step render s s'"

lemmas log_service_defs = log_service_start_def receive_log_def write_logs_def write_fails_def Let_def

definition log_contents :: "(log \<Rightarrow> string) \<Rightarrow> log_service \<Rightarrow> string" where
  "log_contents render s = ls_file s @ ls_buffer s @ concat (map (log_line render) (ls_inbox s))"

text \<open>Where the lines \<open>all\<close> of the records are.\<close>

definition log_ok :: "(log \<Rightarrow> string) \<Rightarrow> string \<Rightarrow> log_service \<Rightarrow> bool" where
  "log_ok render all s \<longleftrightarrow> (ls_writer s \<longrightarrow> log_contents render s = all) \<and> (\<exists>rest. all = ls_file s @ rest) \<and>
    (\<not> ls_receiver s \<longrightarrow> \<not> ls_writer s)"

lemma log_ok_alive: "ls_writer s \<Longrightarrow> log_ok render all s \<longleftrightarrow> ls_receiver s \<and> log_contents render s = all"
  by (auto simp: log_ok_def log_contents_def)

lemma log_step_ok:
  assumes "log_step render s s'" "log_ok render all s"
  shows "log_ok render all s'"
  using assms(1)
proof cases
  case (write_panics n)
  from assms(2) write_panics(2) have "all = ls_file s @ ls_buffer s @ concat (map (log_line render) (ls_inbox s))"
    by (simp add: log_ok_def log_contents_def)
  then have "all = (ls_file s @ take n (ls_buffer s)) @ drop n (ls_buffer s) @ concat (map (log_line render) (ls_inbox s))"
    by simp
  then show ?thesis unfolding write_panics(1) log_ok_def write_fails_def by auto
qed (use assms(2) in \<open>auto simp: log_ok_def log_contents_def log_service_defs\<close>)

text \<open>
  C33: The logging service loses, reorders and duplicates nothing while its writing task lives, and what is in the file is
  always right: in every reachable state, whatever writes failed and wherever they stopped, the file holds a beginning of the
  lines of all records sent so far, in the order they were sent; and as long as no write has failed, the file, then the
  buffer, then the records still in the channel are exactly those lines, and the service takes records.
\<close>

theorem log_service_conserves:
  assumes "log_run render ls s"
  shows "(\<exists>rest. concat (map (log_line render) ls) = ls_file s @ rest) \<and>
    (ls_writer s \<longrightarrow> ls_receiver s \<and>
      ls_file s @ ls_buffer s @ concat (map (log_line render) (ls_inbox s)) = concat (map (log_line render) ls))"
proof -
  from assms have "log_ok render (concat (map (log_line render) ls)) s"
  proof (induction rule: log_run.induct)
    case (arrive ls s l)
    then show ?case by (auto simp: log_ok_def log_contents_def)
  next
    case (service ls s s')
    then show ?case by (blast intro: log_step_ok)
  qed (simp add: log_ok_def log_contents_def log_service_start_def)
  then show ?thesis by (auto simp: log_ok_def log_contents_def)
qed

definition example_log :: log where
  "example_log = log_record ''127.0.0.1'' None GetBalance LogMoney [] Low 0"

text \<open>One record, of which the first of two bytes is written.\<close>

definition half_written :: "log \<Rightarrow> log_service" where
  "half_written l = write_fails 1 ((receive_log (\<lambda>_. ''x'') l [] (log_service_start\<lparr>ls_inbox := [l]\<rparr>))\<lparr>ls_writing := True\<rparr>)"

lemma log_run_example:
  "log_run (\<lambda>_. ''x'') [l] (receive_log (\<lambda>_. ''x'') l [] (log_service_start\<lparr>ls_inbox := [l]\<rparr>))"
  "log_run (\<lambda>_. ''x'') [l] (half_written l)"
proof -
  have "log_run (\<lambda>_. ''x'') [l] (log_service_start\<lparr>ls_inbox := [l]\<rparr>)"
    using log_run.arrive [OF log_run.start, of "\<lambda>_. ''x''" l] by (simp add: log_service_start_def)
  then show *: "log_run (\<lambda>_. ''x'') [l] (receive_log (\<lambda>_. ''x'') l [] (log_service_start\<lparr>ls_inbox := [l]\<rparr>))"
    by (rule log_run.service) (rule log_step.receive, simp_all add: log_service_start_def)
  show "log_run (\<lambda>_. ''x'') [l] (half_written l)" unfolding half_written_def
    by (rule log_run.service [OF log_run.service [OF * log_step.timer] log_step.write_panics])
      (simp_all add: log_service_defs log_line_def)
qed

theorem log_service_conserves_witness:
  "ls_file (half_written example_log) = ''x'' \<and>
    ls_buffer (receive_log (\<lambda>_. ''x'') example_log [] (log_service_start\<lparr>ls_inbox := [example_log]\<rparr>)) = [CHR ''x'', CHR 0x0A]"
proof
  let ?s = "half_written example_log"
  from log_service_conserves [OF log_run_example(2) [of example_log]]
  obtain rest where "[CHR ''x'', CHR 0x0A] = ls_file ?s @ rest" by (auto simp: log_line_def)
  moreover have "length (ls_file ?s) = 1" by (simp add: half_written_def log_service_defs log_line_def)
  ultimately show "ls_file ?s = ''x''" by (cases "ls_file ?s") auto
  show "ls_buffer (receive_log (\<lambda>_. ''x'') example_log [] (log_service_start\<lparr>ls_inbox := [example_log]\<rparr>)) = [CHR ''x'', CHR 0x0A]"
    using log_service_conserves [OF log_run_example(1) [of example_log]] by (simp add: log_service_defs log_line_def)
qed

text \<open>Each token in flight accounts for one push beyond the limit.\<close>

definition pending_tokens :: "log_service \<Rightarrow> nat" where
  "pending_tokens s = of_bool (ls_sending s) + of_bool (ls_token s) + of_bool (ls_writing s)"

definition log_room :: "nat \<Rightarrow> log_service \<Rightarrow> bool" where
  "log_room M s \<longleftrightarrow> (ls_writer s \<longrightarrow> length (ls_buffer s) \<le> BUFFER_LIMIT + M * pending_tokens s) \<and>
    (\<not> ls_writer s \<longrightarrow> length (ls_buffer s) \<le> BUFFER_LIMIT + M * (2 + of_bool (ls_sending s \<or> \<not> ls_receiver s)))"

lemma log_step_room:
  assumes "log_step render s s'" "log_room M s" "\<And>l. length (log_line render l) \<le> M"
  shows "log_room M s'"
  using assms(1)
proof cases
  case (receive l rest)
  with assms(2) assms(3) [of l] show ?thesis
    by (auto simp: log_room_def receive_log_def Let_def pending_tokens_def add_mult_distrib2 split: if_splits)
next
  case (write_panics n)
  with assms(2) show ?thesis
    by (cases "ls_token s"; cases "ls_sending s") (auto simp: log_room_def write_fails_def pending_tokens_def algebra_simps)
qed (use assms(2) in \<open>auto simp: log_room_def write_logs_def pending_tokens_def algebra_simps split: if_splits\<close>)

text \<open>
  The log buffer is bounded: if no record renders to a line longer than \<open>M\<close> bytes, the
  buffer never exceeds the limit of 65,000 bytes by more than three lines (one push whose
  token waits to be sent, one whose token is in the channel, one whose token the writer took).
\<close>

lemma log_buffer_bounded:
  assumes "log_run render ls s" and "\<And>l. length (log_line render l) \<le> M"
  shows "length (ls_buffer s) \<le> BUFFER_LIMIT + 3 * M"
proof -
  have "log_room M s" using assms(1)
  proof (induction rule: log_run.induct)
    case (service ls s s')
    then show ?case using log_step_room assms(2) by blast
  qed (simp_all add: log_room_def log_service_start_def pending_tokens_def)
  moreover have "M * pending_tokens s \<le> M * 3" "M * (2 + of_bool (ls_sending s \<or> \<not> ls_receiver s)) \<le> M * 3"
    by (rule mult_le_mono2, simp add: pending_tokens_def)+
  ultimately show ?thesis unfolding log_room_def by (cases "ls_writer s") linarith+
qed

lemma log_buffer_bounded_example:
  "length (ls_buffer (receive_log (\<lambda>_. ''x'') example_log []
    (log_service_start\<lparr>ls_inbox := [example_log]\<rparr>))) \<le> BUFFER_LIMIT + 3 * 2"
  by (rule log_buffer_bounded [OF log_run_example(1)]) (simp add: log_line_def)

text \<open>The tasks that live can always empty the buffer, and from there take the next record.\<close>

definition log_lives :: "log_service \<Rightarrow> bool" where
  "log_lives s \<longleftrightarrow> ls_writer s \<and> ls_receiver s"

lemma log_flush_reachable:
  assumes "log_lives s"
  shows "\<exists>s'. (log_step render)\<^sup>*\<^sup>* s s' \<and> ls_inbox s' = ls_inbox s \<and> ls_buffer s' = [] \<and> \<not> ls_sending s' \<and>
    log_lives s' \<and> log_contents render s' = log_contents render s"
proof -
  have flush: "\<exists>s'. (log_step render)\<^sup>*\<^sup>* s s' \<and> ls_inbox s' = ls_inbox s \<and> ls_buffer s' = [] \<and> log_lives s' \<and>
      log_contents render s' = log_contents render s \<and> \<not> ls_token s' \<and> ls_sending s' = ls_sending s"
    if "log_lives s" for s
  proof -
    have live: "ls_writer s" "ls_receiver s" using that by (simp_all add: log_lives_def)
    let ?a = "if ls_writing s then write_logs s else s"
    let ?b = "?a\<lparr>ls_token := False, ls_writing := True\<rparr>"
    have 1: "(log_step render)\<^sup>*\<^sup>* s ?a" using live by (auto intro: log_step.write_out)
    have a: "ls_writer ?a" "\<not> ls_writing ?a" "ls_receiver ?a" using live by (auto simp: write_logs_def)
    have "?b = ?a\<lparr>ls_writing := True\<rparr>" if "\<not> ls_token ?a" using that by simp
    with a have 2: "log_step render ?a ?b" by (cases "ls_token ?a") (metis log_step.take_token log_step.timer)+
    have 3: "log_step render ?b (write_logs ?b)" using a by (intro log_step.write_out) simp_all
    have "(log_step render)\<^sup>*\<^sup>* s (write_logs ?b)"
      by (rule rtranclp.rtrancl_into_rtrancl [OF rtranclp.rtrancl_into_rtrancl [OF 1 2] 3])
    with a live show ?thesis
      by (intro exI [of _ "write_logs ?b"]) (auto simp: write_logs_def log_lives_def log_contents_def)
  qed
  obtain s1 where s1: "(log_step render)\<^sup>*\<^sup>* s s1" "ls_inbox s1 = ls_inbox s" "ls_buffer s1 = []" "log_lives s1"
      "log_contents render s1 = log_contents render s" "\<not> ls_token s1" "ls_sending s1 = ls_sending s"
    using flush [OF assms] by auto
  show ?thesis
  proof (cases "ls_sending s1")
    case True
    with s1 have "log_step render s1 (s1\<lparr>ls_sending := False, ls_token := True\<rparr>)"
      by (auto intro: log_step.put_token simp: log_lives_def)
    with s1 show ?thesis
      by (intro exI [of _ "s1\<lparr>ls_sending := False, ls_token := True\<rparr>"])
        (auto simp: log_lives_def log_contents_def intro: rtranclp.rtrancl_into_rtrancl)
  next
    case False
    with s1 show ?thesis by (intro exI [of _ s1]) auto
  qed
qed

text \<open>
  The logging service never gets stuck by itself: from every state in which both tasks live, steps without a failing write
  can bring every record in the channel and every byte of the buffer into the file.
\<close>

lemma log_service_drains:
  assumes "log_lives s"
  shows "\<exists>s'. (log_step render)\<^sup>*\<^sup>* s s' \<and> log_lives s' \<and> ls_inbox s' = [] \<and> ls_buffer s' = [] \<and>
    ls_file s' = ls_file s @ ls_buffer s @ concat (map (log_line render) (ls_inbox s))"
proof -
  have "\<exists>s'. (log_step render)\<^sup>*\<^sup>* s s' \<and> log_lives s' \<and> ls_inbox s' = [] \<and> ls_buffer s' = [] \<and>
      log_contents render s' = log_contents render s"
    using assms
  proof (induction "length (ls_inbox s)" arbitrary: s)
    case 0
    with log_flush_reachable [of s render] show ?case by force
  next
    case (Suc n)
    then obtain l rest where inbox: "ls_inbox s = l # rest" by (cases "ls_inbox s") auto
    with log_flush_reachable [OF Suc.prems, of render] obtain t where
      t: "(log_step render)\<^sup>*\<^sup>* s t" "ls_inbox t = l # rest" "\<not> ls_sending t" "log_lives t"
        "log_contents render t = log_contents render s" by auto
    let ?u = "receive_log render l rest t"
    have "log_step render t ?u" using t(2-4) by (auto intro: log_step.receive simp: log_lives_def)
    moreover have "n = length (ls_inbox ?u)"
      using Suc.hyps(2) inbox by (simp add: receive_log_def Let_def)
    moreover have "log_lives ?u" "log_contents render ?u = log_contents render t"
      using t(2,4) by (simp_all add: log_lives_def receive_log_def Let_def log_contents_def)
    ultimately show ?case
      using Suc.hyps(1) [of ?u] t(1,5) by (metis rtranclp.rtrancl_into_rtrancl rtranclp_trans)
  qed
  then show ?thesis by (auto simp: log_contents_def)
qed

end
