(* ===== verification/Http.thy ===== *)
theory Http
  imports Prelude
begin

section \<open>Responses, denials and rejections: src/main.rs\<close>

text \<open>
  The status codes the server answers with, \<open>RequestDenial\<close> and its response, and
  \<open>handle_rejection\<close>. Bodies are kept as the structures that are serialised: \<open>Inl\<close> a denial,
  \<open>Inr\<close> what the handler answers with when it succeeds. \<open>simd_json::to_string\<close> and
  \<open>warp::reply::json\<close> only turn those into text.
\<close>

datatype status =
    OK
  | BAD_REQUEST
  | UNAUTHORIZED
  | NOT_FOUND
  | METHOD_NOT_ALLOWED
  | CONFLICT
  | PRECONDITION_FAILED
  | INTERNAL_SERVER_ERROR

fun as_u16 :: "status \<Rightarrow> u16" where
  "as_u16 OK = 200"
| "as_u16 BAD_REQUEST = 400"
| "as_u16 UNAUTHORIZED = 401"
| "as_u16 NOT_FOUND = 404"
| "as_u16 METHOD_NOT_ALLOWED = 405"
| "as_u16 CONFLICT = 409"
| "as_u16 PRECONDITION_FAILED = 412"
| "as_u16 INTERNAL_SERVER_ERROR = 500"

datatype denial_fault = Server | User

fun fault_to_string :: "denial_fault \<Rightarrow> string" where
  "fault_to_string Server = ''Server''"
| "fault_to_string User = ''User''"

record request_denial =
  rd_fault :: string
  rd_reason :: string
  rd_additional_info :: string

definition denial_new :: "denial_fault \<Rightarrow> string \<Rightarrow> string \<Rightarrow> request_denial" where
  "denial_new fault reason info =
    \<lparr>rd_fault = fault_to_string fault, rd_reason = reason, rd_additional_info = info\<rparr>"

record 'b response =
  rs_status :: status
  rs_body :: "request_denial + 'b"

definition into_response :: "request_denial \<Rightarrow> status \<Rightarrow> 'b response" where
  "into_response d st = \<lparr>rs_status = st, rs_body = Inl d\<rparr>"

definition answer :: "status \<Rightarrow> 'b \<Rightarrow> 'b response" where
  "answer st b = \<lparr>rs_status = st, rs_body = Inr b\<rparr>"

abbreviation deny :: "denial_fault \<Rightarrow> string \<Rightarrow> string \<Rightarrow> status \<Rightarrow> 'b response" where
  "deny fault reason info st \<equiv> into_response (denial_new fault reason info) st"

lemma response_simps [simp]:
  "rs_status (into_response d st) = st" "rs_body (into_response d st) = Inl d"
  "rs_status (answer st b) = st" "rs_body (answer st b) = Inr b"
  by (simp_all add: into_response_def answer_def)

lemma answer_inject [simp]:
  "answer st b = answer st' b' \<longleftrightarrow> st = st' \<and> b = b'"
  "into_response d st = into_response d' st' \<longleftrightarrow> d = d' \<and> st = st'"
  "answer st b \<noteq> into_response d st'" "into_response d st' \<noteq> answer st b"
  by (auto simp: into_response_def answer_def)

subsection \<open>Rejections\<close>

text \<open>
  What \<open>handle_rejection\<close> asks a warp \<open>Rejection\<close>: whether it is a plain not-found, whether it
  carries a \<open>BodyDeserializeError\<close> (with the text of its source, if it has one), and whether
  it carries a \<open>MethodNotAllowed\<close>.
\<close>

record rejection =
  rj_not_found :: bool
  rj_body_error :: "string option option"
  rj_method_not_allowed :: bool

record error_message =
  em_code :: u16
  em_message :: string

definition handle_rejection :: "rejection \<Rightarrow> error_message \<times> status" where
  "handle_rejection err = (
     let (code, message) =
       (if rj_not_found err then (NOT_FOUND, ''NOT_FOUND'')
        else case rj_body_error err of
          Some e \<Rightarrow> (BAD_REQUEST, case e of Some cause \<Rightarrow> cause | None \<Rightarrow> ''BAD_REQUEST'')
        | None \<Rightarrow>
            if rj_method_not_allowed err then (METHOD_NOT_ALLOWED, ''METHOD_NOT_ALLOWED'')
            else (INTERNAL_SERVER_ERROR, ''UNHANDLED_REJECTION''))
     in (\<lparr>em_code = as_u16 code, em_message = message\<rparr>, code))"

text \<open>
  \<open>handle_rejection\<close> is total and consistent: the code in the JSON body is the number of the
  HTTP status it answers with, the status is one of 404, 400, 405 and 500, and it is 500
  exactly for the rejections that are none of the three kinds the function knows.
\<close>

lemma handle_rejection_consistent:
  "em_code (fst (handle_rejection err)) = as_u16 (snd (handle_rejection err)) \<and>
   snd (handle_rejection err) \<in> {NOT_FOUND, BAD_REQUEST, METHOD_NOT_ALLOWED, INTERNAL_SERVER_ERROR} \<and>
   (snd (handle_rejection err) = INTERNAL_SERVER_ERROR) =
     (\<not> rj_not_found err \<and> rj_body_error err = None \<and> \<not> rj_method_not_allowed err)"
  by (auto simp: handle_rejection_def Let_def split: option.splits)

end
