(* ===== verification/State.thy ===== *)
theory State
  imports Financial Logging Http "HOL-Library.Sublist"
begin

section \<open>The server's state\<close>

text \<open>
  The values the trees hold (from \<open>src/auth.rs\<close> and \<open>src/software.rs\<close>; \<open>FinancialInfo\<close> is in
  the theory \<open>Financial\<close>), the state every handler and background task shares (what \<open>main\<close> sets up and
  clones into the routes), the trees as lenses of it, and the functions the handlers use from
  outside the repository, collected in the record \<open>env\<close>.
\<close>

subsection \<open>Values\<close>

record user =
  us_username :: string
  us_salt :: bytes
  us_hashed_password :: bytes

record auth_cookie =
  ac_username :: string
  ac_cookie :: string
  ac_creation_time :: u64
  ac_expiration_time :: u64

record generated_captcha =
  gc_creation_time :: u64
  gc_expiration_time :: u64
  gc_answer :: string
  gc_image :: bytes

datatype arch_type = Web | X86_64

datatype compression_type = Zstd | Brotli

text \<open>A fiat amount is a \<open>rust_decimal::Decimal\<close>, opaque here.\<close>

datatype currency_amount = Monero u64 | Fiat string

datatype item_price =
    PayWhatYouWant currency_amount currency_amount
  | FixedAmount currency_amount
  | NoPrice

record item =
  it_id :: u64
  it_title :: string
  it_creator :: string
  it_description :: string
  it_arch_type :: arch_type
  it_compressed_size :: u64
  it_price :: item_price
  it_compression_type :: compression_type
  it_files :: "bytes \<rightharpoonup> string"
  it_upload_id :: "bytes option"
  it_creation_time :: "u64 option"
  it_title_image_hash :: bytes

text \<open>\<open>UnixTimeUTC\<close>, with the derived order of its one field.\<close>

datatype unix_time = UnixTimeUTC u64

instantiation unix_time :: linorder
begin

definition less_eq_unix_time :: "unix_time \<Rightarrow> unix_time \<Rightarrow> bool" where
  "less_eq_unix_time s t = (case (s, t) of (UnixTimeUTC a, UnixTimeUTC b) \<Rightarrow> a \<le> b)"

definition less_unix_time :: "unix_time \<Rightarrow> unix_time \<Rightarrow> bool" where
  "less_unix_time s t = (case (s, t) of (UnixTimeUTC a, UnixTimeUTC b) \<Rightarrow> a < b)"

instance
  by standard (auto simp: less_eq_unix_time_def less_unix_time_def split: unix_time.splits)

end

record software_download =
  sd_time :: unix_time
  sd_username :: string

text \<open>\<open>BTreeSet<SoftwareDownload>\<close>, in its order: by time, one element per time.\<close>

type_synonym software_downloads = "software_download list"

record transfer_req =
  tq_username :: string
  tq_dst :: address
  tq_priority :: "u8 option"
  tq_amt :: u64
  tq_addr_index :: u64

subsection \<open>The world\<close>

record world = log_env +
  auth_db :: "string \<rightharpoonup> user"
  cookie_db :: "string \<rightharpoonup> auth_cookie"
  money_db :: "string \<rightharpoonup> financial_info"
  captcha_db :: "bytes \<rightharpoonup> generated_captcha"
  software_db :: "u64 \<rightharpoonup> item"
  upload_id_db :: "bytes \<rightharpoonup> u64"
  download_count_db :: "u64 \<rightharpoonup> software_downloads"
  software_ownership_db :: "string \<rightharpoonup> (u64 \<rightharpoonup> bool)"
  shared_fee :: cached_fee
  all_transfers :: "transfers list"
  monero_tx :: "transfer_req list"
  monero_tx_open :: bool
  pending_requests :: "transfer_req list"
  current_software_id :: u64
  cached_files :: "string \<rightharpoonup> bytes"
  game_files :: "string \<rightharpoonup> bytes"
  game_images :: "string \<rightharpoonup> bytes"
  io_faults :: "bool list"

text \<open>What stays when logs and the bookkeeping of sled and file system calls are left out.\<close>

definition data :: "world \<Rightarrow> world" where
  "data w = w\<lparr>sled_faults := [], log_queue := [], io_faults := []\<rparr>"

lemma data_simps [simp]:
  "data (w\<lparr>sled_faults := fs\<rparr>) = data w" "data (w\<lparr>log_queue := q\<rparr>) = data w"
  "data (w\<lparr>io_faults := fs\<rparr>) = data w"
  by (simp_all add: data_def)

lemma data_sel [simp]:
  "clock (data w) = clock w" "log_open (data w) = log_open w"
  "auth_db (data w) = auth_db w" "cookie_db (data w) = cookie_db w" "money_db (data w) = money_db w"
  "captcha_db (data w) = captcha_db w" "software_db (data w) = software_db w"
  "upload_id_db (data w) = upload_id_db w" "download_count_db (data w) = download_count_db w"
  "software_ownership_db (data w) = software_ownership_db w" "shared_fee (data w) = shared_fee w"
  "all_transfers (data w) = all_transfers w" "monero_tx (data w) = monero_tx w"
  "monero_tx_open (data w) = monero_tx_open w" "pending_requests (data w) = pending_requests w"
  "current_software_id (data w) = current_software_id w" "cached_files (data w) = cached_files w"
  "game_files (data w) = game_files w" "game_images (data w) = game_images w"
  by (simp_all add: data_def)

lemma data_eqD:
  assumes "data w = data w'"
  shows "auth_db w = auth_db w'" "cookie_db w = cookie_db w'" "money_db w = money_db w'"
    "captcha_db w = captcha_db w'" "software_db w = software_db w'" "upload_id_db w = upload_id_db w'"
    "download_count_db w = download_count_db w'" "software_ownership_db w = software_ownership_db w'"
    "monero_tx w = monero_tx w'" "pending_requests w = pending_requests w'"
    "current_software_id w = current_software_id w'" "cached_files w = cached_files w'"
    "game_files w = game_files w'" "game_images w = game_images w'" "all_transfers w = all_transfers w'"
    "shared_fee w = shared_fee w'" "clock w = clock w'"
  using assms by (metis data_sel)+

text \<open>
  The directories \<open>.cached_files\<close>, \<open>.game_files\<close> and \<open>.game_images\<close> are maps from file names to
  contents. Every file system call may fail; \<open>io_faults\<close> says which of the coming ones do, as
  \<open>sled_faults\<close> does for sled. \<open>io_call\<close> is a call whose error is unwrapped.
\<close>

abbreviation io_fails :: "world \<Rightarrow> bool" where
  "io_fails w \<equiv> io_faults w \<noteq> [] \<and> hd (io_faults w)"

abbreviation io_next :: "world \<Rightarrow> world" where
  "io_next w \<equiv> w\<lparr>io_faults := tl (io_faults w)\<rparr>"

definition io_call :: "(world, 'a) eff \<Rightarrow> (world, 'a) eff" where
  "io_call m = (\<lambda>w. if io_fails w then (Panic, io_next w) else m (io_next w))"

lemma wp_io_call [wp_rules]:
  "wp (io_call m) Q E w = (if io_fails w then E (io_next w) else wp m Q E (io_next w))"
  by (simp add: wp_def io_call_def)

lemma io_call_run [run_rules]: "io_faults w = [] \<Longrightarrow> io_call m w = m w"
  by (cases w) (simp add: io_call_def)

subsection \<open>The trees\<close>

definition AuthDB :: "(world, string, user) tree" where
  [store_defs]: "AuthDB = \<lparr>tree_rd = auth_db, tree_wr = (\<lambda>m w. w\<lparr>auth_db := m\<rparr>)\<rparr>"

definition CookieDB :: "(world, string, auth_cookie) tree" where
  [store_defs]: "CookieDB = \<lparr>tree_rd = cookie_db, tree_wr = (\<lambda>m w. w\<lparr>cookie_db := m\<rparr>)\<rparr>"

definition MoneyDB :: "(world, string, financial_info) tree" where
  [store_defs]: "MoneyDB = \<lparr>tree_rd = money_db, tree_wr = (\<lambda>m w. w\<lparr>money_db := m\<rparr>)\<rparr>"

definition CaptchaDB :: "(world, bytes, generated_captcha) tree" where
  [store_defs]: "CaptchaDB = \<lparr>tree_rd = captcha_db, tree_wr = (\<lambda>m w. w\<lparr>captcha_db := m\<rparr>)\<rparr>"

definition SoftwareDB :: "(world, u64, item) tree" where
  [store_defs]: "SoftwareDB = \<lparr>tree_rd = software_db, tree_wr = (\<lambda>m w. w\<lparr>software_db := m\<rparr>)\<rparr>"

definition UploadIdDB :: "(world, bytes, u64) tree" where
  [store_defs]: "UploadIdDB = \<lparr>tree_rd = upload_id_db, tree_wr = (\<lambda>m w. w\<lparr>upload_id_db := m\<rparr>)\<rparr>"

definition DownloadCountDB :: "(world, u64, software_downloads) tree" where
  [store_defs]: "DownloadCountDB =
    \<lparr>tree_rd = download_count_db, tree_wr = (\<lambda>m w. w\<lparr>download_count_db := m\<rparr>)\<rparr>"

definition SoftwareOwnershipDB :: "(world, string, u64 \<rightharpoonup> bool) tree" where
  [store_defs]: "SoftwareOwnershipDB =
    \<lparr>tree_rd = software_ownership_db, tree_wr = (\<lambda>m w. w\<lparr>software_ownership_db := m\<rparr>)\<rparr>"

lemma trees_are_lenses:
  "tree_lens AuthDB" "tree_lens CookieDB" "tree_lens MoneyDB" "tree_lens CaptchaDB"
  "tree_lens SoftwareDB" "tree_lens UploadIdDB" "tree_lens DownloadCountDB"
  "tree_lens SoftwareOwnershipDB"
  by (simp_all add: tree_lens_def store_defs)

text \<open>Every tree of the server meets the store contract.\<close>

interpretation auth_store: kv_store "tree_rd AuthDB" "\<lambda>_. True" "db_contains_key AuthDB"
  "db_get AuthDB" "db_insert AuthDB" "db_remove AuthDB" "db_get_or_insert AuthDB"
  by (rule typed_store [OF trees_are_lenses(1)])

interpretation cookie_store: kv_store "tree_rd CookieDB" "\<lambda>_. True" "db_contains_key CookieDB"
  "db_get CookieDB" "db_insert CookieDB" "db_remove CookieDB" "db_get_or_insert CookieDB"
  by (rule typed_store [OF trees_are_lenses(2)])

interpretation money_store: kv_store "tree_rd MoneyDB" "\<lambda>_. True" "db_contains_key MoneyDB"
  "db_get MoneyDB" "db_insert MoneyDB" "db_remove MoneyDB" "db_get_or_insert MoneyDB"
  by (rule typed_store [OF trees_are_lenses(3)])

interpretation captcha_store: kv_store "tree_rd CaptchaDB" "\<lambda>_. True" "db_contains_key CaptchaDB"
  "db_get CaptchaDB" "db_insert CaptchaDB" "db_remove CaptchaDB" "db_get_or_insert CaptchaDB"
  by (rule typed_store [OF trees_are_lenses(4)])

interpretation software_store: kv_store "tree_rd SoftwareDB" "\<lambda>_. True" "db_contains_key SoftwareDB"
  "db_get SoftwareDB" "db_insert SoftwareDB" "db_remove SoftwareDB" "db_get_or_insert SoftwareDB"
  by (rule typed_store [OF trees_are_lenses(5)])

interpretation upload_id_store: kv_store "tree_rd UploadIdDB" "\<lambda>_. True" "db_contains_key UploadIdDB"
  "db_get UploadIdDB" "db_insert UploadIdDB" "db_remove UploadIdDB" "db_get_or_insert UploadIdDB"
  by (rule typed_store [OF trees_are_lenses(6)])

interpretation download_store: kv_store "tree_rd DownloadCountDB" "\<lambda>_. True"
  "db_contains_key DownloadCountDB" "db_get DownloadCountDB" "db_insert DownloadCountDB"
  "db_remove DownloadCountDB" "db_get_or_insert DownloadCountDB"
  by (rule typed_store [OF trees_are_lenses(7)])

interpretation ownership_store: kv_store "tree_rd SoftwareOwnershipDB" "\<lambda>_. True"
  "db_contains_key SoftwareOwnershipDB" "db_get SoftwareOwnershipDB" "db_insert SoftwareOwnershipDB"
  "db_remove SoftwareOwnershipDB" "db_get_or_insert SoftwareOwnershipDB"
  by (rule typed_store [OF trees_are_lenses(8)])

subsection \<open>Functions from outside the repository\<close>

text \<open>
  Unicode (\<open>to_lowercase\<close>, \<open>char::is_alphanumeric\<close> on every character, the UTF-8 decoders),
  hexadecimal (hex_simd), hashing (blake3), file type detection (infer), the pieces in which a read loop gets a file into
  a buffer of a given size (\<open>ev_reads\<close>), monero addresses and the \<open>Debug\<close> renderings that end up in logs and denials.
\<close>

record env =
  ev_to_lowercase :: "string \<Rightarrow> string"
  ev_alphanumeric :: "string \<Rightarrow> bool"
  ev_from_utf8 :: "bytes \<Rightarrow> string option"
  ev_from_utf8_lossy :: "bytes \<Rightarrow> string"
  ev_hex_decode :: "bytes \<Rightarrow> bytes option"
  ev_hex_encode :: "bytes \<Rightarrow> string"
  ev_blake3 :: "bytes \<Rightarrow> bytes"
  ev_is_zst :: "bytes \<Rightarrow> bool"
  ev_reads :: "nat \<Rightarrow> bytes \<Rightarrow> bytes list"
  ev_addr :: addr_api
  ev_addr_error :: "string \<Rightarrow> string"
  ev_debug_wallet_error :: "wallet_error \<Rightarrow> string"
  ev_debug_sled_error :: "sled_error \<Rightarrow> string"

text \<open>Concrete stand-ins, for closed examples: not the real functions.\<close>

definition example_env :: env where
  "example_env = \<lparr>
    ev_to_lowercase = (\<lambda>s. s),
    ev_alphanumeric = list_all (\<lambda>c. c \<noteq> CHR '' '' \<and> c \<noteq> CHR ''/''),
    ev_from_utf8 = (\<lambda>b. Some (map (\<lambda>x. char_of (unat x)) b)),
    ev_from_utf8_lossy = map (\<lambda>x. char_of (unat x)),
    ev_hex_decode = (\<lambda>b. if even (length b) \<and> 122 \<notin> set b then Some (take (length b div 2) b) else None),
    ev_hex_encode = (\<lambda>b. map (\<lambda>x. char_of (unat x)) (b @ b)),
    ev_blake3 = (\<lambda>b. take 32 (b @ replicate 32 0)),
    ev_is_zst = (\<lambda>b. take 1 b = [40]),
    ev_reads = (\<lambda>n b. if b = [] then [] else [b]),
    ev_addr = example_addr_api,
    ev_addr_error = (\<lambda>_. ''invalid''),
    ev_debug_wallet_error = (\<lambda>_. ''error''),
    ev_debug_sled_error = (\<lambda>_. ''error'')\<rparr>"

definition empty_world :: world where
  "empty_world = \<lparr>sled_faults = [], clock = 1000, log_queue = [], log_open = True,
    auth_db = (\<lambda>_. None), cookie_db = (\<lambda>_. None), money_db = (\<lambda>_. None), captcha_db = (\<lambda>_. None),
    software_db = (\<lambda>_. None), upload_id_db = (\<lambda>_. None), download_count_db = (\<lambda>_. None),
    software_ownership_db = (\<lambda>_. None), shared_fee = cached_fee_new, all_transfers = [],
    monero_tx = [], monero_tx_open = True, pending_requests = [], current_software_id = 0,
    cached_files = (\<lambda>_. None), game_files = (\<lambda>_. None), game_images = (\<lambda>_. None), io_faults = []\<rparr>"

text \<open>A state with one captcha, with the hash 97, ..., 97 and the answer \<open>xyz\<close>.\<close>

definition example_hash :: bytes where
  "example_hash = replicate 32 97"

definition captcha_world :: world where
  "captcha_world = empty_world\<lparr>captcha_db := [example_hash \<mapsto>
    \<lparr>gc_creation_time = 900, gc_expiration_time = 1200, gc_answer = ''xyz'', gc_image = []\<rparr>]\<rparr>"

lemmas example_state_defs = example_env_def empty_world_def captcha_world_def example_addr_api_def

text \<open>The length of a blake3 hash, and \<open>try_into().unwrap()\<close> from a slice to a 32-byte array.\<close>

definition OUT_LEN :: nat where
  "OUT_LEN = 32"

definition to_array32 :: "bytes \<Rightarrow> ('s, bytes) eff" where
  "to_array32 b = (if length b = OUT_LEN then ret b else panic)"

lemma wp_to_array32 [wp_rules]: "wp (to_array32 b) Q E s = (if length b = OUT_LEN then Q b s else E s)"
  by (simp add: to_array32_def wp_rules)

lemma to_array32_run [run_rules]: "length b = OUT_LEN \<Longrightarrow> to_array32 b s = (Done b, s)"
  by (simp add: to_array32_def run_rules)

subsection \<open>Guarded handlers\<close>

text \<open>The test every money and software handler makes: a registered user with their cookie.\<close>

definition authorised :: "world \<Rightarrow> string \<Rightarrow> string \<Rightarrow> bool" where
  "authorised w u c \<longleftrightarrow> auth_db w u \<noteq> None \<and>
    (case cookie_db w u of None \<Rightarrow> False | Some ck \<Rightarrow> ac_cookie ck = c)"

lemma authorised_simps [simp]:
  "authorised (w\<lparr>sled_faults := fs\<rparr>) = authorised w" "authorised (w\<lparr>log_queue := q\<rparr>) = authorised w"
  "authorised (w\<lparr>io_faults := fs\<rparr>) = authorised w" "authorised (w\<lparr>money_db := m\<rparr>) = authorised w"
  "authorised (w\<lparr>captcha_db := c\<rparr>) = authorised w"
  by (simp_all add: authorised_def fun_eq_iff)

locale guarded_handler =
  fixes run :: "'req \<Rightarrow> (world, 'b response) eff"
    and req_user :: "'req \<Rightarrow> string"
    and req_cookie :: "'req \<Rightarrow> string"
  assumes guard_law: "\<not> authorised w (req_user r) (req_cookie r) \<Longrightarrow>
    wp (run r) (\<lambda>resp w'. rs_status resp = UNAUTHORIZED \<and> data w' = data w)
      (\<lambda>w'. data w' = data w) w"
begin

lemma ok_is_authorised:
  assumes "run r w = (Done resp, w')" "rs_status resp \<noteq> UNAUTHORIZED"
  shows "authorised w (req_user r) (req_cookie r)"
  using wp_done [OF guard_law assms(1)] assms(2) by blast

lemma change_is_authorised:
  assumes "data (snd (run r w)) \<noteq> data w"
  shows "authorised w (req_user r) (req_cookie r)"
proof (rule ccontr)
  assume "\<not> authorised w (req_user r) (req_cookie r)"
  then have "wp (run r) (\<lambda>_ w'. data w' = data w) (\<lambda>w'. data w' = data w) w"
    by (rule wp_conseq [OF guard_law]) simp_all
  from wp_final [OF this] assms show False by simp
qed

end

end
