(* ===== verification/Database.thy ===== *)
theory Database
  imports Db_Bytes State "HOL-Library.Countable"
begin

section \<open>The database on disk: what \<open>main\<close> opens\<close>

text \<open>
  The server preserves all its trees in one sled database, opened at the start by name (src/main.rs) and wrapped in the newtypes
  of src/db.rs. The handlers of the other theories work on the typed trees of \<open>world\<close>. This theory has the database as
  it is, byte strings under eight names, and shows that the typed trees are a true picture of it: whatever a method of the
  trait \<open>DB\<close> does to the bytes, the typed operation does to the picture, and so does everything made of such calls.
\<close>

subsection \<open>Opening\<close>

text \<open>\<open>sled::Db::open_tree\<close>, a parameter: a handle of a tree, through which the state of the whole database is
  reached.\<close>

record 'd sled_db =
  sd_open_tree :: "string \<Rightarrow> ('d, sled_error + 'd sled_api) eff"

text \<open>The newtypes \<open>AuthDB\<close>, .., \<open>SoftwareOwnershipDB\<close>: each holds the handle of its tree, and a clone of it is the same
  handle.\<close>

record 'd trees =
  tr_auth :: "'d sled_api"
  tr_cookie :: "'d sled_api"
  tr_money :: "'d sled_api"
  tr_captcha :: "'d sled_api"
  tr_software :: "'d sled_api"
  tr_upload_id :: "'d sled_api"
  tr_download_count :: "'d sled_api"
  tr_software_ownership :: "'d sled_api"

text \<open>\<open>db.open_tree(..).expect(..)\<close>, eight times.\<close>

definition open_tree :: "'d sled_db \<Rightarrow> string \<Rightarrow> ('d, 'd sled_api) eff" where
  "open_tree D name = unwrapped (sd_open_tree D name)"

definition open_trees :: "'d sled_db \<Rightarrow> ('d, 'd trees) eff" where
  "open_trees D =
     and_then (open_tree D ''auth_db'') (\<lambda>auth_db.
     and_then (open_tree D ''cookie_db'') (\<lambda>cookie_db.
     and_then (open_tree D ''money_db'') (\<lambda>money_db.
     and_then (open_tree D ''captcha_db'') (\<lambda>captcha_db.
     and_then (open_tree D ''software_db'') (\<lambda>software_db.
     and_then (open_tree D ''upload_id_db'') (\<lambda>upload_id_db.
     and_then (open_tree D ''download_count_db'') (\<lambda>download_count_db.
     and_then (open_tree D ''software_ownership_db'') (\<lambda>software_ownership_db.
     ret \<lparr>tr_auth = auth_db, tr_cookie = cookie_db, tr_money = money_db, tr_captcha = captcha_db,
       tr_software = software_db, tr_upload_id = upload_id_db, tr_download_count = download_count_db,
       tr_software_ownership = software_ownership_db\<rparr>))))))))"

text \<open>What sled promises: a handle is a tree with a key space of its own, and opening leaves all contents alone. \<open>m\<close> reads
  the contents of the trees by name.\<close>

definition others_same :: "('d \<Rightarrow> string \<Rightarrow> bytes \<rightharpoonup> bytes) \<Rightarrow> string \<Rightarrow> 'd \<Rightarrow> 'd \<Rightarrow> bool" where
  "others_same m name d d' \<longleftrightarrow> (\<forall>n. n \<noteq> name \<longrightarrow> m d' n = m d n)"

definition keyspace :: "('d \<Rightarrow> string \<Rightarrow> bytes \<rightharpoonup> bytes) \<Rightarrow> string \<Rightarrow> 'd sled_api \<Rightarrow> bool" where
  "keyspace m name S \<longleftrightarrow> sled_laws S (\<lambda>d. m d name) \<and> (\<forall>d k v b. let same = others_same m name d in
     wp (sl_contains_key S k) (\<lambda>_. same) same d \<and> wp (sl_get S k) (\<lambda>_. same) same d \<and>
     wp (sl_insert S k v) (\<lambda>_. same) same d \<and> wp (sl_remove S k) (\<lambda>_. same) same d \<and>
     wp (sl_iter S) (\<lambda>_. same) same d \<and> wp (sl_apply_batch S b) (\<lambda>_. same) same d \<and>
     wp (sl_flush S) (\<lambda>_. same) same d)"

definition database_laws :: "'d sled_db \<Rightarrow> ('d \<Rightarrow> string \<Rightarrow> bytes \<rightharpoonup> bytes) \<Rightarrow> bool" where
  "database_laws D m \<longleftrightarrow> (\<forall>name d. wp (sd_open_tree D name)
     (\<lambda>r d'. m d' = m d \<and> (\<forall>S. r = Inr S \<longrightarrow> keyspace m name S)) (\<lambda>_. False) d)"

subsection \<open>The picture in memory\<close>

text \<open>The codecs of the key and value types. The keys of type \<open>[u8; 32]\<close> are byte strings here, so their codec is one of
  all byte strings.\<close>

record codecs =
  cd_string :: "string codec"
  cd_hash :: "bytes codec"
  cd_u64 :: "u64 codec"
  cd_user :: "user codec"
  cd_cookie :: "auth_cookie codec"
  cd_money :: "financial_info codec"
  cd_captcha :: "generated_captcha codec"
  cd_item :: "item codec"
  cd_downloads :: "software_downloads codec"
  cd_ownership :: "(u64 \<rightharpoonup> bool) codec"

text \<open>Every key can be written. Every value written can be read; that every value can be written holds of the values the
  code has, but not of the type \<open>item\<close> here, whose files are any map.\<close>

definition codecs_ok :: "codecs \<Rightarrow> bool" where
  "codecs_ok c \<longleftrightarrow> codec_laws (cd_string c) \<and> codec_laws (cd_hash c) \<and> codec_laws (cd_u64 c) \<and>
    codec_sound (cd_user c) \<and> codec_sound (cd_cookie c) \<and> codec_sound (cd_money c) \<and> codec_sound (cd_captcha c) \<and>
    codec_sound (cd_item c) \<and> codec_sound (cd_downloads c) \<and> codec_sound (cd_ownership c)"

definition in_memory :: "codecs \<Rightarrow> world \<Rightarrow> (string \<Rightarrow> bytes \<rightharpoonup> bytes) \<Rightarrow> world" where
  "in_memory c w b = w\<lparr>
     auth_db := typed_view (cd_string c) (cd_user c) (b ''auth_db''),
     cookie_db := typed_view (cd_string c) (cd_cookie c) (b ''cookie_db''),
     money_db := typed_view (cd_string c) (cd_money c) (b ''money_db''),
     captcha_db := typed_view (cd_hash c) (cd_captcha c) (b ''captcha_db''),
     software_db := typed_view (cd_u64 c) (cd_item c) (b ''software_db''),
     upload_id_db := typed_view (cd_hash c) (cd_u64 c) (b ''upload_id_db''),
     download_count_db := typed_view (cd_u64 c) (cd_downloads c) (b ''download_count_db''),
     software_ownership_db := typed_view (cd_string c) (cd_ownership c) (b ''software_ownership_db'')\<rparr>"

text \<open>The trees hold only what the trait has written, and finitely much of it.\<close>

definition kept_tree :: "'k codec \<Rightarrow> 'v codec \<Rightarrow> (bytes \<rightharpoonup> bytes) \<Rightarrow> bool" where
  "kept_tree ck cv b \<longleftrightarrow> well_encoded ck cv b \<and> finite (dom b)"

definition well_kept :: "codecs \<Rightarrow> (string \<Rightarrow> bytes \<rightharpoonup> bytes) \<Rightarrow> bool" where
  "well_kept c b \<longleftrightarrow>
    kept_tree (cd_string c) (cd_user c) (b ''auth_db'') \<and>
    kept_tree (cd_string c) (cd_cookie c) (b ''cookie_db'') \<and>
    kept_tree (cd_string c) (cd_money c) (b ''money_db'') \<and>
    kept_tree (cd_hash c) (cd_captcha c) (b ''captcha_db'') \<and>
    kept_tree (cd_u64 c) (cd_item c) (b ''software_db'') \<and>
    kept_tree (cd_hash c) (cd_u64 c) (b ''upload_id_db'') \<and>
    kept_tree (cd_u64 c) (cd_downloads c) (b ''download_count_db'') \<and>
    kept_tree (cd_string c) (cd_ownership c) (b ''software_ownership_db'')"

subsection \<open>Simulation\<close>

text \<open>
  \<open>m\<close> on the database does at \<open>d\<close> what \<open>n\<close> does on the picture \<open>pic\<close>: it leads to a state with \<open>good\<close>, with the value or
  the panic \<open>n\<close> gives when its next calls of sled fail as these did.
\<close>

definition follows :: "('d \<Rightarrow> world) \<Rightarrow> ('d \<Rightarrow> bool) \<Rightarrow> ('d, 'a) eff \<Rightarrow> (world, 'a) eff \<Rightarrow> 'd \<Rightarrow> bool" where
  "follows pic good m n d \<longleftrightarrow> good (snd (m d)) \<and>
    (\<exists>fs. \<forall>fs'. n ((pic d)\<lparr>sled_faults := fs @ fs'\<rparr>) = (fst (m d), (pic (snd (m d)))\<lparr>sled_faults := fs'\<rparr>))"

definition simulates :: "('d \<Rightarrow> world) \<Rightarrow> ('d \<Rightarrow> bool) \<Rightarrow> ('d, 'a) eff \<Rightarrow> (world, 'a) eff \<Rightarrow> bool" where
  "simulates pic good m n \<longleftrightarrow> (\<forall>d. good d \<longrightarrow> follows pic good m n d)"

lemma simulates_ret: "simulates pic good (ret x) (ret x)"
  by (auto simp: simulates_def follows_def ret_def intro: exI [of _ "[]"])

lemma simulates_lift: "simulates pic good (lift_outcome r) (lift_outcome r)"
  by (auto simp: simulates_def follows_def lift_outcome_def intro: exI [of _ "[]"])

lemma simulates_unwrap: "simulates pic good (unwrap_opt x) (unwrap_opt x)" "simulates pic good (unwrap_res y) (unwrap_res y)"
  by (cases x; auto simp: simulates_def follows_def ret_def panic_def unwrap_opt_def intro: exI [of _ "[]"])
    (cases y; auto simp: simulates_def follows_def ret_def panic_def unwrap_res_def intro: exI [of _ "[]"])

text \<open>Simulation goes through sequences, and so through everything handlers are made of.\<close>

lemma simulates_and_then:
  assumes "simulates pic good m n" "\<And>x. simulates pic good (f x) (g x)"
  shows "simulates pic good (and_then m f) (and_then n g)"
  unfolding simulates_def follows_def
proof (intro allI impI)
  fix d assume "good d"
  with assms(1) obtain fs where m: "good (snd (m d))"
    "\<And>fs'. n ((pic d)\<lparr>sled_faults := fs @ fs'\<rparr>) = (fst (m d), (pic (snd (m d)))\<lparr>sled_faults := fs'\<rparr>)"
    unfolding simulates_def follows_def by blast
  show "good (snd (and_then m f d)) \<and> (\<exists>fs. \<forall>fs'. and_then n g ((pic d)\<lparr>sled_faults := fs @ fs'\<rparr>) =
      (fst (and_then m f d), (pic (snd (and_then m f d)))\<lparr>sled_faults := fs'\<rparr>))"
  proof (cases "fst (m d)")
    case (Done x)
    from assms(2) [of x] m(1) obtain gs where f: "good (snd (f x (snd (m d))))"
      "\<And>fs'. g x ((pic (snd (m d)))\<lparr>sled_faults := gs @ fs'\<rparr>) =
        (fst (f x (snd (m d))), (pic (snd (f x (snd (m d)))))\<lparr>sled_faults := fs'\<rparr>)"
      unfolding simulates_def follows_def by blast
    have "and_then n g ((pic d)\<lparr>sled_faults := (fs @ gs) @ fs'\<rparr>) =
        (fst (and_then m f d), (pic (snd (and_then m f d)))\<lparr>sled_faults := fs'\<rparr>)" for fs'
      using m(2) [of "gs @ fs'"] f(2) [of fs'] Done by (cases "m d") (simp add: and_then_def)
    moreover have "good (snd (and_then m f d))" using f(1) Done by (cases "m d") (simp add: and_then_def)
    ultimately show ?thesis by blast
  next
    case Panic
    then have "and_then m f d = (Panic, snd (m d))" by (cases "m d") (simp add: and_then_def)
    moreover have "and_then n g ((pic d)\<lparr>sled_faults := fs @ fs'\<rparr>) = (Panic, (pic (snd (m d)))\<lparr>sled_faults := fs'\<rparr>)" for fs'
      using m(2) [of fs'] Panic by (simp add: and_then_def)
    ultimately show ?thesis using m(1) by auto
  qed
qed

lemma simulates_unwrapped: "simulates pic good m n \<Longrightarrow> simulates pic good (unwrapped m) (unwrapped n)"
  unfolding unwrapped_def by (intro simulates_and_then simulates_unwrap)

lemma followsI:
  assumes "wp m
    (\<lambda>r d'. good d' \<and> (\<exists>fs. \<forall>fs'. n ((pic d)\<lparr>sled_faults := fs @ fs'\<rparr>) = (Done r, (pic d')\<lparr>sled_faults := fs'\<rparr>)))
    (\<lambda>d'. good d' \<and> (\<exists>fs. \<forall>fs'. n ((pic d)\<lparr>sled_faults := fs @ fs'\<rparr>) = (Panic, (pic d')\<lparr>sled_faults := fs'\<rparr>))) d"
  shows "follows pic good m n d"
  using assms unfolding follows_def by (cases "m d"; cases "fst (m d)") (simp_all add: wp_def)

text \<open>What it is for the handle \<open>S\<close> to be the tree \<open>T\<close>: every method of the trait on \<open>S\<close> does on the bytes what the typed
  operation does on \<open>T\<close>.\<close>

definition implements :: "('d \<Rightarrow> world) \<Rightarrow> ('d \<Rightarrow> bool) \<Rightarrow> 'd sled_api \<Rightarrow> 'k codec \<Rightarrow> 'v codec \<Rightarrow> (world, 'k, 'v) tree \<Rightarrow> bool" where
  "implements pic good S ck cv T \<longleftrightarrow>
    (\<forall>k. simulates pic good (trait_contains_key S ck k) (db_contains_key T k) \<and>
      simulates pic good (trait_get S ck cv k) (db_get T k) \<and>
      simulates pic good (trait_remove S ck cv k) (db_remove T k)) \<and>
    (\<forall>k v. ser cv v \<noteq> None \<longrightarrow> simulates pic good (trait_insert S ck cv k v) (db_insert T k v) \<and>
      simulates pic good (trait_get_or_insert S ck cv k v) (db_get_or_insert T k v)) \<and>
    (\<forall>kvs. (\<forall>(k, v)\<in>set kvs. ser cv v \<noteq> None) \<longrightarrow>
      simulates pic good (and_then (encode_batch ck cv kvs) (trait_apply_batch S)) (db_apply_batch T kvs)) \<and>
    (\<forall>d. good d \<longrightarrow> (\<exists>ks. enumerates ks (tree_rd T (pic d)) \<and>
      follows pic good (trait_iter S ck cv) (db_iter T ks) d))"

subsection \<open>The other trees\<close>

lemma others_refl: "others_same m name d d"
  by (simp add: others_same_def)

lemma others_trans: "others_same m name d d1 \<Longrightarrow> others_same m name d1 d2 \<Longrightarrow> others_same m name d d2"
  by (simp add: others_same_def)

lemma others_eq: "others_same m name d d' \<Longrightarrow> m d' name = m d name \<Longrightarrow> m d' = m d"
  by (rule ext) (metis others_same_def)

lemma keyspace_laws: "keyspace m name S \<Longrightarrow> sled_laws S (\<lambda>d. m d name)"
  by (simp add: keyspace_def)

definition preserves :: "('d \<Rightarrow> bool) \<Rightarrow> ('d, 'a) eff \<Rightarrow> bool" where
  "preserves P m \<longleftrightarrow> (\<forall>d. P d \<longrightarrow> wp m (\<lambda>_. P) P d)"

named_theorems preserves_rules \<open>computations that keep a property of the state\<close>

lemma preserves_basic [preserves_rules]: "preserves P (ret x)" "preserves P (unwrap_opt y)" "preserves P (unwrap_res r)"
  by (auto simp: preserves_def wp_rules split: option.split sum.split)

lemma preserves_and_then [preserves_rules]: "preserves P m \<Longrightarrow> (\<And>x. preserves P (f x)) \<Longrightarrow> preserves P (and_then m f)"
  by (auto simp: preserves_def wp_rules intro: wp_conseq)

lemma preserves_unwrapped [preserves_rules]: "preserves P m \<Longrightarrow> preserves P (unwrapped m)"
  unfolding unwrapped_def by (intro preserves_rules)

lemma preserves_decode_found [preserves_rules]: "preserves P (decode_found cv r)"
  unfolding decode_found_def by (auto intro!: preserves_rules split: sum.split option.split)

lemma preserves_decode_items [preserves_rules]: "preserves P (decode_items ck cv rs)"
  by (induction ck cv rs rule: decode_items.induct) (auto intro!: preserves_rules)

lemma preserves_encode_batch [preserves_rules]: "preserves P (encode_batch ck cv kvs)"
  by (induction ck cv kvs rule: encode_batch.induct) (auto intro!: preserves_rules)

lemma keyspace_preserves:
  assumes "keyspace m name S"
  shows "preserves (others_same m name d) (sl_contains_key S k)" "preserves (others_same m name d) (sl_get S k)"
    "preserves (others_same m name d) (sl_insert S k v)" "preserves (others_same m name d) (sl_remove S k)"
    "preserves (others_same m name d) (sl_iter S)" "preserves (others_same m name d) (sl_apply_batch S b)"
  using assms unfolding keyspace_def Let_def preserves_def by (blast intro: wp_conseq others_trans)+

lemma preserves_others: "preserves (others_same m name d) n \<Longrightarrow> wp n (\<lambda>_. others_same m name d) (others_same m name d) d"
  by (simp add: preserves_def others_refl)

text \<open>No method of the trait touches another tree.\<close>

lemma trait_frame:
  assumes "keyspace m name S"
  shows "wp (trait_contains_key S ck k) (\<lambda>_. others_same m name d) (others_same m name d) d"
    and "wp (trait_get S ck cv k) (\<lambda>_. others_same m name d) (others_same m name d) d"
    and "wp (trait_insert S ck cv k v) (\<lambda>_. others_same m name d) (others_same m name d) d"
    and "wp (trait_remove S ck cv k) (\<lambda>_. others_same m name d) (others_same m name d) d"
    and "wp (trait_get_or_insert S ck cv k v) (\<lambda>_. others_same m name d) (others_same m name d) d"
    and "wp (trait_iter S ck cv) (\<lambda>_. others_same m name d) (others_same m name d) d"
    and "wp (and_then (encode_batch ck cv kvs) (trait_apply_batch S)) (\<lambda>_. others_same m name d) (others_same m name d) d"
  unfolding trait_contains_key_def trait_get_def trait_insert_def trait_remove_def trait_iter_def
    trait_get_or_insert_def trait_apply_batch_def
  by (auto intro!: preserves_others preserves_rules keyspace_preserves [OF assms] split: sum.split option.split)

subsection \<open>A tree of the picture\<close>

lemma kept_treeI:
  assumes "codec_laws ck" "codec_sound cv" "well_encoded ck cv b" "finite (dom (typed_view ck cv b))"
  shows "kept_tree ck cv b"
proof -
  have "kb \<in> (\<lambda>k. the (ser ck k)) ` dom (typed_view ck cv b)" if "b kb = Some vb" for kb vb
  proof -
    from assms(3) that obtain k v where enc: "ser ck k = Some kb" "ser cv v = Some vb" unfolding well_encoded_def by blast
    with codec_decodes [OF assms(2)] that have "k \<in> dom (typed_view ck cv b)" by (auto simp: typed_view_def)
    with enc(1) show ?thesis by force
  qed
  then have "dom b \<subseteq> (\<lambda>k. the (ser ck k)) ` dom (typed_view ck cv b)" by blast
  with assms(3,4) show ?thesis unfolding kept_tree_def by (blast intro: finite_subset)
qed

lemma kept_treeD:
  assumes "codec_laws ck" "codec_sound cv" "kept_tree ck cv b"
  shows "well_encoded ck cv b" "finite (dom b)" "finite (dom (typed_view ck cv b))"
  using assms key_order_all(2) [OF assms(1,2), of b, symmetric] by (simp_all add: kept_tree_def)

text \<open>
  \<open>T\<close> is the part of the picture that the tree \<open>name\<close> gives, under the codecs \<open>ck\<close> and \<open>cv\<close>.
\<close>

locale tree_slot =
  fixes c :: codecs
    and T :: "(world, 'k, 'v) tree"
    and name :: string
    and ck :: "'k codec"
    and cv :: "'v codec"
  assumes codecs_law: "codecs_ok c \<Longrightarrow> codec_laws ck \<and> codec_sound cv"
    and read_law: "tree_rd T (in_memory c w b) = typed_view ck cv (b name)"
    and write_law: "(\<And>n. n \<noteq> name \<Longrightarrow> b' n = b n) \<Longrightarrow>
      in_memory c w b' = tree_wr T (typed_view ck cv (b' name)) (in_memory c w b)"
    and faults_law: "tree_rd T (w\<lparr>sled_faults := fs\<rparr>) = tree_rd T w"
      "tree_wr T x (w\<lparr>sled_faults := fs\<rparr>) = (tree_wr T x w)\<lparr>sled_faults := fs\<rparr>"
    and kept_law: "well_kept c b \<Longrightarrow> kept_tree ck cv (b name)"
    and keep_law: "well_kept c b \<Longrightarrow> (\<And>n. n \<noteq> name \<Longrightarrow> b' n = b n) \<Longrightarrow> kept_tree ck cv (b' name) \<Longrightarrow> well_kept c b'"
begin

lemma call_follows:
  "db_contains_key T k ((in_memory c w b)\<lparr>sled_faults := False # fs\<rparr>) =
    (Done (Inr (typed_view ck cv (b name) k \<noteq> None)), (in_memory c w b)\<lparr>sled_faults := fs\<rparr>)"
  "db_get T k ((in_memory c w b)\<lparr>sled_faults := False # fs\<rparr>) =
    (Done (Inr (typed_view ck cv (b name) k)), (in_memory c w b)\<lparr>sled_faults := fs\<rparr>)"
  "db_insert T k v ((in_memory c w b)\<lparr>sled_faults := False # fs\<rparr>) =
    (Done (Inr (typed_view ck cv (b name) k)),
     (tree_wr T ((typed_view ck cv (b name))(k \<mapsto> v)) (in_memory c w b))\<lparr>sled_faults := fs\<rparr>)"
  "db_remove T k ((in_memory c w b)\<lparr>sled_faults := False # fs\<rparr>) =
    (Done (Inr (typed_view ck cv (b name) k)),
     (tree_wr T ((typed_view ck cv (b name))(k := None)) (in_memory c w b))\<lparr>sled_faults := fs\<rparr>)"
  "db_apply_batch T kvs ((in_memory c w b)\<lparr>sled_faults := False # fs\<rparr>) =
    (Done (Inr ()), (tree_wr T (typed_view ck cv (b name) ++ map_of (rev kvs)) (in_memory c w b))\<lparr>sled_faults := fs\<rparr>)"
  by (simp_all add: db_defs sled_call_def faults_law read_law)

lemma call_fails:
  "db_contains_key T k ((in_memory c w b)\<lparr>sled_faults := True # fs\<rparr>) =
    (Done (Inl SledError), (in_memory c w b)\<lparr>sled_faults := fs\<rparr>)"
  "db_get T k ((in_memory c w b)\<lparr>sled_faults := True # fs\<rparr>) =
    (Done (Inl SledError), (in_memory c w b)\<lparr>sled_faults := fs\<rparr>)"
  "db_insert T k v ((in_memory c w b)\<lparr>sled_faults := True # fs\<rparr>) =
    (Done (Inl SledError), (in_memory c w b)\<lparr>sled_faults := fs\<rparr>)"
  "db_remove T k ((in_memory c w b)\<lparr>sled_faults := True # fs\<rparr>) =
    (Done (Inl SledError), (in_memory c w b)\<lparr>sled_faults := fs\<rparr>)"
  "db_apply_batch T kvs ((in_memory c w b)\<lparr>sled_faults := True # fs\<rparr>) =
    (Done (Inl SledError), (in_memory c w b)\<lparr>sled_faults := fs\<rparr>)"
  by (simp_all add: db_defs sled_call_def)

text \<open>A change of this tree alone is a write of \<open>T\<close>, and keeps the database well kept.\<close>

lemma changed:
  assumes "codecs_ok c" "well_kept c (m d)" "others_same m name d d'" "well_encoded ck cv (m d' name)"
    and "typed_view ck cv (m d' name) = x" "finite (dom x)"
  shows "well_kept c (m d') \<and> in_memory c w (m d') = tree_wr T x (in_memory c w (m d))"
proof -
  have same: "m d' n = m d n" if "n \<noteq> name" for n using assms(3) that by (simp add: others_same_def)
  have "kept_tree ck cv (m d' name)"
    using kept_treeI codecs_law [OF assms(1)] assms(4-6) by blast
  with keep_law [OF assms(2), of "m d'"] same have "well_kept c (m d')" by blast
  moreover have "in_memory c w (m d') = tree_wr T (typed_view ck cv (m d' name)) (in_memory c w (m d))"
    by (rule write_law) (rule same)
  ultimately show ?thesis using assms(5) by simp
qed

lemma slot_facts:
  assumes "codecs_ok c" "well_kept c b"
  shows "codec_laws ck" "codec_sound cv" "well_encoded ck cv (b name)" "finite (dom (b name))"
    "finite (dom (typed_view ck cv (b name)))"
  using codecs_law [OF assms(1)] kept_treeD kept_law [OF assms(2)] by blast+

lemma unchanged: "tree_wr T (typed_view ck cv (b name)) (in_memory c w b) = in_memory c w b"
  using write_law [of b b w] by simp

text \<open>A method that is one call of sled: it fails and changes nothing, or has the value and the effect of the typed call.\<close>

lemma one_call:
  assumes "codecs_ok c" "well_kept c (m d)"
    and "wp M (\<lambda>r d'. case r of Inl e \<Rightarrow> m d' name = m d name
      | Inr y \<Rightarrow> y = x \<and> well_encoded ck cv (m d' name) \<and> typed_view ck cv (m d' name) = v) (\<lambda>_. False) d"
    and "wp M (\<lambda>_. others_same m name d) (others_same m name d) d" "finite (dom v)"
    and "\<And>fs. N ((in_memory c w (m d))\<lparr>sled_faults := False # fs\<rparr>) =
      (Done (Inr x), (tree_wr T v (in_memory c w (m d)))\<lparr>sled_faults := fs\<rparr>)"
    and "\<And>fs. N ((in_memory c w (m d))\<lparr>sled_faults := True # fs\<rparr>) =
      (Done (Inl SledError), (in_memory c w (m d))\<lparr>sled_faults := fs\<rparr>)"
  shows "follows (\<lambda>d. in_memory c w (m d)) (\<lambda>d. well_kept c (m d)) M N d"
proof (rule followsI, rule wp_conseq [OF wp_both [OF assms(3,4)]], goal_cases)
  case (1 r d')
  show ?case
  proof (cases r)
    case (Inl e)
    with 1 others_eq have "m d' = m d" by auto
    with assms(2,7) Inl show ?thesis by (cases e) (auto intro!: exI [of _ "[True]"])
  next
    case (Inr y)
    with 1 changed [where m = m and d = d and d' = d' and x = v and w = w, OF assms(1,2)] assms(5,6) show ?thesis
      by (auto intro!: exI [of _ "[False]"])
  qed
qed simp

lemma contains_follows:
  assumes "codecs_ok c" "keyspace m name S"
  shows "simulates (\<lambda>d. in_memory c w (m d)) (\<lambda>d. well_kept c (m d)) (trait_contains_key S ck k) (db_contains_key T k)"
  unfolding simulates_def
proof (intro allI impI)
  fix d assume kept: "well_kept c (m d)"
  note facts = slot_facts [OF assms(1) kept]
  note found = found_iff [OF facts(2,3), of k]
  have "wp (trait_contains_key S ck k) (\<lambda>r d'. case r of Inl e \<Rightarrow> m d' name = m d name
      | Inr y \<Rightarrow> y = (typed_view ck cv (m d name) k \<noteq> None) \<and> well_encoded ck cv (m d' name) \<and>
          typed_view ck cv (m d' name) = typed_view ck cv (m d name)) (\<lambda>_. False) d"
    by (rule wp_conseq [OF trait_contains_law [OF keyspace_laws [OF assms(2)] facts(1), of k]])
      (use facts(3) found in \<open>simp_all split: sum.split\<close>)
  then show "follows (\<lambda>d. in_memory c w (m d)) (\<lambda>d. well_kept c (m d)) (trait_contains_key S ck k) (db_contains_key T k) d"
    by (rule one_call [OF assms(1) kept _ trait_frame(1) [OF assms(2)] facts(5)])
      (simp_all add: call_follows call_fails unchanged)
qed

lemma get_follows:
  assumes "codecs_ok c" "keyspace m name S"
  shows "simulates (\<lambda>d. in_memory c w (m d)) (\<lambda>d. well_kept c (m d)) (trait_get S ck cv k) (db_get T k)"
  unfolding simulates_def
proof (intro allI impI)
  fix d assume kept: "well_kept c (m d)"
  note facts = slot_facts [OF assms(1) kept]
  show "follows (\<lambda>d. in_memory c w (m d)) (\<lambda>d. well_kept c (m d)) (trait_get S ck cv k) (db_get T k) d"
    by (rule one_call [OF assms(1) kept wp_conseq [OF trait_get_law [OF keyspace_laws [OF assms(2)] facts(1-3)]]
          trait_frame(2) [OF assms(2)] facts(5)])
      (use facts in \<open>auto simp: call_follows call_fails unchanged split: sum.split\<close>)
qed

lemma insert_follows:
  assumes "codecs_ok c" "keyspace m name S" "ser cv v \<noteq> None"
  shows "simulates (\<lambda>d. in_memory c w (m d)) (\<lambda>d. well_kept c (m d)) (trait_insert S ck cv k v) (db_insert T k v)"
  unfolding simulates_def
proof (intro allI impI)
  fix d assume kept: "well_kept c (m d)"
  note facts = slot_facts [OF assms(1) kept]
  show "follows (\<lambda>d. in_memory c w (m d)) (\<lambda>d. well_kept c (m d)) (trait_insert S ck cv k v) (db_insert T k v) d"
    by (rule one_call [OF assms(1) kept wp_conseq [OF trait_insert_law [OF keyspace_laws [OF assms(2)] facts(1-3) assms(3)]]
          trait_frame(3) [OF assms(2)]])
      (use facts in \<open>auto simp: call_follows call_fails split: sum.splits\<close>)
qed

lemma remove_follows:
  assumes "codecs_ok c" "keyspace m name S"
  shows "simulates (\<lambda>d. in_memory c w (m d)) (\<lambda>d. well_kept c (m d)) (trait_remove S ck cv k) (db_remove T k)"
  unfolding simulates_def
proof (intro allI impI)
  fix d assume kept: "well_kept c (m d)"
  note facts = slot_facts [OF assms(1) kept]
  show "follows (\<lambda>d. in_memory c w (m d)) (\<lambda>d. well_kept c (m d)) (trait_remove S ck cv k) (db_remove T k) d"
    by (rule one_call [OF assms(1) kept wp_conseq [OF trait_remove_law [OF keyspace_laws [OF assms(2)] facts(1-3)]]
          trait_frame(4) [OF assms(2)]])
      (use facts in \<open>auto simp: call_follows call_fails split: sum.splits\<close>)
qed

lemma batch_follows:
  assumes "codecs_ok c" "keyspace m name S" "\<forall>(k, v)\<in>set kvs. ser cv v \<noteq> None"
  shows "simulates (\<lambda>d. in_memory c w (m d)) (\<lambda>d. well_kept c (m d))
    (and_then (encode_batch ck cv kvs) (trait_apply_batch S)) (db_apply_batch T kvs)"
  unfolding simulates_def
proof (intro allI impI)
  fix d assume kept: "well_kept c (m d)"
  note facts = slot_facts [OF assms(1) kept]
  obtain b where b: "encode_batch ck cv kvs d = (Done b, d)"
    "well_encoded ck cv (m d name ++ map_of (rev b))"
    "typed_view ck cv (m d name ++ map_of (rev b)) = typed_view ck cv (m d name) ++ map_of (rev kvs)"
    using encode_batch_run [OF facts(1,2) assms(3), of d] facts(3) by blast
  have run: "wp (and_then (encode_batch ck cv kvs) (trait_apply_batch S)) Q E d = wp (sl_apply_batch S b) Q E d" for Q E
    using b(1) by (simp add: wp_def and_then_def trait_apply_batch_def)
  have "wp (and_then (encode_batch ck cv kvs) (trait_apply_batch S))
      (\<lambda>r d'. case r of Inl e \<Rightarrow> m d' name = m d name
        | Inr y \<Rightarrow> y = () \<and> well_encoded ck cv (m d' name) \<and>
            typed_view ck cv (m d' name) = typed_view ck cv (m d name) ++ map_of (rev kvs)) (\<lambda>_. False) d"
    unfolding run
    by (rule wp_conseq [OF sled_laws_wp(6) [OF keyspace_laws [OF assms(2)], of b d]]) (use b in \<open>auto split: sum.splits\<close>)
  then show "follows (\<lambda>d. in_memory c w (m d)) (\<lambda>d. well_kept c (m d))
      (and_then (encode_batch ck cv kvs) (trait_apply_batch S)) (db_apply_batch T kvs) d"
    by (rule one_call [OF assms(1) kept _ trait_frame(7) [OF assms(2)]])
      (use facts in \<open>simp_all add: call_follows call_fails finite_dom_map_of\<close>)
qed

lemma get_or_insert_calls:
  "db_get_or_insert T k v ((in_memory c w b)\<lparr>sled_faults := True # fs\<rparr>) =
    (Done (Inl SledError), (in_memory c w b)\<lparr>sled_faults := fs\<rparr>)"
  "typed_view ck cv (b name) k = Some y \<Longrightarrow> db_get_or_insert T k v ((in_memory c w b)\<lparr>sled_faults := False # fs\<rparr>) =
    (Done (Inr y), (in_memory c w b)\<lparr>sled_faults := fs\<rparr>)"
  "typed_view ck cv (b name) k = None \<Longrightarrow>
    db_get_or_insert T k v ((in_memory c w b)\<lparr>sled_faults := False # False # fs\<rparr>) =
    (Done (Inr v), (tree_wr T ((typed_view ck cv (b name))(k \<mapsto> v)) (in_memory c w b))\<lparr>sled_faults := fs\<rparr>)"
  "typed_view ck cv (b name) k = None \<Longrightarrow>
    db_get_or_insert T k v ((in_memory c w b)\<lparr>sled_faults := False # True # fs\<rparr>) =
    (Panic, (in_memory c w b)\<lparr>sled_faults := fs\<rparr>)"
  by (simp_all add: db_get_or_insert_def and_then_def call_follows call_fails unwrapped_def unwrap_res_def
      ret_def panic_def)

lemma get_or_insert_follows:
  assumes "codecs_ok c" "keyspace m name S" "ser cv v \<noteq> None"
  shows "simulates (\<lambda>d. in_memory c w (m d)) (\<lambda>d. well_kept c (m d))
    (trait_get_or_insert S ck cv k v) (db_get_or_insert T k v)"
  unfolding simulates_def
proof (intro allI impI followsI)
  fix d assume kept: "well_kept c (m d)"
  note facts = slot_facts [OF assms(1) kept]
  note change = changed [where m = m and d = d and w = w, OF assms(1) kept]
  note law = wp_both [OF trait_get_or_insert_law [OF keyspace_laws [OF assms(2)] facts(1-3) assms(3)]
      trait_frame(5) [OF assms(2)]]
  show "wp (trait_get_or_insert S ck cv k v)
    (\<lambda>r d'. well_kept c (m d') \<and> (\<exists>fs. \<forall>fs'. db_get_or_insert T k v ((in_memory c w (m d))\<lparr>sled_faults := fs @ fs'\<rparr>) =
      (Done r, (in_memory c w (m d'))\<lparr>sled_faults := fs'\<rparr>)))
    (\<lambda>d'. well_kept c (m d') \<and> (\<exists>fs. \<forall>fs'. db_get_or_insert T k v ((in_memory c w (m d))\<lparr>sled_faults := fs @ fs'\<rparr>) =
      (Panic, (in_memory c w (m d'))\<lparr>sled_faults := fs'\<rparr>))) d"
  proof (rule wp_conseq [OF law], goal_cases)
    case (1 r d')
    show ?case
    proof (cases r)
      case (Inl e)
      with 1 others_eq have "m d' = m d" by auto
      with kept Inl show ?thesis by (cases e) (auto simp: get_or_insert_calls intro!: exI [of _ "[True]"])
    next
      case (Inr x)
      with 1 change [of d' "(typed_view ck cv (m d name))(k \<mapsto> x)"] facts(5)
      have new: "well_kept c (m d')"
        "in_memory c w (m d') = tree_wr T ((typed_view ck cv (m d name))(k \<mapsto> x)) (in_memory c w (m d))" by auto
      show ?thesis
      proof (cases "typed_view ck cv (m d name) k")
        case None
        with 1 Inr have "x = v" by simp
        with new Inr None show ?thesis by (auto simp: get_or_insert_calls intro!: exI [of _ "[False, False]"])
      next
        case (Some y)
        with 1 Inr have "x = y" by simp
        with new Inr Some show ?thesis
          by (auto simp: get_or_insert_calls fun_upd_idem unchanged intro!: exI [of _ "[False]"])
      qed
    qed
  next
    case (2 d')
    with others_eq have "m d' = m d" by auto
    with kept 2 show ?case by (auto simp: get_or_insert_calls intro!: exI [of _ "[False, True]"])
  qed
qed

text \<open>Reading all of a tree: the faults fill the list up to the number of entries.\<close>

lemma faulty_items_prefix:
  "\<exists>gs. length gs = length es \<and> (\<forall>fs'. faulty_items (gs @ fs') es = faulty_items fs es)"
proof (induction fs es rule: faulty_items.induct)
  case (2 x xs)
  then obtain gs where "length gs = length xs" "\<forall>fs'. faulty_items (gs @ fs') xs = faulty_items [] xs" by blast
  then show ?case by (auto intro!: exI [of _ "False # gs"])
next
  case (3 f fs x xs)
  then obtain gs where "length gs = length xs" "\<forall>fs'. faulty_items (gs @ fs') xs = faulty_items fs xs" by blast
  then show ?case by (auto intro!: exI [of _ "f # gs"])
qed simp

lemma iter_follows:
  assumes "codecs_ok c" "keyspace m name S" "well_kept c (m d)"
  shows "\<exists>ks. enumerates ks (tree_rd T (in_memory c w (m d))) \<and>
    follows (\<lambda>d. in_memory c w (m d)) (\<lambda>d. well_kept c (m d)) (trait_iter S ck cv) (db_iter T ks) d"
proof (intro exI conjI)
  note facts = slot_facts [OF assms(1,3)]
  show "enumerates (key_order ck (m d name)) (tree_rd T (in_memory c w (m d)))"
    using key_order_all [OF facts(1-4)] by (simp add: enumerates_def read_law)
  let ?es = "entries (key_order ck (m d name)) (typed_view ck cv (m d name))"
  show "follows (\<lambda>d. in_memory c w (m d)) (\<lambda>d. well_kept c (m d)) (trait_iter S ck cv)
      (db_iter T (key_order ck (m d name))) d"
  proof (rule followsI, rule wp_conseq [OF wp_both [OF trait_iter_exact [OF keyspace_laws [OF assms(2)] facts(1-4)]
          trait_frame(6) [OF assms(2)]]], goal_cases)
    case (1 r d')
    with others_eq have same: "m d' = m d" by auto
    from 1 obtain fs where r: "r = faulty_items fs ?es" by auto
    obtain gs where gs: "length gs = length ?es" "\<And>fs'. faulty_items (gs @ fs') ?es = faulty_items fs ?es"
      using faulty_items_prefix by metis
    have "db_iter T (key_order ck (m d name)) ((in_memory c w (m d))\<lparr>sled_faults := gs @ fs'\<rparr>) =
        (Done r, (in_memory c w (m d))\<lparr>sled_faults := fs'\<rparr>)" for fs'
      using gs r by (simp add: db_iter_def Let_def faults_law read_law)
    with same assms(3) show ?case by auto
  qed simp
qed

lemma slot_implements:
  assumes "codecs_ok c" "keyspace m name S"
  shows "implements (\<lambda>d. in_memory c w (m d)) (\<lambda>d. well_kept c (m d)) S ck cv T"
  unfolding implements_def
  by (intro conjI allI impI)
    (rule contains_follows [OF assms] get_follows [OF assms] insert_follows [OF assms] remove_follows [OF assms]
      get_or_insert_follows [OF assms] batch_follows [OF assms] iter_follows [OF assms]; assumption)+

end

text \<open>All eight trees are such parts.\<close>

lemmas slot_defs = codecs_ok_def in_memory_def store_defs well_kept_def codec_laws_sound

interpretation auth_slot: tree_slot c AuthDB "''auth_db''" "cd_string c" "cd_user c" for c
  by unfold_locales (auto simp: slot_defs)

interpretation cookie_slot: tree_slot c CookieDB "''cookie_db''" "cd_string c" "cd_cookie c" for c
  by unfold_locales (auto simp: slot_defs)

interpretation money_slot: tree_slot c MoneyDB "''money_db''" "cd_string c" "cd_money c" for c
  by unfold_locales (auto simp: slot_defs)

interpretation captcha_slot: tree_slot c CaptchaDB "''captcha_db''" "cd_hash c" "cd_captcha c" for c
  by unfold_locales (auto simp: slot_defs)

interpretation software_slot: tree_slot c SoftwareDB "''software_db''" "cd_u64 c" "cd_item c" for c
  by unfold_locales (auto simp: slot_defs)

interpretation upload_id_slot: tree_slot c UploadIdDB "''upload_id_db''" "cd_hash c" "cd_u64 c" for c
  by unfold_locales (auto simp: slot_defs)

interpretation download_count_slot: tree_slot c DownloadCountDB "''download_count_db''" "cd_u64 c" "cd_downloads c" for c
  by unfold_locales (auto simp: slot_defs)

interpretation software_ownership_slot: tree_slot c SoftwareOwnershipDB "''software_ownership_db''" "cd_string c" "cd_ownership c" for c
  by unfold_locales (auto simp: slot_defs)

subsection \<open>The trees \<open>main\<close> opens are the trees of the picture\<close>

lemma open_tree_wp:
  assumes "database_laws D m"
  shows "wp (open_tree D name) (\<lambda>S d'. m d' = m d \<and> keyspace m name S) (\<lambda>d'. m d' = m d) d"
proof -
  have "wp (sd_open_tree D name) (\<lambda>r d'. m d' = m d \<and> (\<forall>S. r = Inr S \<longrightarrow> keyspace m name S)) (\<lambda>_. False) d"
    using assms by (simp add: database_laws_def)
  then show ?thesis
    unfolding open_tree_def wp_unwrapped by (rule wp_conseq) (auto simp: wp_rules split: sum.split)
qed

lemma open_tree_step:
  assumes "database_laws D m" "m d = m d0"
    and "\<And>S d'. m d' = m d0 \<Longrightarrow> keyspace m name S \<Longrightarrow> wp (f S) Q (\<lambda>d'. m d' = m d0) d'"
  shows "wp (and_then (open_tree D name) f) Q (\<lambda>d'. m d' = m d0) d"
  unfolding wp_and_then by (rule wp_conseq [OF open_tree_wp [OF assms(1)]]) (use assms(2,3) in auto)

definition all_implement :: "codecs \<Rightarrow> ('d \<Rightarrow> world) \<Rightarrow> ('d \<Rightarrow> bool) \<Rightarrow> 'd trees \<Rightarrow> bool" where
  "all_implement c pic good ts \<longleftrightarrow>
    implements pic good (tr_auth ts) (cd_string c) (cd_user c) AuthDB \<and>
    implements pic good (tr_cookie ts) (cd_string c) (cd_cookie c) CookieDB \<and>
    implements pic good (tr_money ts) (cd_string c) (cd_money c) MoneyDB \<and>
    implements pic good (tr_captcha ts) (cd_hash c) (cd_captcha c) CaptchaDB \<and>
    implements pic good (tr_software ts) (cd_u64 c) (cd_item c) SoftwareDB \<and>
    implements pic good (tr_upload_id ts) (cd_hash c) (cd_u64 c) UploadIdDB \<and>
    implements pic good (tr_download_count ts) (cd_u64 c) (cd_downloads c) DownloadCountDB \<and>
    implements pic good (tr_software_ownership ts) (cd_string c) (cd_ownership c) SoftwareOwnershipDB"

lemmas slots_implement = auth_slot.slot_implements cookie_slot.slot_implements money_slot.slot_implements
  captcha_slot.slot_implements software_slot.slot_implements upload_id_slot.slot_implements
  download_count_slot.slot_implements software_ownership_slot.slot_implements

text \<open>
  C13: \<open>main\<close> opens the eight trees of one sled database by name, and each handle is the typed tree the handlers are
  written over. Whatever the database holds, opening changes none of it, even when one of the trees cannot be opened and the
  server panics; and if it holds only what the trait wrote, then every method of the trait on a handle (contains, get,
  insert, remove, get_or_insert, a batch encoded and applied, and reading the whole tree in sled's order) does to the bytes
  what the typed operation does to that one tree of the picture, with the same value, error or panic, leaves the other seven
  trees as they are, and keeps the database such that this goes on.
\<close>

theorem trees_refine:
  assumes "database_laws D m" "codecs_ok c"
  shows "wp (open_trees D)
    (\<lambda>ts d. m d = m d0 \<and> all_implement c (\<lambda>d. in_memory c w (m d)) (\<lambda>d. well_kept c (m d)) ts)
    (\<lambda>d. m d = m d0) d0"
  unfolding open_trees_def
  by (rule open_tree_step [OF assms(1)], (rule refl | assumption))+
    (simp add: wp_rules all_implement_def slots_implement [OF assms(2)])

subsection \<open>A database that keeps the promises\<close>

text \<open>A database kept as maps, and codecs that number the values.\<close>

definition at_name :: "string \<Rightarrow> (bytes \<rightharpoonup> bytes, 'a) eff \<Rightarrow> (string \<Rightarrow> bytes \<rightharpoonup> bytes, 'a) eff" where
  "at_name name f d = (case f (d name) of (r, t) \<Rightarrow> (r, d(name := t)))"

definition map_handle :: "string \<Rightarrow> (string \<Rightarrow> bytes \<rightharpoonup> bytes) sled_api" where
  "map_handle name = \<lparr>
    sl_contains_key = (\<lambda>k. at_name name (sl_contains_key map_tree k)),
    sl_get = (\<lambda>k. at_name name (sl_get map_tree k)),
    sl_insert = (\<lambda>k v. at_name name (sl_insert map_tree k v)),
    sl_remove = (\<lambda>k. at_name name (sl_remove map_tree k)),
    sl_iter = at_name name (sl_iter map_tree),
    sl_apply_batch = (\<lambda>b. at_name name (sl_apply_batch map_tree b)),
    sl_flush = at_name name (sl_flush map_tree)\<rparr>"

definition map_db :: "(string \<Rightarrow> bytes \<rightharpoonup> bytes) sled_db" where
  "map_db = \<lparr>sd_open_tree = (\<lambda>name. ret (Inr (map_handle name)))\<rparr>"

lemma at_name_wp:
  "wp (at_name name f) Q E d = wp f (\<lambda>r t. Q r (d(name := t))) (\<lambda>t. E (d(name := t))) (d name)"
  by (simp add: wp_def at_name_def split: prod.split outcome.split)

lemma at_name_others: "wp (at_name name f) (\<lambda>_. others_same (\<lambda>d. d) name d) (others_same (\<lambda>d. d) name d) d"
  by (auto simp: at_name_def others_same_def wp_def split: prod.split outcome.split)

lemma map_handle_laws: "keyspace (\<lambda>d. d) name (map_handle name)"
proof -
  have "sled_laws (map_handle name) (\<lambda>d. d name)"
    using map_tree_laws unfolding sled_laws_def by (simp add: map_handle_def at_name_wp cong: sum.case_cong)
  then show ?thesis by (simp add: keyspace_def map_handle_def Let_def at_name_others)
qed

lemma map_db_laws: "database_laws map_db (\<lambda>d. d)"
  by (simp add: database_laws_def map_db_def wp_rules map_handle_laws)

definition numbered :: "('a \<Rightarrow> bool) \<Rightarrow> ('a \<Rightarrow> 'b::countable) \<Rightarrow> ('b \<Rightarrow> 'a) \<Rightarrow> 'a codec" where
  "numbered P f g = \<lparr>ser = (\<lambda>x. if P x then Some (replicate (to_nat (f x)) 0) else None),
     de = (\<lambda>b. Some (g (from_nat (length b))))\<rparr>"

lemma numbered_sound: "(\<And>x. P x \<Longrightarrow> g (f x) = x) \<Longrightarrow> codec_sound (numbered P f g)"
  by (auto simp: codec_sound_def numbered_def split: if_splits)

lemma numbered_laws: "(\<And>x. g (f x) = x) \<Longrightarrow> codec_laws (numbered (\<lambda>_. True) f g)"
  by (simp add: codec_laws_def numbered_def)

definition listed :: "('k::linorder \<rightharpoonup> 'v) \<Rightarrow> ('k \<times> 'v) list" where
  "listed m = entries (sorted_list_of_set (dom m)) m"

lemma listed_all: "finite (dom m) \<Longrightarrow> map_of (listed m) = m"
  by (simp add: listed_def enumerates_def map_of_entries_all)

type_synonym transfer_fields = "address \<times> u64 \<times> u64 \<times> u64 \<times> bool \<times> u64 \<times> u64 \<times> u64"

definition of_transfer :: "transfer \<Rightarrow> transfer_fields" where
  "of_transfer t = (tr_address t, tr_amount t, tr_fee t, tr_confirmations t, tr_double_spend_seen t,
     tr_height t, tr_addr_index t, tr_unlock_time t)"

fun to_transfer :: "transfer_fields \<Rightarrow> transfer" where
  "to_transfer (a, b, c, d, e, f, g, h) = \<lparr>tr_address = a, tr_amount = b, tr_fee = c, tr_confirmations = d,
     tr_double_spend_seen = e, tr_height = f, tr_addr_index = g, tr_unlock_time = h\<rparr>"

lemma to_transfer_of [simp]: "to_transfer (of_transfer t) = t"
  by (simp add: of_transfer_def)

instance currency_amount :: countable by countable_datatype
instance item_price :: countable by countable_datatype
instance arch_type :: countable by countable_datatype
instance compression_type :: countable by countable_datatype

definition example_codecs :: codecs where
  "example_codecs = \<lparr>
    cd_string = numbered (\<lambda>_. True) id id,
    cd_hash = numbered (\<lambda>_. True) id id,
    cd_u64 = numbered (\<lambda>_. True) id id,
    cd_user = numbered (\<lambda>_. True) (\<lambda>u. (us_username u, us_salt u, us_hashed_password u))
      (\<lambda>(a, b, c). \<lparr>us_username = a, us_salt = b, us_hashed_password = c\<rparr>),
    cd_cookie = numbered (\<lambda>_. True) (\<lambda>a. (ac_username a, ac_cookie a, ac_creation_time a, ac_expiration_time a))
      (\<lambda>(a, b, c, d). \<lparr>ac_username = a, ac_cookie = b, ac_creation_time = c, ac_expiration_time = d\<rparr>),
    cd_money = numbered (\<lambda>_. True)
      (\<lambda>f. (fi_xmr_addr f, fi_deposit_addr f, ts_addr_index (fi_transfers f), map of_transfer (ts_in (fi_transfers f)),
        map of_transfer (ts_out (fi_transfers f)), fi_balance f, fi_pending_balance f, fi_service_fee_total f, fi_amount_spent f))
      (\<lambda>(a, b, c, d, e, f, g, h, i). \<lparr>fi_xmr_addr = a, fi_deposit_addr = b,
        fi_transfers = \<lparr>ts_addr_index = c, ts_in = map to_transfer d, ts_out = map to_transfer e\<rparr>,
        fi_balance = f, fi_pending_balance = g, fi_service_fee_total = h, fi_amount_spent = i\<rparr>),
    cd_captcha = numbered (\<lambda>_. True) (\<lambda>g. (gc_creation_time g, gc_expiration_time g, gc_answer g, gc_image g))
      (\<lambda>(a, b, c, d). \<lparr>gc_creation_time = a, gc_expiration_time = b, gc_answer = c, gc_image = d\<rparr>),
    cd_item = numbered (\<lambda>i. finite (dom (it_files i)))
      (\<lambda>i. (it_id i, it_title i, it_creator i, it_description i, it_arch_type i, it_compressed_size i, it_price i,
        it_compression_type i, listed (it_files i), it_upload_id i, it_creation_time i, it_title_image_hash i))
      (\<lambda>(a, b, c, d, e, f, g, h, i, j, k, l). \<lparr>it_id = a, it_title = b, it_creator = c, it_description = d,
        it_arch_type = e, it_compressed_size = f, it_price = g, it_compression_type = h, it_files = map_of i,
        it_upload_id = j, it_creation_time = k, it_title_image_hash = l\<rparr>),
    cd_downloads = numbered (\<lambda>_. True) (map (\<lambda>s. (case sd_time s of UnixTimeUTC t \<Rightarrow> t, sd_username s)))
      (map (\<lambda>(t, u). \<lparr>sd_time = UnixTimeUTC t, sd_username = u\<rparr>)),
    cd_ownership = numbered (\<lambda>_. True) listed map_of\<rparr>"

lemma example_codecs_ok: "codecs_ok example_codecs"
  unfolding codecs_ok_def example_codecs_def
  by (auto intro!: numbered_sound numbered_laws map_idI split: unix_time.split
      simp: listed_all o_def)

text \<open>An empty database opens.\<close>

theorem trees_refine_witness:
  "\<forall>w. wp (open_trees map_db) (\<lambda>ts d. d = (\<lambda>_. Map.empty) \<and> all_implement example_codecs
      (\<lambda>d. in_memory example_codecs w d) (\<lambda>d. well_kept example_codecs d) ts)
    (\<lambda>d. d = (\<lambda>_. Map.empty)) (\<lambda>_. Map.empty)"
  by (rule allI, rule trees_refine [OF map_db_laws example_codecs_ok])

end
