(* ===== verification/Auth.thy ===== *)
theory Auth
  imports State
begin

section \<open>Accounts, sessions and logins: src/auth.rs\<close>

text \<open>
  Registration, login, session cookies and their expiry. Randomness (the salt, the cookie's
  50 characters) is an argument of the handlers. The 100 ms both handlers last at least is
  timing only and not modelled.
\<close>

definition RESERVED_USERNAMES :: "string list" where
  "RESERVED_USERNAMES = [''admin'', ''root'', ''0xd34db33f'', ''d34db33f'']"

definition MIN_USER_LEN :: nat where
  "MIN_USER_LEN = 4"

definition MAX_USER_LEN :: nat where
  "MAX_USER_LEN = 50"

record auth_request =
  ar_username :: string
  ar_password :: string
  ar_captcha_hash :: string
  ar_captcha_answer :: string

record auth_req_response =
  aq_username :: string
  aq_cookie :: string
  aq_exp_time :: u64

text \<open>\<open>BincodeErr\<close> is in the source's enum, but no call of the code makes one.\<close>

datatype gen_auth_cookie_err = UserDoesntExist | DbErr sled_error | BincodeErr string

datatype InvalidUserReason = UsernameLenIncorrect | NotAlphanumeric | ReservedUsername

fun reason_to_string :: "InvalidUserReason \<Rightarrow> string" where
  "reason_to_string UsernameLenIncorrect =
     ''The username given is too short! (Must be between 4 and 50 long''"
| "reason_to_string NotAlphanumeric = ''The username given is not alphanumeric''"
| "reason_to_string ReservedUsername =
     ''The username given is one of the following reserved usernames: [\"admin\", \"root\", \"0xd34db33f\", \"d34db33f\"]''"

definition invalid_user_reason :: "env \<Rightarrow> string \<Rightarrow> InvalidUserReason option" where
  "invalid_user_reason env username =
     (if length username < MIN_USER_LEN \<or> MAX_USER_LEN < length username
      then Some UsernameLenIncorrect
      else if \<not> ev_alphanumeric env username then Some NotAlphanumeric
      else if ev_to_lowercase env username \<in> set RESERVED_USERNAMES then Some ReservedUsername
      else None)"

definition hash_password :: "env \<Rightarrow> bytes \<Rightarrow> bytes \<Rightarrow> bytes" where
  "hash_password env password salt = ev_blake3 env (password @ salt)"

definition verify_hash :: "env \<Rightarrow> bytes \<Rightarrow> bytes \<Rightarrow> bytes \<Rightarrow> bool" where
  "verify_hash env password salt hash = (hash_password env password salt = hash)"

definition verify_auth_cookie :: "string \<Rightarrow> string \<Rightarrow> (world, bool) eff" where
  "verify_auth_cookie username cookie = and_then (unwrapped (db_get CookieDB username)) (\<lambda>c.
     ret (case c of Some auth_cookie \<Rightarrow> ac_cookie auth_cookie = cookie | None \<Rightarrow> False))"

definition NINETY_DAYS_AS_SECS :: u64 where
  "NINETY_DAYS_AS_SECS = 7776000"

definition generate_auth_cookie ::
    "string \<Rightarrow> string \<Rightarrow> (world, gen_auth_cookie_err + auth_cookie) eff" where
  "generate_auth_cookie cookie username = and_then (db_contains_key AuthDB username) (\<lambda>known.
     case known of
       Inl e \<Rightarrow> ret (Inl (DbErr e))
     | Inr False \<Rightarrow> ret (Inl UserDoesntExist)
     | Inr True \<Rightarrow> and_then now_u64 (\<lambda>creation_time.
         let auth_cookie = \<lparr>ac_username = username, ac_cookie = cookie,
           ac_creation_time = creation_time,
           ac_expiration_time = creation_time + NINETY_DAYS_AS_SECS\<rparr> in
         and_then (db_insert CookieDB (ac_username auth_cookie) auth_cookie) (\<lambda>r. case r of
             Inl e \<Rightarrow> ret (Inl (DbErr e))
           | Inr _ \<Rightarrow> ret (Inr auth_cookie))))"

definition debug_cookie_err :: "env \<Rightarrow> gen_auth_cookie_err \<Rightarrow> string" where
  "debug_cookie_err env err = (case err of
      UserDoesntExist \<Rightarrow> ''UserDoesntExist''
    | DbErr e \<Rightarrow> ''DbErr('' @ ev_debug_sled_error env e @ '')''
    | BincodeErr e \<Rightarrow> ''BincodeErr('' @ e @ '')'')"

definition auth_cookie_result_to_response ::
    "env \<Rightarrow> string \<Rightarrow> gen_auth_cookie_err + auth_cookie \<Rightarrow> ip_addr option \<Rightarrow> bool \<Rightarrow>
     (world, auth_req_response response) eff" where
  "auth_cookie_result_to_response env username auth_cookie socket_addr login =
     and_then (case auth_cookie of
         Inl err \<Rightarrow> and_then
           (log_from socket_addr (Some username)
             (case err of
                UserDoesntExist \<Rightarrow> (if login then Login False else Registration False)
              | DbErr _ \<Rightarrow> ServerError
              | BincodeErr _ \<Rightarrow> ServerError)
             LogAuth (debug_cookie_err env err) Low)
           (\<lambda>_. ret (case err of
               UserDoesntExist \<Rightarrow> UNAUTHORIZED
             | DbErr _ \<Rightarrow> INTERNAL_SERVER_ERROR
             | BincodeErr _ \<Rightarrow> INTERNAL_SERVER_ERROR))
       | Inr _ \<Rightarrow> and_then
           (log_from socket_addr (Some username)
             (if login then Login True else Registration True) LogAuth [] Low)
           (\<lambda>_. ret OK))
     (\<lambda>status_code. ret (case auth_cookie of
         Inr c \<Rightarrow> answer status_code
           \<lparr>aq_username = username, aq_cookie = ac_cookie c, aq_exp_time = ac_expiration_time c\<rparr>
       | Inl _ \<Rightarrow> deny Server ''Internal Server Error'' [] INTERNAL_SERVER_ERROR))"

text \<open>
  The captcha test of \<open>register\<close> and \<open>login\<close>: a right answer takes the captcha out of the
  database; the second \<open>unwrap\<close> of the removal panics if it is gone by then.
\<close>

definition check_captcha :: "bytes \<Rightarrow> string \<Rightarrow> (world, bool) eff" where
  "check_captcha captcha_hash guess =
     and_then (to_array32 captcha_hash) (\<lambda>key.
     and_then (unwrapped (db_get CaptchaDB key)) (\<lambda>found. case found of
         Some captcha \<Rightarrow>
           (if guess = gc_answer captcha
            then and_then (to_array32 captcha_hash) (\<lambda>key.
                 and_then (unwrapped (db_remove CaptchaDB key)) (\<lambda>old.
                 and_then (unwrap_opt old) (\<lambda>_. ret True)))
            else ret False)
       | None \<Rightarrow> ret False))"

definition register ::
    "env \<Rightarrow> ('v, 'h, 'b, 'tx) wallet \<Rightarrow> bytes \<Rightarrow> string \<Rightarrow> auth_request \<Rightarrow> ip_addr option \<Rightarrow>
     (world, auth_req_response response) eff" where
  "register env wallet salt cookie auth_req socket_addr =
     (let username = ev_to_lowercase env (ar_username auth_req) in
      and_then (unwrapped (db_contains_key AuthDB username)) (\<lambda>taken.
      if taken then
        and_then (log_from socket_addr (Some username) (Registration False) LogAuth
          ''Username already registered'' Low) (\<lambda>_.
        ret (deny User ''Username already registered'' [] CONFLICT))
      else case ev_hex_decode env (as_bytes (ar_captcha_hash auth_req)) of
        None \<Rightarrow> ret (deny User ''Invalid hex string'' [] BAD_REQUEST)
      | Some captcha_hash \<Rightarrow>
        (case invalid_user_reason env username of
          Some reason \<Rightarrow>
            and_then (log_from socket_addr (Some username) (Registration False) LogAuth
              (reason_to_string reason) Low) (\<lambda>_.
            ret (deny User (reason_to_string reason) [] BAD_REQUEST))
        | None \<Rightarrow>
            and_then (check_captcha captcha_hash (ar_captcha_answer auth_req)) (\<lambda>correct_captcha.
            if \<not> correct_captcha then ret (deny User ''Incorrect captcha'' [] UNAUTHORIZED)
            else and_then (lift_outcome (wallet_create_address wallet username)) (\<lambda>create_acc_res.
              let hashed_password = hash_password env (as_bytes (ar_password auth_req)) salt in
              case create_acc_res of
                Inl err \<Rightarrow>
                  and_then (log_from socket_addr (Some username) (Registration False) LogAuth
                    ''Internal Server Error'' High) (\<lambda>_.
                  ret (deny Server ''Internal Server Error''
                    (''Error creating financial account due to '' @ ev_debug_wallet_error env err)
                    INTERNAL_SERVER_ERROR))
              | Inr (addr, addr_index) \<Rightarrow>
                  and_then (unwrapped (db_insert AuthDB username
                    \<lparr>us_username = username, us_salt = salt, us_hashed_password = hashed_password\<rparr>)) (\<lambda>_.
                  and_then (unwrapped (db_insert MoneyDB username (financial_info_new addr_index addr))) (\<lambda>_.
                  and_then (generate_auth_cookie cookie username) (\<lambda>c.
                  auth_cookie_result_to_response env username c socket_addr False))))))))"

definition login ::
    "env \<Rightarrow> string \<Rightarrow> auth_request \<Rightarrow> ip_addr option \<Rightarrow> (world, auth_req_response response) eff" where
  "login env cookie auth_req socket_addr =
     (let username = ev_to_lowercase env (ar_username auth_req);
          wrong_user_or_pass_resp = deny User ''Wrong username or password'' [] UNAUTHORIZED in
      and_then (unwrap_opt socket_addr) (\<lambda>ip.
      and_then (log_new (Some username) ip (Login False) LogAuth ''Wrong username or password'' Low) (\<lambda>denial_log.
      and_then (unwrapped (db_get AuthDB username)) (\<lambda>found. case found of
        Some user_info \<Rightarrow>
          and_then (unwrap_opt (ev_hex_decode env (as_bytes (ar_captcha_hash auth_req)))) (\<lambda>captcha_hash.
          and_then (check_captcha captcha_hash (ar_captcha_answer auth_req)) (\<lambda>correct_captcha.
          if \<not> correct_captcha then ret (deny User ''Incorrect captcha'' [] UNAUTHORIZED)
          else if verify_hash env (as_bytes (ar_password auth_req)) (us_salt user_info) (us_hashed_password user_info)
          then and_then (generate_auth_cookie cookie username) (\<lambda>c.
               auth_cookie_result_to_response env username c socket_addr True)
          else and_then (unwrapped (log_send denial_log)) (\<lambda>_. ret wrong_user_or_pass_resp)))
      | None \<Rightarrow> and_then (unwrapped (log_send denial_log)) (\<lambda>_. ret wrong_user_or_pass_resp)))))"

text \<open>One round of \<open>destroy_expired_auth_cookies\<close>: errors are printed and passed over.\<close>

definition sweep_cookie :: "u64 \<Rightarrow> sled_error + string \<times> auth_cookie \<Rightarrow> (world, unit) eff" where
  "sweep_cookie current_time item = (case item of
      Inl _ \<Rightarrow> ret ()
    | Inr (username, auth_cookie) \<Rightarrow>
        if ac_expiration_time auth_cookie < current_time
        then and_then (db_remove CookieDB username) (\<lambda>_. ret ())
        else ret ())"

definition destroy_expired_auth_cookies :: "string list \<Rightarrow> (world, unit) eff" where
  "destroy_expired_auth_cookies ks = and_then now_u64 (\<lambda>current_time.
     and_then (db_iter CookieDB ks) (each (sweep_cookie current_time)))"

subsection \<open>What the parts do\<close>

lemmas auth_defs = check_captcha_def generate_auth_cookie_def auth_cookie_result_to_response_def
  verify_auth_cookie_def db_contains_key_def db_get_def db_insert_def db_remove_def store_defs

lemma wp_verify_auth_cookie:
  "wp (verify_auth_cookie u c) Q E w =
    (if sled_fails w then E (sled_next w)
     else Q (case cookie_db w u of Some ck \<Rightarrow> ac_cookie ck = c | None \<Rightarrow> False) (sled_next w))"
  by (simp add: auth_defs wp_rules)

text \<open>The captcha test answers whether the captcha exists with this answer, and takes it out
  exactly then.\<close>

definition captcha_ok :: "world \<Rightarrow> bytes \<Rightarrow> string \<Rightarrow> bool" where
  "captcha_ok w h guess \<longleftrightarrow> length h = OUT_LEN \<and>
    (case captcha_db w h of Some captcha \<Rightarrow> guess = gc_answer captcha | None \<Rightarrow> False)"

lemma captcha_ok_simps [simp]:
  "captcha_ok (w\<lparr>sled_faults := fs\<rparr>) = captcha_ok w" "captcha_ok (w\<lparr>log_queue := q\<rparr>) = captcha_ok w"
  by (simp_all add: captcha_ok_def fun_eq_iff)

text \<open>
  The rules below leave the bookkeeping of sled calls and the log queue open (\<open>fs\<close>, \<open>q\<close>) and
  say what happens to everything else.
\<close>

lemma wp_check_captcha:
  assumes "\<And>fs. captcha_ok w h guess \<Longrightarrow>
      Q True (w\<lparr>sled_faults := fs, captcha_db := (captcha_db w)(h := None)\<rparr>)"
    and "\<And>fs. \<not> captcha_ok w h guess \<Longrightarrow> Q False (w\<lparr>sled_faults := fs\<rparr>)"
    and "\<And>fs. E (w\<lparr>sled_faults := fs\<rparr>)" "E w"
  shows "wp (check_captcha h guess) Q E w"
  using assms by (auto simp: auth_defs wp_rules captcha_ok_def split: option.split)

definition fresh_cookie :: "string \<Rightarrow> string \<Rightarrow> int \<Rightarrow> auth_cookie" where
  "fresh_cookie u c now = \<lparr>ac_username = u, ac_cookie = c, ac_creation_time = of_int now,
    ac_expiration_time = of_int now + NINETY_DAYS_AS_SECS\<rparr>"

lemma wp_generate_auth_cookie:
  assumes "\<And>r fs. Q (Inl r) (w\<lparr>sled_faults := fs\<rparr>)"
    and "\<And>fs. auth_db w u \<noteq> None \<Longrightarrow> 0 \<le> clock w \<Longrightarrow> Q (Inr (fresh_cookie u c (clock w)))
      (w\<lparr>sled_faults := fs, cookie_db := (cookie_db w)(u \<mapsto> fresh_cookie u c (clock w))\<rparr>)"
    and "\<And>fs. E (w\<lparr>sled_faults := fs\<rparr>)"
  shows "wp (generate_auth_cookie c u) Q E w"
  using assms by (auto simp: auth_defs wp_rules Let_def fresh_cookie_def split: bool.split)

lemma wp_cookie_response:
  assumes "\<And>q ck. r = Inr ck \<Longrightarrow>
      Q (answer OK \<lparr>aq_username = u, aq_cookie = ac_cookie ck, aq_exp_time = ac_expiration_time ck\<rparr>)
        (w\<lparr>log_queue := q\<rparr>)"
    and "\<And>q e. r = Inl e \<Longrightarrow>
      Q (deny Server ''Internal Server Error'' [] INTERNAL_SERVER_ERROR) (w\<lparr>log_queue := q\<rparr>)"
    and "E w"
  shows "wp (auth_cookie_result_to_response env u r a is_login) Q E w"
  using assms
  by (cases r) (auto simp: auth_defs wp_rules wp_log_from_eq split: option.split gen_auth_cookie_err.split)

lemma wp_insert_auth:
  assumes "\<And>r fs. Q r (w\<lparr>sled_faults := fs, auth_db := (auth_db w)(u \<mapsto> v)\<rparr>)"
    and "\<And>fs. E (w\<lparr>sled_faults := fs\<rparr>)"
  shows "wp (unwrapped (db_insert AuthDB u v)) Q E w"
  using assms by (simp add: auth_defs wp_rules)

lemma wp_insert_money:
  assumes "\<And>r fs. Q r (w\<lparr>sled_faults := fs, money_db := (money_db w)(u \<mapsto> v)\<rparr>)"
    and "\<And>fs. E (w\<lparr>sled_faults := fs\<rparr>)"
  shows "wp (unwrapped (db_insert MoneyDB u v)) Q E w"
  using assms by (simp add: auth_defs wp_rules)

lemma wp_contains_auth:
  assumes "\<And>fs. Q (auth_db w u \<noteq> None) (w\<lparr>sled_faults := fs\<rparr>)" "\<And>fs. E (w\<lparr>sled_faults := fs\<rparr>)"
  shows "wp (unwrapped (db_contains_key AuthDB u)) Q E w"
  using assms by (simp add: auth_defs wp_rules)

lemma wp_get_auth:
  assumes "\<And>fs. Q (auth_db w u) (w\<lparr>sled_faults := fs\<rparr>)" "\<And>fs. E (w\<lparr>sled_faults := fs\<rparr>)"
  shows "wp (unwrapped (db_get AuthDB u)) Q E w"
  using assms by (simp add: auth_defs wp_rules)

lemma wp_log_new:
  assumes "\<And>l. Q l w" "E w"
  shows "wp (log_new u ip ev ty r p) Q E w"
  using assms by (simp add: log_new_def wp_rules)

lemma wp_send:
  assumes "\<And>q. Q () (w\<lparr>log_queue := q\<rparr>)" "E w"
  shows "wp (unwrapped (log_send l)) Q E w"
  using assms by (simp add: log_send_def wp_def unwrapped_def and_then_def ret_def panic_def)

lemmas auth_steps = wp_check_captcha wp_generate_auth_cookie wp_cookie_response wp_insert_auth
  wp_insert_money wp_contains_auth wp_get_auth wp_log_from wp_log_new wp_send

lemmas wp_control = wp_and_then wp_ret wp_panic wp_if wp_case_option wp_case_sum wp_case_prod wp_let
  wp_lift_outcome wp_unwrap_opt

text \<open>The state of a server nothing is wrong with: no sled error is coming, the logging service
  runs, the clock is past 1970.\<close>

definition healthy :: "world \<Rightarrow> bool" where
  "healthy w \<longleftrightarrow> sled_faults w = [] \<and> log_open w \<and> 0 \<le> clock w"

subsection \<open>Registration\<close>

text \<open>What a registration may do to the accounts there are: nothing.\<close>

definition keeps_accounts :: "world \<Rightarrow> world \<Rightarrow> bool" where
  "keeps_accounts w w' \<longleftrightarrow> (\<forall>k. auth_db w k \<noteq> None \<longrightarrow> auth_db w' k = auth_db w k \<and>
    money_db w' k = money_db w k \<and> cookie_db w' k = cookie_db w k)"

text \<open>
  No registration, whatever it answers and even if it panics half-way, touches the record,
  the money or the session of an account that exists already.
\<close>

lemma register_preserves_accounts:
  "keeps_accounts w (snd (register env wallet salt cookie req a w))"
proof (rule wp_final)
  show "wp (register env wallet salt cookie req a) (\<lambda>_. keeps_accounts w) (keeps_accounts w) w"
    by (auto simp: register_def wp_control Let_def keeps_accounts_def intro!: auth_steps
      split: option.splits sum.splits outcome.splits)
qed

text \<open>What a successful registration under \<open>username\<close> does: everything but the log queue.\<close>

definition registered :: "env \<Rightarrow> ('v, 'h, 'b, 'tx) wallet \<Rightarrow> bytes \<Rightarrow> string \<Rightarrow> auth_request \<Rightarrow>
    world \<Rightarrow> world \<Rightarrow> bool" where
  "registered env wallet salt cookie req w w' \<longleftrightarrow>
    (let u = ev_to_lowercase env (ar_username req) in
     \<exists>h addr i. ev_hex_decode env (as_bytes (ar_captcha_hash req)) = Some h \<and>
       captcha_ok w h (ar_captcha_answer req) \<and> auth_db w u = None \<and>
       invalid_user_reason env u = None \<and>
       wallet_create_address wallet u = Done (Inr (addr, i)) \<and>
       data w' = data (w\<lparr>captcha_db := (captcha_db w)(h := None),
         auth_db := (auth_db w)(u \<mapsto> \<lparr>us_username = u, us_salt = salt,
           us_hashed_password = ev_blake3 env (as_bytes (ar_password req) @ salt)\<rparr>),
         money_db := (money_db w)(u \<mapsto> financial_info_new i addr),
         cookie_db := (cookie_db w)(u \<mapsto> fresh_cookie u cookie (clock w))\<rparr>))"

text \<open>What the client is told: the name it is registered under, its cookie and when the session ends.\<close>

definition signup_reply :: "string \<Rightarrow> string \<Rightarrow> int \<Rightarrow> auth_req_response" where
  "signup_reply u cookie now = \<lparr>aq_username = u, aq_cookie = cookie, aq_exp_time = of_int now + NINETY_DAYS_AS_SECS\<rparr>"

lemma register_response_wp:
  "wp (register env wallet salt cookie req a) (\<lambda>resp w'. rs_status resp = OK \<longrightarrow>
    registered env wallet salt cookie req w w' \<and>
    resp = answer OK (signup_reply (ev_to_lowercase env (ar_username req)) cookie (clock w))) (\<lambda>_. True) w"
  by (auto simp: register_def wp_control Let_def registered_def data_def hash_password_def signup_reply_def fresh_cookie_def
    intro!: auth_steps split: option.splits sum.splits outcome.splits)

lemma register_success_wp:
  "wp (register env wallet salt cookie req a) (\<lambda>resp w'. rs_status resp = OK \<longrightarrow>
    registered env wallet salt cookie req w w') (\<lambda>_. True) w"
  by (rule wp_conseq [OF register_response_wp]) simp_all

text \<open>
  C9: What a successful registration means, and all it does: the lower-cased name passed the name
  check and was free, the captcha's answer was right, the wallet created a subaddress for the name; the
  user is stored with the blake3 hash of password and salt, an empty account on that subaddress
  and a session of 90 days are created, the captcha is used up, nothing else in the state
  changes but the log. The client is told the lower-cased name, the cookie of that session and its end, and is
  authorised by this name and cookie.
\<close>

theorem register_success:
  assumes "register env wallet salt cookie req a w = (Done resp, w')" "rs_status resp = OK"
  shows "registered env wallet salt cookie req w w' \<and>
    rs_body resp = Inr \<lparr>aq_username = ev_to_lowercase env (ar_username req), aq_cookie = cookie,
      aq_exp_time = of_int (clock w) + NINETY_DAYS_AS_SECS\<rparr> \<and>
    authorised w' (ev_to_lowercase env (ar_username req)) cookie"
proof -
  from wp_done [OF register_response_wp assms(1)] assms(2)
  have *: "registered env wallet salt cookie req w w'"
    and body: "rs_body resp = Inr (signup_reply (ev_to_lowercase env (ar_username req)) cookie (clock w))" by simp_all
  then obtain h addr i where "data w' = data (w\<lparr>captcha_db := (captcha_db w)(h := None),
         auth_db := (auth_db w)(ev_to_lowercase env (ar_username req) \<mapsto>
           \<lparr>us_username = ev_to_lowercase env (ar_username req), us_salt = salt,
           us_hashed_password = ev_blake3 env (as_bytes (ar_password req) @ salt)\<rparr>),
         money_db := (money_db w)(ev_to_lowercase env (ar_username req) \<mapsto> financial_info_new i addr),
         cookie_db := (cookie_db w)(ev_to_lowercase env (ar_username req) \<mapsto>
           fresh_cookie (ev_to_lowercase env (ar_username req)) cookie (clock w))\<rparr>)"
    unfolding registered_def Let_def by blast
  from data_eqD(1,2) [OF this] * body show ?thesis
    by (simp add: authorised_def fresh_cookie_def signup_reply_def)
qed

definition alice_request :: auth_request where
  "alice_request = \<lparr>ar_username = ''alice'', ar_password = ''secret'',
    ar_captcha_hash = replicate 64 CHR ''a'', ar_captcha_answer = ''xyz''\<rparr>"

definition alice :: user where
  "alice = \<lparr>us_username = ''alice'', us_salt = [7],
    us_hashed_password = ev_blake3 example_env (as_bytes ''secret'' @ [7])\<rparr>"

definition alice_response :: auth_req_response where
  "alice_response = \<lparr>aq_username = ''alice'', aq_cookie = ''c'', aq_exp_time = 7777000\<rparr>"

lemma alice_captcha:
  "ev_hex_decode example_env (as_bytes (ar_captcha_hash alice_request)) = Some example_hash"
  "length example_hash = OUT_LEN" "captcha_ok captcha_world example_hash (ar_captcha_answer alice_request)"
  by (simp_all add: example_state_defs alice_request_def as_bytes_def example_hash_def OUT_LEN_def captcha_ok_def)

lemma alice_name [simp]:
  "ev_to_lowercase example_env (ar_username alice_request) = ''alice''"
  "ar_password alice_request = ''secret''" "ar_captcha_answer alice_request = ''xyz''"
  "invalid_user_reason example_env ''alice'' = None"
  by (simp_all add: alice_request_def example_state_defs invalid_user_reason_def MIN_USER_LEN_def
    MAX_USER_LEN_def RESERVED_USERNAMES_def)

lemma alice_address: "wallet_create_address example_wallet u = Done (Inr (''4a'', 1))"
  by (simp add: wallet_create_address_def example_wallet_def example_wallet_rpc_def wallet_rpc_new_def
    rpc_create_address_def request_def request_with_def upt_rec json_tree_api_def field_def field_str_def
    field_u64_def example_addr_api_def)

lemma healthy_example: "healthy captcha_world" "healthy empty_world"
  by (simp_all add: healthy_def example_state_defs)

lemma alice_registers:
  "fst (register example_env example_wallet [7] ''c'' alice_request (Some ''127.0.0.1'') captcha_world) =
    Done (answer OK alice_response)"
proof -
  have "wp (register example_env example_wallet [7] ''c'' alice_request (Some ''127.0.0.1''))
      (\<lambda>resp _. resp = answer OK alice_response) (\<lambda>_. False) captcha_world"
    using alice_captcha(2,3) healthy_example(1)
    by (auto simp: register_def auth_defs wp_rules wp_log_from_eq Let_def alice_captcha(1) alice_address
      healthy_def captcha_ok_def alice_response_def captcha_world_def empty_world_def NINETY_DAYS_AS_SECS_def)
  then show ?thesis unfolding wp_def by (auto split: prod.splits outcome.splits)
qed

theorem register_success_witness:
  "\<exists>w'. registered example_env example_wallet [7] ''c'' alice_request captcha_world w' \<and>
    of_int (clock captcha_world) + NINETY_DAYS_AS_SECS = 7777000 \<and> authorised w' ''alice'' ''c''"
proof -
  obtain w' where run: "register example_env example_wallet [7] ''c'' alice_request (Some ''127.0.0.1'')
      captcha_world = (Done (answer OK alice_response), w')"
    using alice_registers by (metis prod.collapse)
  show ?thesis using register_success [OF run] by (auto simp: alice_response_def)
qed

subsection \<open>Login\<close>

definition logged_in :: "env \<Rightarrow> string \<Rightarrow> auth_request \<Rightarrow> world \<Rightarrow> world \<Rightarrow> bool" where
  "logged_in env cookie req w w' \<longleftrightarrow>
    (let u = ev_to_lowercase env (ar_username req) in
     \<exists>h user. ev_hex_decode env (as_bytes (ar_captcha_hash req)) = Some h \<and>
       captcha_ok w h (ar_captcha_answer req) \<and> auth_db w u = Some user \<and>
       ev_blake3 env (as_bytes (ar_password req) @ us_salt user) = us_hashed_password user \<and>
       data w' = data (w\<lparr>captcha_db := (captcha_db w)(h := None),
         cookie_db := (cookie_db w)(u \<mapsto> fresh_cookie u cookie (clock w))\<rparr>))"

lemma login_success_wp:
  "wp (login env cookie req a) (\<lambda>resp w'. rs_status resp = OK \<longrightarrow> logged_in env cookie req w w')
    (\<lambda>_. True) w"
  by (auto simp: login_def wp_control Let_def logged_in_def data_def hash_password_def verify_hash_def
    intro!: auth_steps split: option.splits sum.splits outcome.splits)


text \<open>
  What a successful login means, and all it does: the name (in lower case) is registered, the
  captcha's answer was right, the password with the stored salt hashes to the stored hash; the
  captcha is used up, the user's session is replaced by a fresh one of 90 days that the returned
  cookie authorises, and nothing else in the state changes.
\<close>

lemma login_success:
  assumes "login env cookie req a w = (Done resp, w')" "rs_status resp = OK"
  shows "logged_in env cookie req w w' \<and>
    authorised w' (ev_to_lowercase env (ar_username req)) cookie"
proof -
  from wp_done [OF login_success_wp assms(1)] assms(2)
  have *: "logged_in env cookie req w w'" by blast
  then obtain h user where "data w' = data (w\<lparr>captcha_db := (captcha_db w)(h := None),
         cookie_db := (cookie_db w)(ev_to_lowercase env (ar_username req) \<mapsto>
           fresh_cookie (ev_to_lowercase env (ar_username req)) cookie (clock w))\<rparr>)"
    "auth_db w (ev_to_lowercase env (ar_username req)) = Some user"
    unfolding logged_in_def Let_def by blast
  from data_eqD(1,2) [OF this(1)] this(2) * show ?thesis
    by (simp add: authorised_def fresh_cookie_def)
qed

definition password_ok :: "env \<Rightarrow> auth_request \<Rightarrow> user option \<Rightarrow> bool" where
  "password_ok env req found = (case found of None \<Rightarrow> False
     | Some user \<Rightarrow> ev_blake3 env (as_bytes (ar_password req) @ us_salt user) = us_hashed_password user)"

lemma login_decided:
  assumes "healthy w" "ev_hex_decode env (as_bytes (ar_captcha_hash req)) = Some h" "length h = OUT_LEN"
    and u: "u = ev_to_lowercase env (ar_username req)"
    and captcha: "captcha \<longleftrightarrow> auth_db w u \<noteq> None \<and> captcha_ok w h (ar_captcha_answer req)"
    and passes: "passes \<longleftrightarrow> captcha \<and> password_ok env req (auth_db w u)"
  shows "\<exists>resp w'. login env cookie req (Some ip) w = (Done resp, w') \<and>
    rs_status resp = (if passes then OK else UNAUTHORIZED) \<and>
    data w' = data (w\<lparr>captcha_db := (if captcha then (captcha_db w)(h := None) else captcha_db w),
      cookie_db := (if passes then (cookie_db w)(u \<mapsto> fresh_cookie u cookie (clock w)) else cookie_db w)\<rparr>)"
proof -
  have "wp (login env cookie req (Some ip)) (\<lambda>resp w'.
    rs_status resp = (if passes then OK else UNAUTHORIZED) \<and>
    data w' = data (w\<lparr>captcha_db := (if captcha then (captcha_db w)(h := None) else captcha_db w),
      cookie_db := (if passes then (cookie_db w)(u \<mapsto> fresh_cookie u cookie (clock w)) else cookie_db w)\<rparr>))
    (\<lambda>_. False) w"
    using assms(1-3) unfolding passes captcha u healthy_def
    by (auto simp: login_def auth_defs wp_rules wp_log_from_eq Let_def log_new_def password_ok_def captcha_ok_def
      data_def hash_password_def verify_hash_def fresh_cookie_def
      split: option.splits)
  then show ?thesis unfolding wp_def by (auto split: prod.splits outcome.splits)
qed

text \<open>Alice, registered, with a captcha to log in with.\<close>

definition alice_world :: world where
  "alice_world = captcha_world\<lparr>auth_db := [''alice'' \<mapsto> alice],
    money_db := [''alice'' \<mapsto> financial_info_new 1 ''4a''],
    cookie_db := [''alice'' \<mapsto> fresh_cookie ''alice'' ''c'' 1000]\<rparr>"

lemma alice_passes: "healthy alice_world" "captcha_ok alice_world example_hash ''xyz''"
  "password_ok example_env alice_request (auth_db alice_world ''alice'')" "auth_db alice_world ''alice'' = Some alice"
  using alice_captcha(2,3) healthy_example(1)
  by (auto simp: alice_world_def healthy_def captcha_ok_def password_ok_def alice_def)

lemma alice_logs_in:
  "\<exists>resp w'. login example_env ''d'' alice_request (Some ''127.0.0.1'') alice_world = (Done resp, w') \<and>
    rs_status resp = OK"
  using login_decided [OF alice_passes(1) alice_captcha(1,2) refl refl refl, of "''d''" "''127.0.0.1''"]
    alice_passes by auto

lemma login_success_example:
  "\<exists>w'. logged_in example_env ''d'' alice_request alice_world w' \<and> authorised w' ''alice'' ''d''"
proof -
  obtain resp w' where "login example_env ''d'' alice_request (Some ''127.0.0.1'') alice_world =
    (Done resp, w')" "rs_status resp = OK" using alice_logs_in by blast
  from login_success [OF this] show ?thesis by auto
qed

text \<open>
  C29: Every login with a well-formed captcha hash, on a healthy server, is decided: it never
  panics; it answers 200 exactly when the user exists, the captcha's answer is right and the
  password is; every other answer is 401. An answered captcha is used up whether or not the
  password is right, so each guess at a password costs a captcha, and only a passed login touches
  the session.
\<close>

theorem login_decides:
  assumes "healthy w" "ev_hex_decode env (as_bytes (ar_captcha_hash req)) = Some h" "length h = OUT_LEN"
    and "u = ev_to_lowercase env (ar_username req)"
    and "captcha \<longleftrightarrow> auth_db w u \<noteq> None \<and> captcha_ok w h (ar_captcha_answer req)"
    and "passes \<longleftrightarrow> captcha \<and> password_ok env req (auth_db w u)"
  shows "\<exists>resp w'. login env cookie req (Some ip) w = (Done resp, w') \<and>
    rs_status resp = (if passes then OK else UNAUTHORIZED) \<and>
    data w' = data (w\<lparr>captcha_db := (if captcha then (captcha_db w)(h := None) else captcha_db w),
      cookie_db := (if passes then (cookie_db w)(u \<mapsto> fresh_cookie u cookie (clock w)) else cookie_db w)\<rparr>)"
  using assms by (rule login_decided)

theorem login_decides_witness:
  "\<exists>resp w'. login example_env ''d'' alice_request (Some ''127.0.0.1'') alice_world = (Done resp, w') \<and>
    rs_status resp = OK \<and> captcha_db w' example_hash = None \<and>
    cookie_db w' ''alice'' = Some (fresh_cookie ''alice'' ''d'' 1000)"
proof -
  have now: "clock alice_world = 1000" by (simp add: alice_world_def example_state_defs)
  obtain resp w' where "login example_env ''d'' alice_request (Some ''127.0.0.1'') alice_world = (Done resp, w')"
    "rs_status resp = OK" "data w' = data (alice_world\<lparr>captcha_db := (captcha_db alice_world)(example_hash := None),
      cookie_db := (cookie_db alice_world)(''alice'' \<mapsto> fresh_cookie ''alice'' ''d'' 1000)\<rparr>)"
    using login_decides [OF alice_passes(1) alice_captcha(1,2) refl refl refl, of "''d''" "''127.0.0.1''"]
      alice_passes now by auto
  with data_eqD(2,4) [OF this(3)] show ?thesis by auto
qed

text \<open>
  C32: Registering and logging in fit together: after a successful registration, as long as the
  record is kept, a login for that name (in any case) with a right captcha answer succeeds exactly
  when its password hashes, with the salt of the registration, to the same hash as the password
  registered with.
\<close>

theorem login_after_register:
  assumes "register env wallet salt cookie req a w = (Done resp, w1)" "rs_status resp = OK"
    and "healthy w2" "auth_db w2 = auth_db w1"
    and "ev_to_lowercase env (ar_username req2) = ev_to_lowercase env (ar_username req)"
    and "ev_hex_decode env (as_bytes (ar_captcha_hash req2)) = Some h2"
    and "captcha_ok w2 h2 (ar_captcha_answer req2)"
  shows "\<exists>resp2 w3. login env cookie2 req2 (Some ip) w2 = (Done resp2, w3) \<and>
    rs_status resp2 = (if ev_blake3 env (as_bytes (ar_password req2) @ salt) =
        ev_blake3 env (as_bytes (ar_password req) @ salt) then OK else UNAUTHORIZED)"
proof -
  let ?u = "ev_to_lowercase env (ar_username req)"
  from wp_done [OF register_success_wp assms(1)] assms(2)
  have "registered env wallet salt cookie req w w1" by blast
  then have "auth_db w1 ?u = Some \<lparr>us_username = ?u, us_salt = salt,
      us_hashed_password = ev_blake3 env (as_bytes (ar_password req) @ salt)\<rparr>"
    unfolding registered_def Let_def by (elim exE conjE) (drule data_eqD(1), simp)
  with assms(4) have found: "auth_db w2 ?u = Some \<lparr>us_username = ?u, us_salt = salt,
      us_hashed_password = ev_blake3 env (as_bytes (ar_password req) @ salt)\<rparr>" by simp
  have len: "length h2 = OUT_LEN" using assms(7) by (simp add: captcha_ok_def)
  from login_decided [OF assms(3,6) len assms(5) [symmetric] refl refl, of cookie2 ip]
  show ?thesis using found assms(5,7) by (force simp: password_ok_def)
qed

theorem login_after_register_witness:
  "\<exists>resp w'. login example_env ''d'' alice_request (Some ''127.0.0.1'')
    ((snd (register example_env example_wallet [7] ''c'' alice_request (Some ''127.0.0.1'') captcha_world))
      \<lparr>sled_faults := [], log_open := True, clock := 2000, captcha_db := captcha_db captcha_world\<rparr>) = (Done resp, w') \<and>
    rs_status resp = OK"
proof -
  obtain w1 where run: "register example_env example_wallet [7] ''c'' alice_request (Some ''127.0.0.1'')
      captcha_world = (Done (answer OK alice_response), w1)"
    using alice_registers by (metis prod.collapse)
  let ?w = "w1\<lparr>sled_faults := [], log_open := True, clock := 2000, captcha_db := captcha_db captcha_world\<rparr>"
  have "captcha_ok ?w example_hash (ar_captcha_answer alice_request)" "healthy ?w"
    using alice_captcha(3) by (simp_all add: captcha_ok_def healthy_def)
  from login_after_register [OF run _ this(2) _ refl alice_captcha(1) this(1)]
  show ?thesis unfolding run by simp
qed

text \<open>
  The two handlers disagree on a captcha hash that is not hexadecimal: for a free name
  \<open>register\<close> answers 400, but for a registered name \<open>login\<close> reaches \<open>unwrap\<close> on the failed
  decoding and panics.
\<close>

lemma bad_hex_panics_login:
  assumes "healthy w" "ev_hex_decode env (as_bytes (ar_captcha_hash req)) = None"
  shows "(if auth_db w (ev_to_lowercase env (ar_username req)) = None
    then fst (register env wallet salt cookie req a w) =
      Done (deny User ''Invalid hex string'' [] BAD_REQUEST)
    else fst (login env cookie req (Some ip) w) = Panic)"
proof -
  have "wp (login env cookie req (Some ip)) (\<lambda>_ _. False) (\<lambda>_. True) w"
    if "auth_db w (ev_to_lowercase env (ar_username req)) \<noteq> None"
    using assms that by (auto simp: login_def auth_defs wp_rules Let_def log_new_def healthy_def)
  moreover have "wp (register env wallet salt cookie req a)
      (\<lambda>resp _. resp = deny User ''Invalid hex string'' [] BAD_REQUEST) (\<lambda>_. False) w"
    if "auth_db w (ev_to_lowercase env (ar_username req)) = None"
    using assms that by (simp add: register_def auth_defs wp_rules Let_def healthy_def)
  ultimately show ?thesis unfolding wp_def by (auto split: prod.splits outcome.splits)
qed

lemma bad_hex_panics_login_example:
  "fst (login example_env ''d'' (alice_request\<lparr>ar_captcha_hash := ''a''\<rparr>) (Some ''127.0.0.1'') alice_world) = Panic"
  using bad_hex_panics_login [OF alice_passes(1), of example_env "alice_request\<lparr>ar_captcha_hash := ''a''\<rparr>"]
    alice_passes(4) by (simp add: example_env_def as_bytes_def alice_request_def)

subsection \<open>Expiry of sessions\<close>

interpretation cookie_sweep: expiry_sweep CookieDB "\<lambda>c. ac_expiration_time c < now" "sweep_cookie now"
  for now
  by unfold_locales
    (auto simp: sweep_cookie_def db_remove_def store_defs tree_lens_def wp_rules run_rules
      split: sum.splits)

text \<open>
  One round of \<open>destroy_expired_auth_cookies\<close>, on a healthy server and visiting every key,
  removes exactly the sessions whose expiry time lies in the past; afterwards every session left
  is unexpired, and nothing else in the state has changed.
\<close>

lemma expired_sessions_end:
  assumes "healthy w" "enumerates ks (cookie_db w)"
  shows "destroy_expired_auth_cookies ks w = (Done (), w\<lparr>cookie_db := (\<lambda>u. case cookie_db w u of
      None \<Rightarrow> None
    | Some c \<Rightarrow> if ac_expiration_time c < of_int (clock w) then None else Some c)\<rparr>)"
proof -
  have "each (sweep_cookie (of_int (clock w))) (map Inr (entries ks (cookie_db w))) w =
      (Done (), w\<lparr>cookie_db := cookie_sweep.swept (of_int (clock w)) (set ks) (cookie_db w)\<rparr>)"
    using cookie_sweep.sweep_run [of w ks "cookie_db w"] assms
    by (simp add: healthy_def enumerates_def store_defs)
  moreover have "cookie_sweep.swept (of_int (clock w)) (set ks) (cookie_db w) =
      (\<lambda>u. case cookie_db w u of None \<Rightarrow> None
        | Some c \<Rightarrow> if ac_expiration_time c < of_int (clock w) then None else Some c)"
    using assms(2) by (auto simp: cookie_sweep.swept_def enumerates_def dom_def split: option.split)
  ultimately show ?thesis using assms(1)
    by (simp add: destroy_expired_auth_cookies_def healthy_def run_rules store_defs)
qed

lemma expired_sessions_end_example:
  "cookie_db (snd (destroy_expired_auth_cookies [''alice'', ''bob''] (empty_world\<lparr>cookie_db :=
      [''alice'' \<mapsto> fresh_cookie ''alice'' ''c'' 999, ''bob'' \<mapsto> \<lparr>ac_username = ''bob'', ac_cookie = ''d'',
        ac_creation_time = 5, ac_expiration_time = 900\<rparr>]\<rparr>))) =
    [''alice'' \<mapsto> fresh_cookie ''alice'' ''c'' 999]"
proof -
  let ?w = "empty_world\<lparr>cookie_db :=
      [''alice'' \<mapsto> fresh_cookie ''alice'' ''c'' 999, ''bob'' \<mapsto> \<lparr>ac_username = ''bob'', ac_cookie = ''d'',
        ac_creation_time = 5, ac_expiration_time = 900\<rparr>]\<rparr>"
  have "healthy ?w" "enumerates [''alice'', ''bob''] (cookie_db ?w)" "clock ?w = 1000"
    by (auto simp: healthy_def empty_world_def enumerates_def)
  with expired_sessions_end [OF this(1,2)] show ?thesis
    by (auto simp: fresh_cookie_def NINETY_DAYS_AS_SECS_def fun_eq_iff)
qed

text \<open>
  Whatever sled errors occur, and whichever keys are visited, a round of
  \<open>destroy_expired_auth_cookies\<close> never ends a session that has not expired.
\<close>

lemma live_sessions_stay:
  assumes "cookie_db w u = Some c" "\<not> ac_expiration_time c < of_int (clock w)"
  shows "cookie_db (snd (destroy_expired_auth_cookies ks w)) u = Some c"
proof (rule wp_final)
  show "wp (destroy_expired_auth_cookies ks) (\<lambda>_ w'. cookie_db w' u = Some c)
      (\<lambda>w'. cookie_db w' u = Some c) w"
    using cookie_sweep.sweep_keeps [of w u c "of_int (clock w)"] assms
    by (simp add: destroy_expired_auth_cookies_def wp_rules store_defs)
qed

lemma live_sessions_stay_example:
  "cookie_db (snd (destroy_expired_auth_cookies [''alice''] (alice_world\<lparr>sled_faults := [False, True]\<rparr>)))
    ''alice'' = Some (fresh_cookie ''alice'' ''c'' 1000)"
  by (rule live_sessions_stay)
    (simp_all add: alice_world_def example_state_defs fresh_cookie_def NINETY_DAYS_AS_SECS_def)

end
