(* ===== verification/Captcha.thy ===== *)
theory Captcha
  imports Auth
begin

section \<open>Captchas: src/auth.rs\<close>

text \<open>
  Creating, viewing and expiring captchas (the test of an answer is \<open>check_captcha\<close> in the
  theory \<open>Auth\<close>). What the captcha crate generates, the answer and the PNG bytes, is an
  argument; \<open>to_hex\<close> of a blake3 hash is \<open>ev_hex_encode\<close>.
\<close>

record captcha_resp =
  cr_captcha_hash :: string

text \<open>\<open>captcha::gen(Medium).as_tuple().unwrap()\<close> may fail.\<close>

definition create_captcha :: "env \<Rightarrow> (string \<times> bytes) option \<Rightarrow> (world, captcha_resp response) eff" where
  "create_captcha env generated =
     and_then (unwrap_opt generated) (\<lambda>(captcha_answer, captcha_bytes).
     let captcha_hash = ev_blake3 env captcha_bytes in
     and_then (to_array32 captcha_hash) (\<lambda>captcha_hash_bytes.
     and_then now_u64 (\<lambda>creation_time.
     let captcha = \<lparr>gc_creation_time = creation_time, gc_expiration_time = creation_time + 300,
       gc_answer = captcha_answer, gc_image = captcha_bytes\<rparr> in
     and_then (unwrapped (db_insert CaptchaDB captcha_hash_bytes captcha)) (\<lambda>_.
     ret (answer OK \<lparr>cr_captcha_hash = ev_hex_encode env captcha_hash\<rparr>)))))"

text \<open>An image response: status, content type and body.\<close>

record image_response =
  ir_status :: status
  ir_content_type :: "string option"
  ir_body :: bytes

definition image_not_found :: image_response where
  "image_not_found = \<lparr>ir_status = NOT_FOUND, ir_content_type = None, ir_body = as_bytes ''Image not found''\<rparr>"

definition view_captcha :: "env \<Rightarrow> string \<Rightarrow> (world, image_response) eff" where
  "view_captcha env hash =
     (if length hash \<noteq> 2 * OUT_LEN then ret image_not_found
      else and_then (unwrap_opt (ev_hex_decode env (as_bytes hash))) (\<lambda>hash_bytes.
      and_then (to_array32 hash_bytes) (\<lambda>key.
      and_then (unwrapped (db_get CaptchaDB key)) (\<lambda>captcha. ret (case captcha of
          Some captcha \<Rightarrow> \<lparr>ir_status = OK, ir_content_type = Some ''image/png'', ir_body = gc_image captcha\<rparr>
        | None \<Rightarrow> image_not_found)))))"

text \<open>One round of \<open>destroy_expired_captchas\<close>; here every error is unwrapped.\<close>

definition sweep_captcha :: "u64 \<Rightarrow> sled_error + bytes \<times> generated_captcha \<Rightarrow> (world, unit) eff" where
  "sweep_captcha time item =
     and_then (unwrap_res item) (\<lambda>(hash, captcha).
     if gc_expiration_time captcha < time
     then and_then (unwrapped (db_remove CaptchaDB hash)) (\<lambda>old. and_then (unwrap_opt old) (\<lambda>_. ret ()))
     else ret ())"

definition destroy_expired_captchas :: "bytes list \<Rightarrow> (world, unit) eff" where
  "destroy_expired_captchas ks = and_then now_u64 (\<lambda>time.
     and_then (db_iter CaptchaDB ks) (each (sweep_captcha time)))"

interpretation captcha_sweep: expiry_sweep CaptchaDB "\<lambda>c. gc_expiration_time c < now" "sweep_captcha now"
  for now
  by unfold_locales
    (auto simp: sweep_captcha_def db_remove_def store_defs tree_lens_def wp_rules run_rules
      split: sum.splits option.splits)

lemmas captcha_defs = create_captcha_def view_captcha_def db_insert_def db_get_def store_defs

text \<open>
  A captcha round trip: what \<open>create_captcha\<close> stores can be viewed and solved under the hash
  it returns. If hexadecimal decoding inverts the encoding and blake3 gives 32 bytes, then on a
  healthy server creation succeeds, \<open>view_captcha\<close> with the returned hash serves the generated
  image, and the generated answer, and no other, passes the captcha test.
\<close>

lemma captcha_roundtrip:
  assumes "healthy w" "length (ev_blake3 env png) = OUT_LEN"
    and "h = ev_hex_encode env (ev_blake3 env png)"
    and "length h = 2 * OUT_LEN" "ev_hex_decode env (as_bytes h) = Some (ev_blake3 env png)"
  shows "\<exists>w'. create_captcha env (Some (answ, png)) w = (Done (answer OK \<lparr>cr_captcha_hash = h\<rparr>), w') \<and>
    fst (view_captcha env h w') =
      Done \<lparr>ir_status = OK, ir_content_type = Some ''image/png'', ir_body = png\<rparr> \<and>
    fst (check_captcha (ev_blake3 env png) guess w') = Done (guess = answ)"
proof -
  let ?k = "ev_blake3 env png"
  let ?w = "w\<lparr>captcha_db := (captcha_db w)(?k \<mapsto> \<lparr>gc_creation_time = of_int (clock w),
    gc_expiration_time = of_int (clock w) + 300, gc_answer = answ, gc_image = png\<rparr>)\<rparr>"
  have "create_captcha env (Some (answ, png)) w = (Done (answer OK \<lparr>cr_captcha_hash = h\<rparr>), ?w)"
    using assms(1-3) by (simp add: captcha_defs healthy_def Let_def run_rules)
  moreover have "fst (view_captcha env h ?w) =
      Done \<lparr>ir_status = OK, ir_content_type = Some ''image/png'', ir_body = png\<rparr>"
    using assms by (simp add: captcha_defs healthy_def run_rules)
  moreover have "fst (check_captcha ?k guess ?w) = Done (guess = answ)"
    using assms(1,2) by (simp add: auth_defs healthy_def run_rules)
  ultimately show ?thesis by blast
qed

lemma char_a: "char_of (97::nat) = CHR ''a''"
  by code_simp

lemma example_image_hash: "ev_blake3 example_env (replicate 40 97) = example_hash"
  "ev_hex_encode example_env example_hash = replicate 64 CHR ''a''"
  "ev_hex_decode example_env (as_bytes (replicate 64 CHR ''a'')) = Some example_hash"
  by (simp_all add: example_env_def example_hash_def as_bytes_def replicate_add [symmetric] char_a)

lemma captcha_roundtrip_example:
  "\<exists>w'. create_captcha example_env (Some (''xyz'', replicate 40 97)) empty_world =
      (Done (answer OK \<lparr>cr_captcha_hash = replicate 64 CHR ''a''\<rparr>), w') \<and>
    fst (check_captcha example_hash ''abc'' w') = Done False"
  using captcha_roundtrip [OF healthy_example(2), of example_env "replicate 40 97" _ "''xyz''" "''abc''"]
    example_image_hash alice_captcha(2) by (auto simp: OUT_LEN_def)

text \<open>
  One round of \<open>destroy_expired_captchas\<close>, on a healthy server and visiting every key, does not
  panic although it unwraps every result, and removes exactly the captchas whose five minutes are
  over.
\<close>

lemma expired_captchas_end:
  assumes "healthy w" "enumerates ks (captcha_db w)"
  shows "destroy_expired_captchas ks w = (Done (), w\<lparr>captcha_db := (\<lambda>h. case captcha_db w h of
      None \<Rightarrow> None
    | Some c \<Rightarrow> if gc_expiration_time c < of_int (clock w) then None else Some c)\<rparr>)"
proof -
  have "each (sweep_captcha (of_int (clock w))) (map Inr (entries ks (captcha_db w))) w =
      (Done (), w\<lparr>captcha_db := captcha_sweep.swept (of_int (clock w)) (set ks) (captcha_db w)\<rparr>)"
    using captcha_sweep.sweep_run [of w ks "captcha_db w"] assms
    by (simp add: healthy_def enumerates_def store_defs)
  moreover have "captcha_sweep.swept (of_int (clock w)) (set ks) (captcha_db w) =
      (\<lambda>h. case captcha_db w h of None \<Rightarrow> None
        | Some c \<Rightarrow> if gc_expiration_time c < of_int (clock w) then None else Some c)"
    using assms(2) by (auto simp: captcha_sweep.swept_def enumerates_def dom_def split: option.split)
  ultimately show ?thesis using assms(1)
    by (simp add: destroy_expired_captchas_def healthy_def run_rules store_defs)
qed

lemma expired_captchas_end_example:
  "captcha_db (snd (destroy_expired_captchas [example_hash] (captcha_world\<lparr>clock := 1201\<rparr>))) = Map.empty"
proof -
  let ?w = "captcha_world\<lparr>clock := 1201\<rparr>"
  have "healthy ?w" "enumerates [example_hash] (captcha_db ?w)" "clock ?w = 1201"
    by (auto simp: healthy_def example_state_defs enumerates_def)
  with expired_captchas_end [OF this(1,2)] show ?thesis
    by (auto simp: captcha_world_def fun_eq_iff)
qed

text \<open>
  \<open>view_captcha\<close> checks the length of the hash but not its digits: a 64-character path segment
  that is not hexadecimal makes the handler panic, where every shorter one gets a 404.
\<close>

lemma view_captcha_panics:
  assumes "ev_hex_decode env (as_bytes h) = None"
  shows "fst (view_captcha env h w) = (if length h = 2 * OUT_LEN then Panic else Done image_not_found)"
  using assms by (simp add: view_captcha_def run_rules)

lemma view_captcha_panics_example:
  "fst (view_captcha example_env (replicate 64 CHR ''z'') empty_world) = Panic"
  using view_captcha_panics [of example_env "replicate 64 CHR ''z''" empty_world]
  by (simp add: example_env_def as_bytes_def OUT_LEN_def)

end
