(* ===== verification/Money_Handlers.thy ===== *)
theory Money_Handlers
  imports Auth
begin

section \<open>The money routes: handlers of src/money.rs\<close>

text \<open>
  \<open>deposit_req\<close>, \<open>get_balance\<close>, \<open>attach_xmr_address\<close>, \<open>server_profits\<close> and \<open>withdraw_monero\<close>.
  Withdrawals are not sent here: an accepted one is put into the channel \<open>monero_tx\<close>, which
  \<open>send_monero\<close> (theory \<open>Money_Tasks\<close>) reads.
\<close>

record authorized_req =
  az_username :: string
  az_auth_cookie :: string

record attach_xmr_address_req =
  ax_username :: string
  ax_auth_cookie :: string
  ax_monero_address :: string

record deposit_req_resp =
  dp_addr :: string
  dp_min_amt :: u64

record balance_req_resp =
  bl_balance :: u64
  bl_pending_deposits :: u64

record withdraw_monero_req =
  wq_username :: string
  wq_auth_cookie :: string
  wq_amt :: u64

record withdraw_monero_resp =
  wp_amt_sent_after_fee :: u64
  wp_fee_taken :: u64

text \<open>The guards of the handlers, with \<open>&&\<close> in the order each one has it.\<close>

definition cookie_then_user :: "string \<Rightarrow> string \<Rightarrow> (world, bool) eff" where
  "cookie_then_user username cookie = and_then (verify_auth_cookie username cookie) (\<lambda>ok.
     if ok then unwrapped (db_contains_key AuthDB username) else ret False)"

definition user_then_cookie :: "string \<Rightarrow> string \<Rightarrow> (world, bool) eff" where
  "user_then_cookie username cookie = and_then (unwrapped (db_contains_key AuthDB username)) (\<lambda>known.
     if known then verify_auth_cookie username cookie else ret False)"

definition invalid_login_reason :: string where
  "invalid_login_reason = ''Invalid username or cookie''"

definition deposit_req ::
    "env \<Rightarrow> ('v, 'h, 'b, 'tx) wallet \<Rightarrow> ip_addr option \<Rightarrow> authorized_req \<Rightarrow> (world, deposit_req_resp response) eff" where
  "deposit_req env wallet socket_addr invoice_req = (let username = az_username invoice_req in
     and_then (cookie_then_user username (az_auth_cookie invoice_req)) (\<lambda>authorised.
     if authorised then
       and_then (gets shared_fee) (\<lambda>cached_fee.
       and_then (lift_outcome (get_fee cached_fee wallet)) (\<lambda>fee.
       and_then (unwrapped (db_get MoneyDB username)) (\<lambda>found.
       and_then (unwrap_opt found) (\<lambda>financial_info.
       and_then (log_from socket_addr (Some username) DepositReq LogMoney [] Low) (\<lambda>_.
       ret (answer OK \<lparr>dp_addr = ap_to_string (ev_addr env) (fi_deposit_addr financial_info),
         dp_min_amt = fee * 5\<rparr>))))))
     else
       and_then (log_from socket_addr (Some username) DepositReq LogMoney invalid_login_reason Low) (\<lambda>_.
       ret (deny User invalid_login_reason [] UNAUTHORIZED))))"

definition get_balance :: "ip_addr option \<Rightarrow> authorized_req \<Rightarrow> (world, balance_req_resp response) eff" where
  "get_balance socket_addr auth_req = (let username = az_username auth_req in
     and_then (cookie_then_user username (az_auth_cookie auth_req)) (\<lambda>authorised.
     if authorised then
       and_then (unwrapped (db_get MoneyDB username)) (\<lambda>found.
       and_then (unwrap_opt found) (\<lambda>financial_info.
       and_then (log_from socket_addr (Some username) GetBalance LogMoney [] Low) (\<lambda>_.
       ret (answer OK \<lparr>bl_balance = fi_get_balance financial_info,
         bl_pending_deposits = fi_pending_balance financial_info\<rparr>))))
     else
       and_then (log_from socket_addr (Some username) GetBalance LogAuth invalid_login_reason Medium) (\<lambda>_.
       ret (deny User invalid_login_reason [] UNAUTHORIZED))))"

definition attach_xmr_address ::
    "env \<Rightarrow> ip_addr option \<Rightarrow> attach_xmr_address_req \<Rightarrow> (world, unit response) eff" where
  "attach_xmr_address env socket_addr attach_req = (let username = ax_username attach_req in
     and_then (user_then_cookie username (ax_auth_cookie attach_req)) (\<lambda>authorised.
     if authorised then
       and_then (unwrapped (db_get MoneyDB username)) (\<lambda>found.
       and_then (unwrap_opt found) (\<lambda>financial_info.
       case ap_from_str (ev_addr env) (ax_monero_address attach_req) of
         None \<Rightarrow>
           and_then (log_from socket_addr (Some username) AttachAddr LogMoney
             (''Invalid address'' @ ev_addr_error env (ax_monero_address attach_req)) Low) (\<lambda>_.
           ret (deny User ''Invalid address'' [] BAD_REQUEST))
       | Some xmr_addr \<Rightarrow>
           and_then (unwrapped (db_insert MoneyDB username (financial_info\<lparr>fi_xmr_addr := Some xmr_addr\<rparr>))) (\<lambda>_.
           and_then (log_from socket_addr (Some username) AttachAddr LogMoney [] Low) (\<lambda>_.
           ret (answer OK ())))))
     else
       and_then (log_from socket_addr (Some username) AttachAddr LogAuth invalid_login_reason Low) (\<lambda>_.
       ret (deny User invalid_login_reason [] UNAUTHORIZED))))"

text \<open>
  \<open>server_profits\<close> prints a number for one fixed pair of credentials and answers the empty
  string to everybody: the result is the printed number, if any, and the body.
\<close>

definition server_profits ::
    "('v, 'h, 'b, 'tx) wallet \<Rightarrow> string list \<Rightarrow> authorized_req \<Rightarrow> (world, u64 option \<times> string) eff" where
  "server_profits wallet ks auth_req =
     (if az_username auth_req = ''billy'' \<and> az_auth_cookie auth_req = ''bobby'' then
        and_then (unwrapped (lift_outcome (wallet_get_balance wallet []))) (\<lambda>balance.
        and_then (db_iter MoneyDB ks) (\<lambda>items.
        if \<exists>e. Inl e \<in> set items then panic
        else ret (Some (wb_balance balance - sum_list (map (\<lambda>i. case i of
            Inl _ \<Rightarrow> 0
          | Inr (_, financial_info) \<Rightarrow> fi_get_balance financial_info) items)), [])))
      else ret (None, []))"

text \<open>\<open>monero_tx_send.send\<close>: an error only when the receiver is gone.\<close>

definition send_transfer_req :: "transfer_req \<Rightarrow> (world, bool) eff" where
  "send_transfer_req req = (\<lambda>w. if monero_tx_open w
     then (Done True, w\<lparr>monero_tx := monero_tx w @ [req]\<rparr>) else (Done False, w))"

text \<open>\<open>withdraw_monero\<close> from the point where the account has been found.\<close>

definition withdraw_from_account ::
    "ip_addr option \<Rightarrow> withdraw_monero_req \<Rightarrow> u64 \<Rightarrow> financial_info \<Rightarrow> (world, withdraw_monero_resp response) eff" where
  "withdraw_from_account socket_addr withdraw_req net_fee financial_info =
     (let username = wq_username withdraw_req; amt = wq_amt withdraw_req; min_amt = net_fee * 5;
          service_fee = 2 * (amt div 100); user_balance = fi_get_balance financial_info in
     if min_amt \<le> user_balance then
       (case checked_sub amt (net_fee + service_fee) of
          None \<Rightarrow>
            let reason = ''Withdrawal amount '' @ to_decimal amt @ '' is lower than 0 after fees'' in
            and_then (log_from socket_addr (Some username) UserError LogMoney reason Low) (\<lambda>_.
            ret (deny User reason [] BAD_REQUEST))
        | Some amt_to_send_after_fees \<Rightarrow>
            (case fi_xmr_addr financial_info of
               None \<Rightarrow>
                 and_then (log_from socket_addr (Some username) UserError LogMoney
                   ''Withdrawal address not found'' Low) (\<lambda>_.
                 ret (deny User ''Withdrawal address not found''
                   ''Please attach a withdrawl address to your account'' BAD_REQUEST))
             | Some withdraw_addr \<Rightarrow>
                 and_then (send_transfer_req \<lparr>tq_username = username, tq_dst = withdraw_addr,
                   tq_priority = Some 0, tq_amt = amt_to_send_after_fees,
                   tq_addr_index = ts_addr_index (fi_transfers financial_info)\<rparr>) (\<lambda>sent.
                 if sent then
                   and_then (log_from socket_addr (Some username)
                     (Withdrawal amt_to_send_after_fees withdraw_addr) LogMoney [] Low) (\<lambda>_.
                   ret (answer OK \<lparr>wp_amt_sent_after_fee = amt_to_send_after_fees,
                     wp_fee_taken = service_fee + net_fee\<rparr>))
                 else ret (deny Server ''Internal server error, please try again'' []
                   INTERNAL_SERVER_ERROR))))
     else ret (deny User (''User balance '' @ to_decimal user_balance @
       '' is lower than the minimum: '' @ to_decimal min_amt) [] PRECONDITION_FAILED))"

definition withdraw_too_little :: "u64 \<Rightarrow> u64 \<Rightarrow> withdraw_monero_resp response" where
  "withdraw_too_little amt min_amt = deny User (''Withdrawal amount '' @ to_decimal amt @
     '' is lower than the minimum: '' @ to_decimal min_amt) [] PRECONDITION_FAILED"

definition withdraw_monero ::
    "('v, 'h, 'b, 'tx) wallet \<Rightarrow> ip_addr option \<Rightarrow> withdraw_monero_req \<Rightarrow> (world, withdraw_monero_resp response) eff" where
  "withdraw_monero wallet socket_addr withdraw_req =
     (let username = wq_username withdraw_req; amt = wq_amt withdraw_req in
     and_then (user_then_cookie username (wq_auth_cookie withdraw_req)) (\<lambda>authorised.
     if authorised then
       and_then (lift_outcome (get_uptodate_fee wallet)) (\<lambda>net_fee.
       case net_fee of
         None \<Rightarrow>
           and_then (log_from socket_addr (Some username) ServerError LogMoney ''Could not get Monero fee'' Low) (\<lambda>_.
           ret (deny Server ''Could not get Monero fee'' [] INTERNAL_SERVER_ERROR))
       | Some net_fee \<Rightarrow>
           let min_amt = net_fee * 5 in
           if min_amt \<le> amt then
             and_then (unwrapped (db_get MoneyDB username)) (\<lambda>found.
             case found of
               None \<Rightarrow>
                 and_then (log_from socket_addr (Some username) AuthFailureNonLogin LogMoney
                   invalid_login_reason Low) (\<lambda>_.
                 ret (deny User invalid_login_reason [] UNAUTHORIZED))
             | Some financial_info \<Rightarrow> withdraw_from_account socket_addr withdraw_req net_fee financial_info)
           else ret (withdraw_too_little amt min_amt))
     else ret (deny User invalid_login_reason [] UNAUTHORIZED)))"

lemmas withdraw_defs = withdraw_monero_def withdraw_from_account_def withdraw_too_little_def

subsection \<open>The guards\<close>

lemma wp_cookie_then_user:
  assumes "\<And>fs. Q (authorised w u c) (w\<lparr>sled_faults := fs\<rparr>)" "\<And>fs. E (w\<lparr>sled_faults := fs\<rparr>)"
  shows "wp (cookie_then_user u c) Q E w"
  using assms by (auto simp: cookie_then_user_def authorised_def auth_defs wp_rules split: option.splits)

lemma wp_user_then_cookie:
  assumes "\<And>fs. Q (authorised w u c) (w\<lparr>sled_faults := fs\<rparr>)" "\<And>fs. E (w\<lparr>sled_faults := fs\<rparr>)"
  shows "wp (user_then_cookie u c) Q E w"
  using assms by (auto simp: user_then_cookie_def authorised_def auth_defs wp_rules split: option.splits)

lemma wp_get_money:
  assumes "\<And>fs. Q (money_db w u) (w\<lparr>sled_faults := fs\<rparr>)" "\<And>fs. E (w\<lparr>sled_faults := fs\<rparr>)"
  shows "wp (unwrapped (db_get MoneyDB u)) Q E w"
  using assms by (simp add: auth_defs wp_rules)

lemma wp_send_transfer_req:
  assumes "monero_tx_open w \<Longrightarrow> Q True (w\<lparr>monero_tx := monero_tx w @ [r]\<rparr>)"
    and "\<not> monero_tx_open w \<Longrightarrow> Q False w"
  shows "wp (send_transfer_req r) Q E w"
  using assms by (simp add: send_transfer_req_def wp_def)

lemma wp_send_transfer_req_eq [wp_rules]: "wp (send_transfer_req r) Q E w = (if monero_tx_open w
    then Q True (w\<lparr>monero_tx := monero_tx w @ [r]\<rparr>) else Q False w)"
  by (simp add: send_transfer_req_def wp_def)

lemmas money_steps = wp_cookie_then_user wp_user_then_cookie wp_get_money wp_insert_money
  wp_send_transfer_req wp_log_from

interpretation deposit_req_guard: guarded_handler "deposit_req env wallet a" az_username az_auth_cookie
  for env wallet a
  by unfold_locales (auto simp: deposit_req_def wp_control Let_def data_def intro!: money_steps)

interpretation get_balance_guard: guarded_handler "get_balance a" az_username az_auth_cookie for a
  by unfold_locales (auto simp: get_balance_def wp_control Let_def data_def intro!: money_steps)

interpretation attach_guard: guarded_handler "attach_xmr_address env a" ax_username ax_auth_cookie
  for env a
  by unfold_locales (auto simp: attach_xmr_address_def wp_control Let_def data_def intro!: money_steps)

interpretation withdraw_guard: guarded_handler "withdraw_monero wallet a" wq_username wq_auth_cookie
  for wallet a
  by unfold_locales (auto simp: withdraw_defs wp_control Let_def data_def intro!: money_steps)


text \<open>
  C30: A request without a registered name and its current cookie gets nothing from any of the four
  money handlers: if they answer, they answer 401, and whether they answer or panic, no tree, no
  queue and no counter of the state has changed.
\<close>

theorem unauthorised_requests_denied:
  assumes "\<not> authorised w u c"
  shows "wp (deposit_req env wallet a \<lparr>az_username = u, az_auth_cookie = c\<rparr>)
      (\<lambda>resp w'. rs_status resp = UNAUTHORIZED \<and> data w' = data w) (\<lambda>w'. data w' = data w) w \<and>
    wp (get_balance a \<lparr>az_username = u, az_auth_cookie = c\<rparr>)
      (\<lambda>resp w'. rs_status resp = UNAUTHORIZED \<and> data w' = data w) (\<lambda>w'. data w' = data w) w \<and>
    wp (attach_xmr_address env a \<lparr>ax_username = u, ax_auth_cookie = c, ax_monero_address = d\<rparr>)
      (\<lambda>resp w'. rs_status resp = UNAUTHORIZED \<and> data w' = data w) (\<lambda>w'. data w' = data w) w \<and>
    wp (withdraw_monero wallet a \<lparr>wq_username = u, wq_auth_cookie = c, wq_amt = amt\<rparr>)
      (\<lambda>resp w'. rs_status resp = UNAUTHORIZED \<and> data w' = data w) (\<lambda>w'. data w' = data w) w"
  using assms by (intro conjI deposit_req_guard.guard_law get_balance_guard.guard_law
    attach_guard.guard_law withdraw_guard.guard_law) simp_all

theorem unauthorised_requests_denied_witness:
  "wp (withdraw_monero example_wallet None \<lparr>wq_username = ''alice'', wq_auth_cookie = ''x'', wq_amt = 1\<rparr>)
      (\<lambda>resp w'. rs_status resp = UNAUTHORIZED \<and> data w' = data alice_world)
      (\<lambda>w'. data w' = data alice_world) alice_world"
proof -
  have "\<not> authorised alice_world ''alice'' ''x''"
    by (simp add: authorised_def alice_world_def fresh_cookie_def)
  from unauthorised_requests_denied [OF this, of example_env example_wallet None] show ?thesis by blast
qed

subsection \<open>Withdrawals\<close>

text \<open>What an accepted withdrawal is, and all it does: one transfer is queued.\<close>

definition withdrawn :: "('v, 'h, 'b, 'tx) wallet \<Rightarrow> withdraw_monero_req \<Rightarrow>
    withdraw_monero_resp response \<Rightarrow> world \<Rightarrow> world \<Rightarrow> bool" where
  "withdrawn wallet req resp w w' \<longleftrightarrow>
    (\<exists>net_fee f addr r. authorised w (wq_username req) (wq_auth_cookie req) \<and>
       get_uptodate_fee wallet = Done (Some net_fee) \<and> money_db w (wq_username req) = Some f \<and>
       fi_xmr_addr f = Some addr \<and> net_fee * 5 \<le> wq_amt req \<and> net_fee * 5 \<le> fi_get_balance f \<and>
       resp = answer OK r \<and> wp_fee_taken r = 2 * (wq_amt req div 100) + net_fee \<and>
       unat (wp_amt_sent_after_fee r) + unat (wp_fee_taken r) = unat (wq_amt req) \<and>
       data w' = data (w\<lparr>monero_tx := monero_tx w @ [\<lparr>tq_username = wq_username req, tq_dst = addr,
         tq_priority = Some 0, tq_amt = wp_amt_sent_after_fee r,
         tq_addr_index = ts_addr_index (fi_transfers f)\<rparr>]\<rparr>))"

lemma checked_sub_sum:
  fixes a b :: "'a::len word"
  assumes "checked_sub a b = Some x"
  shows "unat x + unat b = unat a"
  using assms by (auto simp: checked_sub_def unat_sub word_le_nat_alt split: if_splits)

lemma withdrawnI:
  assumes "authorised w (wq_username req) (wq_auth_cookie req)"
    and "get_uptodate_fee wallet = Done (Some net_fee)" "money_db w (wq_username req) = Some f"
    and "fi_xmr_addr f = Some addr" "net_fee * 5 \<le> wq_amt req" "net_fee * 5 \<le> fi_get_balance f"
    and "checked_sub (wq_amt req) (net_fee + 2 * (wq_amt req div 100)) = Some sent"
    and "data w' = data (w\<lparr>monero_tx := monero_tx w @ [\<lparr>tq_username = wq_username req, tq_dst = addr,
         tq_priority = Some 0, tq_amt = sent, tq_addr_index = ts_addr_index (fi_transfers f)\<rparr>]\<rparr>)"
  shows "withdrawn wallet req (answer OK \<lparr>wp_amt_sent_after_fee = sent,
    wp_fee_taken = 2 * (wq_amt req div 100) + net_fee\<rparr>) w w'"
  using assms checked_sub_sum [OF assms(7)] unfolding withdrawn_def
  by (intro exI [of _ net_fee] exI [of _ f] exI [of _ addr]
    exI [of _ "\<lparr>wp_amt_sent_after_fee = sent, wp_fee_taken = 2 * (wq_amt req div 100) + net_fee\<rparr>"] conjI) (simp_all add: add.commute)

lemmas withdrawn_someI = exI [where P = "\<lambda>resp. withdrawn wallet req resp w w'" for wallet req w w', OF withdrawnI]

lemma withdraw_wp:
  "wp (withdraw_monero wallet a req)
    (\<lambda>resp w'. if rs_status resp = OK then withdrawn wallet req resp w w' else data w' = data w)
    (\<lambda>w'. data w' = data w \<or> (\<exists>resp. withdrawn wallet req resp w w')) w"
  by (auto simp: withdraw_defs wp_control Let_def
        intro!: money_steps split: option.splits outcome.splits)
    (fastforce intro!: withdrawn_someI withdrawnI simp: data_def)+


text \<open>Alice with an attached address and a balance; a network fee of 8000000.\<close>

definition alice_account :: "u64 \<Rightarrow> financial_info" where
  "alice_account bal = (example_account bal 0)\<lparr>fi_xmr_addr := Some ''4b''\<rparr>"

definition bank_world :: "u64 \<Rightarrow> world" where
  "bank_world bal = alice_world\<lparr>money_db := [''alice'' \<mapsto> alice_account bal]\<rparr>"

definition alice_withdraws :: "u64 \<Rightarrow> withdraw_monero_req" where
  "alice_withdraws amt = \<lparr>wq_username = ''alice'', wq_auth_cookie = ''c'', wq_amt = amt\<rparr>"

lemma alice_account_facts: "fi_xmr_addr (alice_account bal) = Some ''4b''"
  "fi_get_balance (alice_account bal) = bal" "fi_pending_balance (alice_account bal) = 0"
  "fi_transfers (alice_account bal) = \<lparr>ts_addr_index = 1, ts_in = [], ts_out = []\<rparr>"
  "fi_balance (alice_account bal) = bal" "fi_amount_spent (alice_account bal) = 0"
  "fi_service_fee_total (alice_account bal) = 0"
  by (simp_all add: alice_account_def example_account_defs)

lemma bank_world_facts: "healthy (bank_world bal)" "monero_tx_open (bank_world bal)"
  "authorised (bank_world bal) ''alice'' ''c''" "money_db (bank_world bal) = [''alice'' \<mapsto> alice_account bal]"
  "monero_tx (bank_world bal) = []" "pending_requests (bank_world bal) = []" "clock (bank_world bal) = 1000"
  "log_queue (bank_world bal) = []" "all_transfers (bank_world bal) = []"
  by (simp_all add: bank_world_def alice_world_def healthy_def example_state_defs authorised_def fresh_cookie_def)

lemma example_uptodate_fee: "get_uptodate_fee example_wallet = Done (Some 8000000)"
  by (simp add: get_uptodate_fee_def example_wallet_fee)

lemma alice_withdraws_simps [simp]: "wq_username (alice_withdraws amt) = ''alice''"
  "wq_auth_cookie (alice_withdraws amt) = ''c''" "wq_amt (alice_withdraws amt) = amt"
  by (simp_all add: alice_withdraws_def)

definition alice_transfer :: transfer_req where
  "alice_transfer = \<lparr>tq_username = ''alice'', tq_dst = ''4b'', tq_priority = Some 0,
    tq_amt = 41000000, tq_addr_index = 1\<rparr>"

definition alice_withdrew :: "u64 \<Rightarrow> world" where
  "alice_withdrew bal = (bank_world bal)\<lparr>monero_tx := [alice_transfer], log_queue :=
    [log_record ''127.0.0.1'' (Some ''alice'') (Withdrawal 41000000 ''4b'') LogMoney [] Low 1000]\<rparr>"

lemma alice_withdrawal:
  assumes "40000000 \<le> bal"
  shows "withdraw_monero example_wallet (Some ''127.0.0.1'') (alice_withdraws 50000000) (bank_world bal) =
    (Done (answer OK \<lparr>wp_amt_sent_after_fee = 41000000, wp_fee_taken = 9000000\<rparr>), alice_withdrew bal)"
  using bank_world_facts [of bal] assms
  by (auto simp: withdraw_defs user_then_cookie_def auth_defs healthy_def run_rules Let_def
    example_uptodate_fee authorised_def checked_sub_def send_transfer_req_def alice_account_facts
    alice_withdrew_def alice_transfer_def split: option.splits)

text \<open>
  C6: A withdrawal that is answered with 200 came from a registered user with their cookie, who
  has attached an address and has at least five network fees of balance; what is sent and the fee
  taken add up exactly to the amount asked for; and exactly one transfer is queued, of that amount,
  to the user's own attached address and out of the user's own subaddress, with nothing else
  changed in the state.
\<close>

theorem withdrawal_conserves:
  assumes "withdraw_monero wallet a req w = (Done resp, w')" "rs_status resp = OK"
  shows "withdrawn wallet req resp w w'"
  using wp_done [OF withdraw_wp assms(1)] assms(2) by simp

theorem withdrawal_conserves_witness:
  "\<exists>w'. withdrawn example_wallet (alice_withdraws 50000000)
    (answer OK \<lparr>wp_amt_sent_after_fee = 41000000, wp_fee_taken = 9000000\<rparr>) (bank_world 90000000) w'"
  using withdrawal_conserves [OF alice_withdrawal [of 90000000]] by auto

text \<open>
  Whatever \<open>withdraw_monero\<close> does, a denial or a panic half-way included, at most one transfer
  is queued, and only one that an accepted withdrawal of this request would queue; the account
  itself is never touched.
\<close>

lemma withdrawal_at_most_one:
  "let w' = snd (withdraw_monero wallet a req w) in
    data w' = data w \<or> (\<exists>resp. withdrawn wallet req resp w w')"
proof -
  have "wp (withdraw_monero wallet a req) (\<lambda>_ w'. data w' = data w \<or> (\<exists>resp. withdrawn wallet req resp w w'))
      (\<lambda>w'. data w' = data w \<or> (\<exists>resp. withdrawn wallet req resp w w')) w"
    by (rule wp_conseq [OF withdraw_wp]) (auto split: if_splits)
  from wp_final [OF this] show ?thesis by simp
qed

text \<open>The fee of a withdrawal never exceeds its amount, as long as five network fees fit.\<close>

lemma withdrawal_fee_fits:
  fixes amt net_fee :: u64
  assumes "unat net_fee * 5 < 2 ^ 64" "net_fee * 5 \<le> amt"
  shows "unat (net_fee + 2 * (amt div 100)) = unat net_fee + 2 * (unat amt div 100)"
    and "unat net_fee + 2 * (unat amt div 100) \<le> unat amt"
proof -
  have five: "unat net_fee * 5 \<le> unat amt"
    using assms by (simp add: word_le_nat_alt unat_mult_lem [THEN iffD1])
  have div: "unat (amt div 100) = unat amt div 100" by (simp add: unat_div)
  have "2 * (unat amt div 100) * 50 \<le> unat amt" by linarith
  with five show fits: "unat net_fee + 2 * (unat amt div 100) \<le> unat amt" by linarith
  have amt: "unat amt < 2 ^ 64" using unsigned_less [of amt, where ?'a = nat] by simp
  have two: "unat (2 * (amt div 100)) = 2 * (unat amt div 100)"
    using amt div by (subst unat_mult_lem [THEN iffD1]) simp_all
  show "unat (net_fee + 2 * (amt div 100)) = unat net_fee + 2 * (unat amt div 100)"
    using fits amt two by (simp add: unat_add_exact)
qed

lemma withdrawal_sub_some:
  fixes amt net_fee :: u64
  assumes "unat net_fee * 5 < 2 ^ 64" "net_fee * 5 \<le> amt"
  shows "\<exists>sent. checked_sub amt (net_fee + 2 * (amt div 100)) = Some sent \<and>
    unat sent = unat amt - (unat net_fee + 2 * (unat amt div 100))"
  using withdrawal_fee_fits [OF assms] by (auto simp: checked_sub_def word_le_nat_alt unat_sub)

text \<open>The status a withdrawal is to be answered with: \<open>fee\<close> is the network fee, if the daemon tells it.\<close>

definition withdrawal_status :: "world \<Rightarrow> u64 option \<Rightarrow> withdraw_monero_req \<Rightarrow> status" where
  "withdrawal_status w fee req =
     (if \<not> authorised w (wq_username req) (wq_auth_cookie req) then UNAUTHORIZED
      else case fee of None \<Rightarrow> INTERNAL_SERVER_ERROR
      | Some net_fee \<Rightarrow>
          if wq_amt req < net_fee * 5 then PRECONDITION_FAILED
          else case money_db w (wq_username req) of None \<Rightarrow> UNAUTHORIZED
          | Some f \<Rightarrow>
              if fi_get_balance f < net_fee * 5 then PRECONDITION_FAILED
              else if fi_xmr_addr f = None then BAD_REQUEST
              else if monero_tx_open w then OK else INTERNAL_SERVER_ERROR)"

text \<open>
  C34: On a healthy server, with a fee small enough that five of them fit 64 bits, every withdrawal is decided without a
  panic as follows: without the user's current cookie it is refused with 401; with no fee from the daemon, with 500; below
  five network fees, with 412; without an account, with 401; with a balance below five network fees, with 412; without an
  attached address, with 400; and then it is accepted with 200 if its request can be queued (500 if not). The amount itself
  is never compared with the balance, so a user may be promised more than they own, and the check that the amount exceeds the
  fees never fails.
\<close>

theorem withdrawal_decides:
  assumes "healthy w" "get_uptodate_fee wallet = Done fee" "\<And>n. fee = Some n \<Longrightarrow> unat n * 5 < 2 ^ 64"
  shows "\<exists>resp. fst (withdraw_monero wallet (Some ip) req w) = Done resp \<and> rs_status resp = withdrawal_status w fee req"
proof -
  have sub: "\<exists>sent. checked_sub (wq_amt req) (n + 2 * (wq_amt req div 100)) = Some sent"
    if "fee = Some n" "\<not> wq_amt req < n * 5" for n
    using withdrawal_sub_some [OF assms(3) [OF that(1)], of "wq_amt req"] that(2) unfolding not_less by blast
  have "wp (withdraw_monero wallet (Some ip) req) (\<lambda>resp _. rs_status resp = withdrawal_status w fee req) (\<lambda>_. False) w"
    using assms(1,2) sub
    by (cases fee) (auto simp: withdraw_defs withdrawal_status_def user_then_cookie_def authorised_def auth_defs
      wp_rules wp_log_from_eq Let_def healthy_def run_rules not_less split: option.splits)
  then show ?thesis unfolding wp_def by (auto split: prod.splits outcome.splits)
qed


text \<open>Alice owns 90000000 and is promised the withdrawal of 500000000; without an address she is refused.\<close>

theorem withdrawal_decides_witness:
  "(\<exists>resp. fst (withdraw_monero example_wallet (Some ''127.0.0.1'') (alice_withdraws 500000000) (bank_world 90000000)) =
    Done resp \<and> rs_status resp = OK) \<and>
   (\<exists>resp. fst (withdraw_monero example_wallet (Some ''127.0.0.1'') (alice_withdraws 500000000)
      ((bank_world 90000000)\<lparr>money_db := [''alice'' \<mapsto> (alice_account 90000000)\<lparr>fi_xmr_addr := None\<rparr>]\<rparr>)) =
    Done resp \<and> rs_status resp = BAD_REQUEST)"
proof
  let ?w = "(bank_world 90000000)\<lparr>money_db := [''alice'' \<mapsto> (alice_account 90000000)\<lparr>fi_xmr_addr := None\<rparr>]\<rparr>"
  note f = bank_world_facts [of 90000000]
  have fee: "unat n * 5 < 2 ^ 64" if "Some (8000000 :: u64) = Some n" for n using that by auto
  have "withdrawal_status (bank_world 90000000) (Some 8000000) (alice_withdraws 500000000) = OK"
    using f by (simp add: withdrawal_status_def alice_account_facts)
  with withdrawal_decides [OF f(1) example_uptodate_fee fee]
  show "\<exists>resp. fst (withdraw_monero example_wallet (Some ''127.0.0.1'') (alice_withdraws 500000000) (bank_world 90000000)) =
      Done resp \<and> rs_status resp = OK" by metis
  have h: "healthy ?w" using f(1) by (simp add: healthy_def)
  have "withdrawal_status ?w (Some 8000000) (alice_withdraws 500000000) = BAD_REQUEST"
    using f by (simp add: withdrawal_status_def authorised_def alice_account_facts fi_get_balance_def transfer_out_fees_def)
  with withdrawal_decides [OF h example_uptodate_fee fee]
  show "\<exists>resp. fst (withdraw_monero example_wallet (Some ''127.0.0.1'') (alice_withdraws 500000000) ?w) =
      Done resp \<and> rs_status resp = BAD_REQUEST" by metis
qed

subsection \<open>Reconstructing the service fee\<close>

lemma fee_by_division:
  fixes a f s :: nat
  assumes "s = 2 * (a div 100)" "f + s \<le> a"
  shows "s \<le> ((a - (f + s)) + f) div 49 \<and> ((a - (f + s)) + f) div 49 \<le> s + 2"
proof -
  define k where "k = a div 100"
  define r where "r = a mod 100"
  have a: "a = 100 * k + r" "r < 100" unfolding k_def r_def by presburger+
  have "s = 2 * k" using assms(1) by (simp only: k_def)
  then have "(a - (f + s)) + f = 98 * k + r" using assms(2) a(1) by linarith
  moreover have "(98 * k + r) div 49 = 2 * k + r div 49"
    by presburger
  moreover have "r div 49 \<le> 2" using a(2) by linarith
  moreover have "s = 2 * k" using assms(1) by (simp only: k_def)
  ultimately show ?thesis by linarith
qed

text \<open>
  C39: The comment in \<open>get_balance\<close> derives that the service fee can be recomputed from a transfer as
  (amount + network fee) / 49. For every accepted withdrawal that holds up to rounding: when the
  transfer shows up with the amount sent and the network fee assumed, the recomputed fee is the fee
  that was taken or at most two piconero more.
\<close>

theorem service_fee_reconstructed:
  assumes "withdraw_monero wallet a req w = (Done resp, w')" "rs_body resp = Inr r" "rs_status resp = OK"
    and "get_uptodate_fee wallet = Done (Some net_fee)" "unat net_fee * 5 < 2 ^ 64"
    and "ts_out (fi_transfers f) = [t]" "tr_amount t = wp_amt_sent_after_fee r" "tr_fee t = net_fee"
  shows "unat (wp_fee_taken r) - unat net_fee \<le> unat (transfer_out_fees f) \<and>
    unat (transfer_out_fees f) \<le> unat (wp_fee_taken r) - unat net_fee + 2"
proof -
  from wp_done [OF withdraw_wp assms(1)] assms(3) have "withdrawn wallet req resp w w'" by simp
  then obtain nf where "get_uptodate_fee wallet = Done (Some nf)" "nf * 5 \<le> wq_amt req"
    "wp_fee_taken r = 2 * (wq_amt req div 100) + nf"
    "unat (wp_amt_sent_after_fee r) + unat (wp_fee_taken r) = unat (wq_amt req)"
    using assms(2) by (auto simp: withdrawn_def)
  with assms(4) have min: "net_fee * 5 \<le> wq_amt req"
    and fee: "wp_fee_taken r = net_fee + 2 * (wq_amt req div 100)"
    and sum: "unat (wp_amt_sent_after_fee r) + unat (wp_fee_taken r) = unat (wq_amt req)"
    by (simp_all add: add.commute)
  let ?s = "2 * (unat (wq_amt req) div 100)"
  from withdrawal_fee_fits [OF assms(5) min] fee
  have taken: "unat (wp_fee_taken r) = unat net_fee + ?s"
    and fits: "unat net_fee + ?s \<le> unat (wq_amt req)" by simp_all
  with sum have sent: "unat (wp_amt_sent_after_fee r) = unat (wq_amt req) - (unat net_fee + ?s)" by linarith
  have "unat (wp_amt_sent_after_fee r) + unat net_fee < 2 ^ 64"
    using sent fits unsigned_less [of "wq_amt req", where ?'a = nat] by simp
  then have "unat (transfer_out_fees f) = (unat (wp_amt_sent_after_fee r) + unat net_fee) div 49"
    using assms(6-8) by (simp add: transfer_out_fees_def unat_div unat_add_exact)
  with fee_by_division [OF refl fits] taken sent show ?thesis by simp
qed

theorem service_fee_reconstructed_witness:
  "let f = (alice_account 0)\<lparr>fi_transfers := \<lparr>ts_addr_index = 1, ts_in = [],
      ts_out = [(example_transfer 1 41000000)\<lparr>tr_fee := 8000000\<rparr>]\<rparr>\<rparr> in
    unat (transfer_out_fees f) \<le> 1000002"
  using service_fee_reconstructed [OF alice_withdrawal [of 90000000] _ _ example_uptodate_fee,
      where r = "\<lparr>wp_amt_sent_after_fee = 41000000, wp_fee_taken = 9000000\<rparr>"
        and t = "(example_transfer 1 41000000)\<lparr>tr_fee := 8000000\<rparr>"
        and f = "(alice_account 0)\<lparr>fi_transfers := \<lparr>ts_addr_index = 1, ts_in = [],
          ts_out = [(example_transfer 1 41000000)\<lparr>tr_fee := 8000000\<rparr>]\<rparr>\<rparr>"]
  by (simp add: Let_def example_transfer_def)

subsection \<open>The withdrawal address\<close>

text \<open>
  Attaching an address, in every outcome, changes either nothing at all or exactly one field:
  the withdrawal address of the authorised user's own account, to the address the request names,
  which must parse. Balance, deposit address, transfers and every other account stay.
\<close>

lemma attach_changes_address_only:
  "let w' = snd (attach_xmr_address env a req w); u = ax_username req in
    data w' = data w \<or>
    (\<exists>f addr. authorised w u (ax_auth_cookie req) \<and> money_db w u = Some f \<and>
      ap_from_str (ev_addr env) (ax_monero_address req) = Some addr \<and>
      data w' = data (w\<lparr>money_db := (money_db w)(u \<mapsto> f\<lparr>fi_xmr_addr := Some addr\<rparr>)\<rparr>))"
proof -
  let ?P = "\<lambda>w'. data w' = data w \<or>
    (\<exists>f addr. authorised w (ax_username req) (ax_auth_cookie req) \<and>
      money_db w (ax_username req) = Some f \<and>
      ap_from_str (ev_addr env) (ax_monero_address req) = Some addr \<and>
      data w' = data (w\<lparr>money_db := (money_db w)(ax_username req \<mapsto> f\<lparr>fi_xmr_addr := Some addr\<rparr>)\<rparr>))"
  have "wp (attach_xmr_address env a req) (\<lambda>_. ?P) ?P w"
    by (auto simp: attach_xmr_address_def wp_control Let_def data_def intro!: money_steps
      split: option.splits)
  from wp_final [OF this] show ?thesis by (simp add: Let_def)
qed

text \<open>
  Asking for the balance or for a deposit address changes nothing, in any outcome; and the balance
  an authorised user of a healthy server is told is \<open>get_balance\<close> of their account.
\<close>

lemma balance_query:
  "data (snd (get_balance a req w)) = data w \<and>
   data (snd (deposit_req env wallet a req w)) = data w \<and>
   (healthy w \<and> a \<noteq> None \<and> authorised w (az_username req) (az_auth_cookie req) \<longrightarrow>
     fst (get_balance a req w) = (case money_db w (az_username req) of None \<Rightarrow> Panic
       | Some f \<Rightarrow> Done (answer OK \<lparr>bl_balance = fi_get_balance f, bl_pending_deposits = fi_pending_balance f\<rparr>)))"
proof (intro conjI impI)
  let ?P = "\<lambda>w'. data w' = data w"
  have "wp (get_balance a req) (\<lambda>_. ?P) ?P w"
    by (auto simp: get_balance_def wp_control Let_def data_def intro!: money_steps split: option.splits)
  from wp_final [OF this] show "data (snd (get_balance a req w)) = data w" .
  have "wp (deposit_req env wallet a req) (\<lambda>_. ?P) ?P w"
    by (auto simp: deposit_req_def wp_control wp_gets Let_def data_def intro!: money_steps
      split: option.splits outcome.splits)
  from wp_final [OF this] show "data (snd (deposit_req env wallet a req w)) = data w" .
  assume "healthy w \<and> a \<noteq> None \<and> authorised w (az_username req) (az_auth_cookie req)"
  then have "wp (get_balance a req) (\<lambda>resp _. Done resp = (case money_db w (az_username req) of None \<Rightarrow> Panic
       | Some f \<Rightarrow> Done (answer OK \<lparr>bl_balance = fi_get_balance f, bl_pending_deposits = fi_pending_balance f\<rparr>)))
     (\<lambda>_. money_db w (az_username req) = None) w"
    by (auto simp: get_balance_def cookie_then_user_def authorised_def auth_defs healthy_def Let_def
      wp_rules wp_log_from_eq split: option.splits)
  then show "fst (get_balance a req w) = (case money_db w (az_username req) of None \<Rightarrow> Panic
       | Some f \<Rightarrow> Done (answer OK \<lparr>bl_balance = fi_get_balance f, bl_pending_deposits = fi_pending_balance f\<rparr>))"
    unfolding wp_def by (auto split: prod.splits outcome.splits)
qed

lemma balance_query_example:
  "fst (get_balance (Some ''127.0.0.1'') \<lparr>az_username = ''alice'', az_auth_cookie = ''c''\<rparr> (bank_world 90000000)) =
    Done (answer OK \<lparr>bl_balance = 90000000, bl_pending_deposits = 0\<rparr>)"
  using balance_query [of "Some ''127.0.0.1''" "\<lparr>az_username = ''alice'', az_auth_cookie = ''c''\<rparr>"
      "bank_world 90000000" example_env example_wallet] bank_world_facts [of 90000000]
  by (simp add: alice_account_facts)

end
