(* ===== verification/Money_Tasks.thy ===== *)
theory Money_Tasks
  imports Money_Handlers
begin

section \<open>The money tasks: background loops of src/money.rs\<close>

text \<open>
  One round of each endless loop that keeps the accounts up to date with the wallet:
  \<open>update_transfers\<close>, \<open>update_acc_balances\<close>, and the two tasks of \<open>send_monero\<close>. (The round of
  \<open>update_cached_fee\<close> is in the theory \<open>Financial\<close>.) The order in which sled visits the accounts
  is an argument; \<open>find_any\<close> is the first match, which is the only one in a wallet's answer.
\<close>

subsection \<open>update_transfers\<close>

text \<open>\<open>values().map(|f| f.unwrap().transfers.addr_index).collect()\<close>.\<close>

definition account_indices :: "string list \<Rightarrow> (world, u64 list) eff" where
  "account_indices ks = and_then (db_values MoneyDB ks) (\<lambda>vs.
     if \<exists>e. Inl e \<in> set vs then panic
     else ret (map (\<lambda>v. case v of Inl _ \<Rightarrow> 0 | Inr f \<Rightarrow> ts_addr_index (fi_transfers f)) vs))"

definition update_transfers :: "('v, 'h, 'b, 'tx) wallet \<Rightarrow> string list \<Rightarrow> (world, unit) eff" where
  "update_transfers wallet ks = and_then (account_indices ks) (\<lambda>indices.
     and_then (lift_outcome (wallet_get_transfers wallet indices True True)) (\<lambda>r. case r of
         Inr t \<Rightarrow> modify (\<lambda>w. w\<lparr>all_transfers := t\<rparr>)
       | Inl _ \<Rightarrow> ret ()))"

subsection \<open>update_acc_balances\<close>

definition find_balance :: "wallet_error + wallet_balance \<Rightarrow> u64 \<Rightarrow> subaddress_balance option" where
  "find_balance all_balances i = (case all_balances of
      Inl _ \<Rightarrow> None
    | Inr b \<Rightarrow> find (\<lambda>s. sb_addr_index s = i) (wb_per_subaddress b))"

text \<open>The body of the loop over the accounts: new transfers, balance and pending balance.\<close>

definition refresh_account ::
    "wallet_error + wallet_balance \<Rightarrow> wallet_error + wallet_balance \<Rightarrow> string \<Rightarrow> financial_info \<Rightarrow>
     (world, financial_info) eff" where
  "refresh_account all_balances all_full_balances username f =
     and_then (gets all_transfers) (\<lambda>ts.
     and_then (unwrap_opt (checked_sub (ts_addr_index (fi_transfers f)) 1)) (\<lambda>i.
     let f1 = (if unat i < length ts then f\<lparr>fi_transfers := ts ! unat i\<rparr> else f) in
     and_then
       (case find_balance all_balances (ts_addr_index (fi_transfers f1)) of
          Some balance \<Rightarrow>
            if fi_balance f1 \<noteq> sb_balance balance
            then and_then (log_from (Some ''127.0.0.1'') (Some username)
                   (BalanceChange (fi_balance f1) (sb_balance balance)) LogMoney [] Low) (\<lambda>_.
                 ret (f1\<lparr>fi_balance := sb_balance balance\<rparr>))
            else ret f1
        | None \<Rightarrow> ret f1) (\<lambda>f2.
     ret (case find_balance all_full_balances (ts_addr_index (fi_transfers f2)) of
          Some balance \<Rightarrow> f2\<lparr>fi_pending_balance := sb_balance balance - fi_balance f2\<rparr>
        | None \<Rightarrow> f2))))"

text \<open>An account that cannot be read is skipped.\<close>

fun refresh_accounts ::
    "wallet_error + wallet_balance \<Rightarrow> wallet_error + wallet_balance \<Rightarrow>
     (sled_error + string \<times> financial_info) list \<Rightarrow> (world, (string \<times> financial_info) list) eff" where
  "refresh_accounts all_balances all_full_balances [] = ret []"
| "refresh_accounts all_balances all_full_balances (Inl _ # items) =
     refresh_accounts all_balances all_full_balances items"
| "refresh_accounts all_balances all_full_balances (Inr (username, f) # items) =
     and_then (refresh_account all_balances all_full_balances username f) (\<lambda>f'.
     and_then (refresh_accounts all_balances all_full_balances items) (\<lambda>batch.
     ret ((username, f') # batch)))"

text \<open>A round reads all accounts, computes the batch, and applies it at the end. Other handlers
  may run between the two halves.\<close>

definition acc_balances_batch ::
    "('v, 'h, 'b, 'tx) wallet \<Rightarrow> string list \<Rightarrow> (world, (string \<times> financial_info) list) eff" where
  "acc_balances_batch wallet ks =
     and_then (account_indices ks) (\<lambda>indices.
     and_then (lift_outcome (wallet_get_balance wallet indices)) (\<lambda>all_balances.
     and_then (lift_outcome (wallet_get_all_balance wallet indices)) (\<lambda>all_full_balances.
     and_then (db_iter MoneyDB ks) (refresh_accounts all_balances all_full_balances))))"

definition update_acc_balances :: "('v, 'h, 'b, 'tx) wallet \<Rightarrow> string list \<Rightarrow> (world, unit) eff" where
  "update_acc_balances wallet ks =
     and_then (acc_balances_batch wallet ks) (\<lambda>batch. unwrapped (db_apply_batch MoneyDB batch))"

subsection \<open>send_monero\<close>

text \<open>
  The receiving task, for the next request of the channel. It owns the receiving end, so a panic
  closes the channel.
\<close>

definition queue_request :: "transfer_req \<Rightarrow> (world, unit) eff" where
  "queue_request req = and_then (unwrapped (db_get MoneyDB (tq_username req))) (\<lambda>found.
     and_then (unwrap_opt found) (\<lambda>financial_info.
     if tq_amt req \<le> fi_get_balance financial_info
     then modify (\<lambda>w. w\<lparr>pending_requests := pending_requests w @ [req]\<rparr>)
     else ret ()))"

definition receive_request :: "(world, unit) eff" where
  "receive_request = (\<lambda>w. case monero_tx w of
      [] \<Rightarrow> (Done (), w)
    | req # rest \<Rightarrow> (case queue_request req (w\<lparr>monero_tx := rest\<rparr>) of
        (Done _, w') \<Rightarrow> (Done (), w')
      | (Panic, w') \<Rightarrow> (Panic, w'\<lparr>monero_tx_open := False\<rparr>)))"

text \<open>
  The sending task, for one pass over the pending requests, whose lock it holds throughout. The
  wallet answers call by call. What is written is the account as it was read, with more fees.
\<close>

definition settle :: "transfer_req \<Rightarrow> transfer_out \<Rightarrow> (world, unit) eff" where
  "settle req out = and_then (unwrapped (db_get MoneyDB (tq_username req))) (\<lambda>found.
     and_then (unwrap_opt found) (\<lambda>f.
     let f' = f\<lparr>fi_service_fee_total := fi_service_fee_total f + (tq_amt req + to_fee out) div 49\<rparr> in
     and_then (unwrapped (db_insert MoneyDB (tq_username req) f')) (\<lambda>_.
     and_then (unwrapped (sled_call (\<lambda>w. ((), w)))) (\<lambda>_.
     and_then (unwrapped (db_insert MoneyDB (tq_username req) f')) (\<lambda>_. ret ())))))"

function send_from ::
    "(nat \<Rightarrow> ('v, 'h, 'b, 'tx) wallet) \<Rightarrow> nat \<Rightarrow> nat \<Rightarrow> transfer_req list \<Rightarrow> (world, unit) eff" where
  "send_from wallets call i pending =
     (if length pending \<le> i then ret ()
      else let req = pending ! i in
        and_then (lift_outcome (wallet_transfer (wallets call) (tq_priority req) (tq_dst req)
          (tq_amt req) (tq_addr_index req))) (\<lambda>r. case r of
            Inr out \<Rightarrow>
              and_then (settle req out) (\<lambda>_.
              and_then (modify (\<lambda>w. w\<lparr>pending_requests := take i pending @ drop (Suc i) pending\<rparr>)) (\<lambda>_.
              send_from wallets (Suc call) i (take i pending @ drop (Suc i) pending)))
          | Inl _ \<Rightarrow> send_from wallets (Suc call) (Suc i) pending))"
  by pat_completeness auto
termination by (relation "measure (\<lambda>(_, _, i, pending). length pending - i)") auto

declare send_from.simps [simp del]

definition send_pending :: "(nat \<Rightarrow> ('v, 'h, 'b, 'tx) wallet) \<Rightarrow> (world, unit) eff" where
  "send_pending wallets = and_then (gets pending_requests) (send_from wallets 0 0)"

subsection \<open>What a round of the balances does\<close>

text \<open>The account after its refresh, as a function: what the code means to compute.\<close>

definition refreshed ::
    "transfers list \<Rightarrow> wallet_error + wallet_balance \<Rightarrow> wallet_error + wallet_balance \<Rightarrow>
     financial_info \<Rightarrow> financial_info" where
  "refreshed ts all_balances all_full_balances f = (
     let i = unat (ts_addr_index (fi_transfers f)) - 1;
         f1 = (if i < length ts then f\<lparr>fi_transfers := ts ! i\<rparr> else f);
         f2 = (case find_balance all_balances (ts_addr_index (fi_transfers f1)) of
             Some balance \<Rightarrow> f1\<lparr>fi_balance := sb_balance balance\<rparr> | None \<Rightarrow> f1)
     in case find_balance all_full_balances (ts_addr_index (fi_transfers f1)) of
          Some balance \<Rightarrow> f2\<lparr>fi_pending_balance := sb_balance balance - fi_balance f2\<rparr>
        | None \<Rightarrow> f2)"

lemma checked_sub_one:
  fixes x :: "'a::len word"
  shows "checked_sub x 1 = (if x = 0 then None else Some (x - 1))"
  by (auto simp: checked_sub_def word_le_nat_alt unat_eq_zero not_le)

lemma unat_pred: "(x :: 'a::len word) \<noteq> 0 \<Longrightarrow> unat (x - 1) = unat x - 1"
  by (rule unat_minus_one)

text \<open>
  The refresh of one account either gives \<open>refreshed\<close>, adding at most a log record, or panics,
  which on a healthy server happens exactly for the subaddress 0.
\<close>

lemma wp_refresh_account:
  assumes "\<And>q. ts_addr_index (fi_transfers f) \<noteq> 0 \<Longrightarrow>
      Q (refreshed (all_transfers w) b fb f) (w\<lparr>log_queue := q\<rparr>)"
    and "ts_addr_index (fi_transfers f) = 0 \<or> \<not> (0 \<le> clock w \<and> log_open w) \<Longrightarrow> E w"
  shows "wp (refresh_account b fb u f) Q E w"
proof (cases "ts_addr_index (fi_transfers f) = 0")
  case True
  with assms(2) show ?thesis by (simp add: refresh_account_def wp_rules checked_sub_one)
next
  case False
  have keep: "f\<lparr>fi_balance := b\<rparr> = f" if "fi_balance f = b" for f :: financial_info and b
    using that by (cases f) simp
  have same: "w\<lparr>log_queue := log_queue w\<rparr> = w" by simp
  note Q = assms(1) [OF False]
  have Q0: "Q (refreshed (all_transfers w) b fb f) w" using Q [of "log_queue w"] by simp
  show ?thesis
    using False assms(2) Q Q0
    by (auto simp: refresh_account_def wp_rules wp_log_from_eq checked_sub_one Let_def refreshed_def
        unat_pred keep split: option.splits)
qed


definition read_ok :: "(sled_error + 'a) list \<Rightarrow> 'a list" where
  "read_ok items = List.map_filter (\<lambda>i. case i of Inl _ \<Rightarrow> None | Inr x \<Rightarrow> Some x) items"

lemma read_ok_simps [simp]: "read_ok [] = []" "read_ok (Inl e # is) = read_ok is"
  "read_ok (Inr x # is) = x # read_ok is" "read_ok (map Inr xs) = xs"
  by (simp_all add: read_ok_def map_filter_simps) (induction xs, simp_all add: map_filter_simps)

lemma set_read_ok: "x \<in> set (read_ok items) \<longleftrightarrow> Inr x \<in> set items"
  by (induction items) (auto split: sum.splits simp: read_ok_def map_filter_simps)

text \<open>Nothing but log records.\<close>

definition log_only :: "world \<Rightarrow> world \<Rightarrow> bool" where
  "log_only w w' \<longleftrightarrow> (\<exists>q. w' = w\<lparr>log_queue := q\<rparr>)"

lemma log_only_simps [simp]: "log_only w (w\<lparr>log_queue := q\<rparr>)" "log_only w w"
  "log_only (w\<lparr>log_queue := q\<rparr>) = log_only w"
proof -
  show "log_only w w" unfolding log_only_def by (rule exI [of _ "log_queue w"]) simp
qed (auto simp: log_only_def fun_eq_iff)

lemma log_only_data: "log_only w w' \<Longrightarrow> data w' = data w"
  by (auto simp: log_only_def)

lemma wp_refresh_accounts:
  "wp (refresh_accounts b fb items)
    (\<lambda>batch w'. batch = map (\<lambda>(u, f). (u, refreshed (all_transfers w) b fb f)) (read_ok items) \<and>
      log_only w w')
    (\<lambda>w'. log_only w w' \<and> (\<not> (0 \<le> clock w \<and> log_open w) \<or>
      (\<exists>x \<in> set (read_ok items). ts_addr_index (fi_transfers (snd x)) = 0))) w"
proof (induction items arbitrary: w)
  case Nil
  then show ?case by (simp add: wp_ret)
next
  case (Cons i items)
  show ?case
  proof (cases i)
    case (Inl e)
    with Cons show ?thesis by simp
  next
    case (Inr x)
    obtain u f where x: "x = (u, f)" by (cases x)
    show ?thesis unfolding Inr x
      by (auto simp: wp_and_then wp_ret intro!: wp_refresh_account wp_conseq [OF Cons.IH])
  qed
qed

lemma account_indices_wp:
  "wp (account_indices ks) Q E w =
    (let vs = map (map_sum id snd) (faulty_items (sled_faults w) (entries ks (money_db w)));
         w' = w\<lparr>sled_faults := drop (length (entries ks (money_db w))) (sled_faults w)\<rparr> in
     if \<exists>e. Inl e \<in> set vs then E w'
     else Q (map (\<lambda>v. case v of Inl _ \<Rightarrow> 0 | Inr f \<Rightarrow> ts_addr_index (fi_transfers f)) vs) w')"
  by (simp add: account_indices_def db_values_def wp_rules Let_def store_defs)

lemma read_ok_faulty: "x \<in> set (read_ok (faulty_items fs (entries ks m))) \<Longrightarrow> x \<in> set (entries ks m)"
  using faulty_items_sound by (fastforce simp: set_read_ok)

text \<open>What the batch holds: refreshed copies of accounts as they were when the round began.\<close>

lemma acc_balances_batch_wp:
  "wp (acc_balances_batch wallet ks)
    (\<lambda>batch w'. data w' = data w \<and> (\<exists>b fb. \<forall>(u, f') \<in> set batch. u \<in> set ks \<and>
      (\<exists>f. money_db w u = Some f \<and> f' = refreshed (all_transfers w) b fb f)))
    (\<lambda>w'. data w' = data w) w"
proof -
  have "wp (refresh_accounts b fb (faulty_items fs (entries ks (money_db w))))
      (\<lambda>batch w'. data w' = data w \<and> (\<exists>b fb. \<forall>(u, f') \<in> set batch. u \<in> set ks \<and>
        (\<exists>f. money_db w u = Some f \<and> f' = refreshed (all_transfers w) b fb f)))
      (\<lambda>w'. data w' = data w) (w\<lparr>sled_faults := fs'\<rparr>)" for b fb fs fs'
    by (rule wp_conseq [OF wp_refresh_accounts])
      (fastforce dest!: read_ok_faulty log_only_data simp: set_entries)+
  then show ?thesis
    by (auto simp: acc_balances_batch_def wp_and_then account_indices_wp wp_lift_outcome wp_db_iter
        Let_def store_defs split: outcome.splits)
qed


lemma refreshed_keeps:
  "fi_xmr_addr (refreshed ts b fb f) = fi_xmr_addr f"
  "fi_deposit_addr (refreshed ts b fb f) = fi_deposit_addr f"
  "fi_service_fee_total (refreshed ts b fb f) = fi_service_fee_total f"
  "fi_amount_spent (refreshed ts b fb f) = fi_amount_spent f"
  by (auto simp: refreshed_def Let_def split: option.split)

text \<open>Equal in what the refresh has no business changing.\<close>

definition same_owner :: "financial_info \<Rightarrow> financial_info \<Rightarrow> bool" where
  "same_owner f g \<longleftrightarrow> fi_xmr_addr g = fi_xmr_addr f \<and> fi_deposit_addr g = fi_deposit_addr f \<and>
    fi_service_fee_total g = fi_service_fee_total f \<and> fi_amount_spent g = fi_amount_spent f"

lemma same_owner_refreshed [simp]: "same_owner f (refreshed ts b fb f)"
  by (simp add: same_owner_def refreshed_keeps)

lemma wp_apply_batch:
  assumes "\<And>fs. Q () (w\<lparr>sled_faults := fs, money_db := money_db w ++ map_of (rev batch)\<rparr>)"
    and "\<And>fs. E (w\<lparr>sled_faults := fs\<rparr>)"
  shows "wp (unwrapped (db_apply_batch MoneyDB batch)) Q E w"
  using assms by (simp add: db_apply_batch_def store_defs wp_rules)

text \<open>
  A round of \<open>update_acc_balances\<close>, run without interruption, never creates or loses an account
  and never touches what an account's owner or a purchase put there: the withdrawal address, the
  deposit address, the service fees charged and the amount spent, in every outcome and under every
  sled error.
\<close>

lemma balances_round_keeps_accounts:
  "let w' = snd (update_acc_balances wallet ks w) in
    \<forall>u. case money_db w u of None \<Rightarrow> money_db w' u = None
      | Some f \<Rightarrow> (\<exists>g. money_db w' u = Some g \<and> same_owner f g)"
proof -
  let ?P = "\<lambda>w'. \<forall>u. case money_db w u of None \<Rightarrow> money_db w' u = None
      | Some f \<Rightarrow> (\<exists>g. money_db w' u = Some g \<and> same_owner f g)"
  have same: "?P w'" if "data w' = data w" for w'
    using data_eqD(3) [OF that] by (auto simp: same_owner_def split: option.split)
  have batch: "?P (w1\<lparr>sled_faults := fs, money_db := money_db w1 ++ map_of (rev batch)\<rparr>)"
    if w1: "data w1 = data w" and b: "\<forall>(u, f') \<in> set batch. u \<in> set ks \<and>
      (\<exists>f. money_db w u = Some f \<and> f' = refreshed (all_transfers w) b fb f)" for w1 fs batch b fb
  proof
    fix u
    have eq: "money_db w1 u = money_db w u" using data_eqD(3) [OF w1] by simp
    show "case money_db w u of
        None \<Rightarrow> money_db (w1\<lparr>sled_faults := fs, money_db := money_db w1 ++ map_of (rev batch)\<rparr>) u = None
      | Some f \<Rightarrow> \<exists>g. money_db (w1\<lparr>sled_faults := fs, money_db := money_db w1 ++ map_of (rev batch)\<rparr>) u =
          Some g \<and> same_owner f g"
    proof (cases "map_of (rev batch) u")
      case None
      with eq same [of w] show ?thesis by (auto simp: map_add_def same_owner_def split: option.split)
    next
      case (Some f')
      then have "(u, f') \<in> set batch" by (auto dest: map_of_SomeD)
      with b obtain f where "money_db w u = Some f" "f' = refreshed (all_transfers w) b fb f" by blast
      with Some show ?thesis by (simp add: map_add_def)
    qed
  qed
  have "wp (update_acc_balances wallet ks) (\<lambda>_. ?P) ?P w"
    unfolding update_acc_balances_def wp_and_then
    by (rule wp_conseq [OF acc_balances_batch_wp])
      (use batch same in \<open>auto intro!: wp_apply_batch simp del: fun_upd_apply\<close>)
  from wp_final [OF this] show ?thesis by (simp add: Let_def)
qed

lemma acc_balances_batch_run:
  assumes "healthy w" "enumerates ks (money_db w)"
    and "\<forall>f \<in> ran (money_db w). ts_addr_index (fi_transfers f) \<noteq> 0"
    and "indices = map (\<lambda>x. ts_addr_index (fi_transfers (snd x))) (entries ks (money_db w))"
    and "wallet_get_balance wallet indices = Done b" "wallet_get_all_balance wallet indices = Done fb"
  shows "\<exists>q. acc_balances_batch wallet ks w = (Done (map (\<lambda>(u, f).
    (u, refreshed (all_transfers w) b fb f)) (entries ks (money_db w))), w\<lparr>log_queue := q\<rparr>)"
proof -
  let ?es = "entries ks (money_db w)"
  let ?batch = "map (\<lambda>(u, f). (u, refreshed (all_transfers w) b fb f)) ?es"
  have es: "set ?es = {(u, f). money_db w u = Some f}" "map fst ?es = ks"
    using assms(2) by (auto simp: set_entries_all enumerates_def map_fst_entries)
  have refresh: "wp (refresh_accounts b fb (map Inr ?es))
      (\<lambda>batch w'. batch = ?batch \<and> log_only w w') (\<lambda>_. False) w"
    by (rule wp_conseq [OF wp_refresh_accounts]) (use assms(1,3) es(1) in \<open>auto simp: healthy_def ran_def\<close>)
  have "w\<lparr>sled_faults := []\<rparr> = w" using assms(1) by (simp add: healthy_def)
  then have refresh': "wp (refresh_accounts b fb (map Inr ?es))
      (\<lambda>batch w'. batch = ?batch \<and> log_only w w') (\<lambda>_. False) (w\<lparr>sled_faults := []\<rparr>)"
    by (simp only: refresh)
  have "wp (acc_balances_batch wallet ks) (\<lambda>batch w'. batch = ?batch \<and> log_only w w') (\<lambda>_. False) w"
    using refresh' assms(1,5,6) unfolding assms(4)
    by (auto simp: acc_balances_batch_def wp_and_then account_indices_wp wp_lift_outcome wp_db_iter
        Let_def store_defs healthy_def comp_def)
  then show ?thesis unfolding wp_def log_only_def by (auto split: prod.splits outcome.splits)
qed

lemma example_balances:
  "\<exists>b. wallet_get_balance example_wallet idx = Done b" "\<exists>b. wallet_get_all_balance example_wallet idx = Done b"
  by (simp_all add: wallet_get_balance_def wallet_get_all_balance_def example_wallet_def example_wallet_rpc_def
    wallet_rpc_new_def rpc_get_balance_def request_def request_with_def upt_rec json_tree_api_def field_def
    field_u64_def field_str_def parse_subaddress_def example_addr_api_def example_subaddress_def map_err_def Let_def)

text \<open>
  C36: The two halves of the round are not atomic, and what happens to an account between them is
  lost: applying the batch sets every account it holds back to the withdrawal address, the fees and
  the amount spent that it had when the batch was computed, whatever the state it is applied to
  holds. A purchase, a withdrawal fee or a new address recorded in between disappears.
\<close>

theorem batch_undoes_updates:
  assumes "acc_balances_batch wallet ks w = (Done batch, w1)" and "u \<in> fst ` set batch"
    and "db_apply_batch MoneyDB batch w2 = (Done (Inr ()), w3)"
  shows "\<exists>f g. money_db w u = Some f \<and> money_db w3 u = Some g \<and> same_owner f g"
proof -
  from wp_done [OF acc_balances_batch_wp assms(1)] obtain b fb where b: "\<forall>(u, f') \<in> set batch. u \<in> set ks \<and>
    (\<exists>f. money_db w u = Some f \<and> f' = refreshed (all_transfers w) b fb f)" by blast
  have "u \<in> dom (map_of (rev batch))" using assms(2) by (auto simp: dom_map_of_conv_image_fst)
  then obtain f' where f': "map_of (rev batch) u = Some f'" by blast
  then have "(u, f') \<in> set batch" by (auto dest: map_of_SomeD)
  with b obtain f where "money_db w u = Some f" "f' = refreshed (all_transfers w) b fb f" by blast
  moreover have "money_db w3 u = Some f'"
    using assms(3) f' by (auto simp: db_apply_batch_def sled_call_def store_defs split: if_splits)
  ultimately show ?thesis by simp
qed

text \<open>Alice spends her money while a batch is being computed; applying it gives it back.\<close>

theorem batch_undoes_updates_witness:
  "\<exists>batch w1 w3. acc_balances_batch example_wallet [''alice''] (bank_world 90000000) = (Done batch, w1) \<and>
    db_apply_batch MoneyDB batch ((bank_world 90000000)\<lparr>money_db :=
      [''alice'' \<mapsto> snd (spend_money 80000000 (alice_account 90000000))]\<rparr>) = (Done (Inr ()), w3) \<and>
    map_option fi_amount_spent (money_db w3 ''alice'') = Some 0"
proof -
  let ?w = "bank_world 90000000"
  obtain b where b: "wallet_get_balance example_wallet [1] = Done b"
    using example_balances by blast
  obtain fb where fb: "wallet_get_all_balance example_wallet [1] = Done fb"
    using example_balances by blast
  obtain batch q where run: "acc_balances_batch example_wallet [''alice''] ?w = (Done batch, ?w\<lparr>log_queue := q\<rparr>)"
    and batch: "batch = [(''alice'', refreshed [] b fb (alice_account 90000000))]"
    using acc_balances_batch_run [of ?w "[''alice'']" "[1]" example_wallet b fb] b fb
      bank_world_facts [of 90000000]
    by (auto simp: enumerates_def alice_account_facts)
  let ?w2 = "?w\<lparr>money_db := [''alice'' \<mapsto> snd (spend_money 80000000 (alice_account 90000000))]\<rparr>"
  obtain w3 where app: "db_apply_batch MoneyDB batch ?w2 = (Done (Inr ()), w3)"
    using bank_world_facts(1) [of 90000000] by (simp add: db_apply_batch_def run_rules healthy_def)
  have "''alice'' \<in> fst ` set batch" using batch by simp
  from batch_undoes_updates [OF run this app] have "map_option fi_amount_spent (money_db w3 ''alice'') = Some 0"
    using bank_world_facts(4) [of 90000000] by (auto simp: same_owner_def alice_account_facts)
  with run app show ?thesis by blast
qed

lemma balances_round_run:
  assumes "healthy w" "enumerates ks (money_db w)"
    and "\<forall>f \<in> ran (money_db w). ts_addr_index (fi_transfers f) \<noteq> 0"
    and "indices = map (\<lambda>x. ts_addr_index (fi_transfers (snd x))) (entries ks (money_db w))"
    and "wallet_get_balance wallet indices = Done b" "wallet_get_all_balance wallet indices = Done fb"
  shows "\<exists>q. update_acc_balances wallet ks w = (Done (), w\<lparr>log_queue := q,
    money_db := (\<lambda>u. map_option (refreshed (all_transfers w) b fb) (money_db w u))\<rparr>)"
proof -
  let ?es = "entries ks (money_db w)"
  let ?batch = "map (\<lambda>(u, f). (u, refreshed (all_transfers w) b fb f)) ?es"
  have es: "set ?es = {(u, f). money_db w u = Some f}" "map fst ?es = ks"
    using assms(2) by (auto simp: set_entries_all enumerates_def map_fst_entries)
  have "map fst ?batch = ks" using es(2) by (simp add: comp_def case_prod_beta)
  then have "map_of (rev ?batch) = map_of ?batch"
    using assms(2) by (intro map_of_rev_distinct) (simp add: enumerates_def)
  also have "\<dots> = (\<lambda>u. map_option (refreshed (all_transfers w) b fb) (money_db w u))"
    unfolding map_of_map map_of_entries_all [OF assms(2)] by (simp add: comp_def)
  finally have batch: "money_db w ++ map_of (rev ?batch) =
      (\<lambda>u. map_option (refreshed (all_transfers w) b fb) (money_db w u))"
    by (auto simp: map_add_def fun_eq_iff split: option.split)
  from acc_balances_batch_run [OF assms] obtain q where
    run: "acc_balances_batch wallet ks w = (Done ?batch, w\<lparr>log_queue := q\<rparr>)" by blast
  show ?thesis
    by (rule exI [of _ q]) (use assms(1) batch in \<open>simp add: update_acc_balances_def
      and_then_done [where m = "acc_balances_batch wallet ks", OF run] unwrapped_def db_apply_batch_def run_rules store_defs healthy_def\<close>)
qed

text \<open>
  C14: The round computes what it is meant to: on a healthy server, visiting every account, with no
  account on subaddress 0 and the wallet answering both calls (with balances or an error), it ends
  without a panic and replaces every account by its \<open>refreshed\<close> value (the transfers of its slot, the
  wallet's unlocked balance, and the rest of the full balance as pending), changing nothing else but
  the log.
\<close>

theorem balances_round_refreshes:
  assumes "healthy w" "enumerates ks (money_db w)"
    and "\<forall>f \<in> ran (money_db w). ts_addr_index (fi_transfers f) \<noteq> 0"
    and "indices = map (\<lambda>x. ts_addr_index (fi_transfers (snd x))) (entries ks (money_db w))"
    and "wallet_get_balance wallet indices = Done b" "wallet_get_all_balance wallet indices = Done fb"
  shows "\<exists>q. update_acc_balances wallet ks w = (Done (), w\<lparr>log_queue := q,
    money_db := (\<lambda>u. map_option (refreshed (all_transfers w) b fb) (money_db w u))\<rparr>)"
  using assms by (rule balances_round_run)


theorem balances_round_refreshes_witness:
  "\<exists>b fb q. wallet_get_balance example_wallet [1] = Done b \<and>
    update_acc_balances example_wallet [''alice''] (bank_world 7) = (Done (), (bank_world 7)\<lparr>log_queue := q,
      money_db := (\<lambda>u. map_option (refreshed [] b fb) (money_db (bank_world 7) u))\<rparr>)"
proof -
  obtain b where b: "wallet_get_balance example_wallet [1] = Done b"
    using example_balances by blast
  obtain fb where fb: "wallet_get_all_balance example_wallet [1] = Done fb"
    using example_balances by blast
  note f = bank_world_facts [of 7]
  have "enumerates [''alice''] (money_db (bank_world 7))" using f(4) by (simp add: enumerates_def)
  from balances_round_refreshes [OF f(1) this _ _ b fb] f(4,9) b show ?thesis
    by (auto simp: alice_account_facts)
qed

subsection \<open>Whose balance is it?\<close>

lemma and_try_InrD: "and_try m f = Done (Inr y) \<Longrightarrow> \<exists>x. m = Done (Inr x) \<and> f x = Done (Inr y)"
  by (auto simp: and_try_def split: outcome.splits sum.splits)

lemma get_transfers_labels:
  assumes "wallet_get_transfers wallet indices ins outs = Done (Inr ts)"
  shows "map ts_addr_index ts = indices"
proof -
  from assms have "rpc_get_transfers (wt_wallet_rpc wallet) indices ins outs = Done (Inr ts)"
    by (auto simp: wallet_get_transfers_def map_err_def split: outcome.splits sum.splits)
  then obtain a b where "distribute indices a b = Done ts"
    unfolding rpc_get_transfers_def by (auto dest!: and_try_InrD split: outcome.splits)
  then show ?thesis by (auto simp: distribute_eq comp_def map_nth split: if_splits)
qed

lemma account_indices_run:
  assumes "sled_faults w = []"
  shows "account_indices ks w =
    (Done (map (\<lambda>x. ts_addr_index (fi_transfers (snd x))) (entries ks (money_db w))), w)"
  using assms by (auto simp: account_indices_def db_values_def run_rules store_defs comp_def)

lemma update_transfers_run:
  assumes "sled_faults w = []"
    and "indices = map (\<lambda>x. ts_addr_index (fi_transfers (snd x))) (entries ks (money_db w))"
    and "wallet_get_transfers wallet indices True True = Done (Inr ts)"
  shows "update_transfers wallet ks w = (Done (), w\<lparr>all_transfers := ts\<rparr>)"
  using assms by (simp add: update_transfers_def account_indices_run run_rules)

text \<open>The slots of the transfers are labelled in the order in which the accounts are visited, and looked up by subaddress: an
  account on subaddress \<open>i\<close> is given the label of slot \<open>i - 1\<close>, if there is one.\<close>

definition subaddress_after :: "u64 list \<Rightarrow> u64 \<Rightarrow> u64" where
  "subaddress_after indices i = (let j = unat i - 1 in if j < length indices then indices ! j else i)"

lemma refreshed_subaddress:
  assumes "map ts_addr_index ts = indices"
  shows "ts_addr_index (fi_transfers (refreshed ts b fb f)) = subaddress_after indices (ts_addr_index (fi_transfers f))"
    "fi_balance (refreshed ts b fb f) = (case find_balance b (subaddress_after indices (ts_addr_index (fi_transfers f))) of
      Some s \<Rightarrow> sb_balance s | None \<Rightarrow> fi_balance f)"
    "fi_deposit_addr (refreshed ts b fb f) = fi_deposit_addr f"
  using assms by (auto simp: refreshed_def subaddress_after_def Let_def split: option.split)

lemma two_rounds:
  assumes "healthy w" "enumerates ks (money_db w)" "indices = map (\<lambda>x. ts_addr_index (fi_transfers (snd x))) (entries ks (money_db w))"
    and "0 \<notin> set indices" "wallet_get_transfers wallet indices True True = Done (Inr ts)"
    and "wallet_get_balance wallet indices = Done b" "wallet_get_all_balance wallet indices = Done fb"
  shows "\<exists>q. update_transfers wallet ks w = (Done (), w\<lparr>all_transfers := ts\<rparr>) \<and>
    update_acc_balances wallet ks (w\<lparr>all_transfers := ts\<rparr>) = (Done (), w\<lparr>all_transfers := ts, log_queue := q,
      money_db := (\<lambda>u. map_option (refreshed ts b fb) (money_db w u))\<rparr>)"
proof -
  let ?w1 = "w\<lparr>all_transfers := ts\<rparr>"
  have "update_transfers wallet ks w = (Done (), ?w1)"
    using update_transfers_run [OF _ assms(3,5)] assms(1) by (simp add: healthy_def)
  moreover have "\<forall>f \<in> ran (money_db ?w1). ts_addr_index (fi_transfers f) \<noteq> 0"
  proof
    fix f assume "f \<in> ran (money_db ?w1)"
    then obtain u where "(u, f) \<in> set (entries ks (money_db w))" using set_entries_all [OF assms(2)] by (auto simp: ran_def)
    then have "ts_addr_index (fi_transfers f) \<in> set indices" unfolding assms(3) by force
    with assms(4) show "ts_addr_index (fi_transfers f) \<noteq> 0" by metis
  qed
  ultimately show ?thesis
    using balances_round_run [of ?w1 ks indices wallet b fb] assms(1,2,3,6,7) by (simp add: healthy_def)
qed

text \<open>
  C35: Accounts can end up on each other's subaddresses. On a healthy server whose wallet answers, one round of
  \<open>update_transfers\<close> and one of \<open>update_acc_balances\<close> leave every account with its deposit address, but on the subaddress of the
  account that was visited at the place given by its own subaddress, and with the balance the wallet reports for that one. So
  all accounts stay on their own subaddresses exactly if every account whose subaddress is at most the number of accounts is
  visited at that place: a visiting order (sled's order of the user names) that differs from the order of the
  subaddresses gives users the balances of others.
\<close>

theorem accounts_swap_subaddresses:
  assumes "healthy w" "enumerates ks (money_db w)" "indices = map (\<lambda>x. ts_addr_index (fi_transfers (snd x))) (entries ks (money_db w))"
    and "0 \<notin> set indices" "wallet_get_transfers wallet indices True True = Done (Inr ts)"
    and "wallet_get_balance wallet indices = Done b" "wallet_get_all_balance wallet indices = Done fb"
  shows "\<exists>w1 w2. update_transfers wallet ks w = (Done (), w1) \<and> update_acc_balances wallet ks w1 = (Done (), w2) \<and>
    (\<forall>u f. money_db w u = Some f \<longrightarrow> (\<exists>g. money_db w2 u = Some g \<and> fi_deposit_addr g = fi_deposit_addr f \<and>
      ts_addr_index (fi_transfers g) = subaddress_after indices (ts_addr_index (fi_transfers f)) \<and>
      fi_balance g = (case find_balance b (subaddress_after indices (ts_addr_index (fi_transfers f))) of
        Some s \<Rightarrow> sb_balance s | None \<Rightarrow> fi_balance f))) \<and>
    ((\<forall>u f g. money_db w u = Some f \<and> money_db w2 u = Some g \<longrightarrow>
        ts_addr_index (fi_transfers g) = ts_addr_index (fi_transfers f)) \<longleftrightarrow>
      (\<forall>i \<in> set indices. unat i \<le> length indices \<longrightarrow> indices ! (unat i - 1) = i))"
proof -
  from two_rounds [OF assms] obtain q where
    run: "update_transfers wallet ks w = (Done (), w\<lparr>all_transfers := ts\<rparr>)"
      "update_acc_balances wallet ks (w\<lparr>all_transfers := ts\<rparr>) = (Done (), w\<lparr>all_transfers := ts, log_queue := q,
        money_db := (\<lambda>u. map_option (refreshed ts b fb) (money_db w u))\<rparr>)" by blast
  note new = refreshed_subaddress [OF get_transfers_labels [OF assms(5)]]
  have used: "set indices = {ts_addr_index (fi_transfers f) | u f. money_db w u = Some f}"
    unfolding assms(3) set_map set_entries_all [OF assms(2)] by (auto simp: image_iff, blast, force)
  have place: "unat i - 1 < length indices \<longleftrightarrow> unat i \<le> length indices" if "i \<in> set indices" for i
  proof -
    have "unat i \<noteq> 0" using that assms(4) by (metis unat_eq_zero)
    then show ?thesis by linarith
  qed
  have stay: "(\<forall>i \<in> set indices. subaddress_after indices i = i) \<longleftrightarrow>
      (\<forall>i \<in> set indices. unat i \<le> length indices \<longrightarrow> indices ! (unat i - 1) = i)"
    using place by (auto simp: subaddress_after_def Let_def)
  let ?m = "\<lambda>u. map_option (refreshed ts b fb) (money_db w u)"
  have "(\<forall>u f g. money_db w u = Some f \<and> ?m u = Some g \<longrightarrow> ts_addr_index (fi_transfers g) = ts_addr_index (fi_transfers f)) \<longleftrightarrow>
      (\<forall>i \<in> set indices. subaddress_after indices i = i)"
    unfolding used by (force simp: new)
  then have iff: "(\<forall>u f g. money_db w u = Some f \<and> ?m u = Some g \<longrightarrow> ts_addr_index (fi_transfers g) = ts_addr_index (fi_transfers f)) \<longleftrightarrow>
      (\<forall>i \<in> set indices. unat i \<le> length indices \<longrightarrow> indices ! (unat i - 1) = i)" unfolding stay .
  show ?thesis
    by (rule exI, rule exI, intro conjI, rule run(1), rule run(2)) (use new iff in simp_all)
qed

text \<open>Alice is on subaddress 1 and Carl on 2; sled visits Carl first, since bincode puts the length of
  the name first.\<close>

definition two_accounts :: world where
  "two_accounts = empty_world\<lparr>money_db := [''alice'' \<mapsto> financial_info_new 1 ''4a'', ''carl'' \<mapsto> financial_info_new 2 ''4b'']\<rparr>"

definition two_wallet :: "u64 \<Rightarrow> u64 \<Rightarrow> (json_value, string, bytes, bytes) wallet" where
  "two_wallet x y = example_wallet\<lparr>wt_wallet_rpc := (example_wallet_rpc 1)\<lparr>wr_client := (\<lambda>url body i.
    Replied (JObj [(''result'', JObj [(''per_subaddress'', JArr [
      JObj [(''address'', JStr ''4a''), (''address_index'', JNum 1), (''unlocked_balance'', JNum x), (''balance'', JNum x)],
      JObj [(''address'', JStr ''4b''), (''address_index'', JNum 2), (''unlocked_balance'', JNum y), (''balance'', JNum y)]]),
      (''unlocked_balance'', JNum (x + y)), (''balance'', JNum (x + y))])]))\<rparr>\<rparr>"

definition two_balances :: "u64 \<Rightarrow> u64 \<Rightarrow> wallet_balance" where
  "two_balances x y = \<lparr>wb_balance = x + y, wb_per_subaddress =
    [\<lparr>sb_addr = ''4a'', sb_addr_index = 1, sb_balance = x\<rparr>, \<lparr>sb_addr = ''4b'', sb_addr_index = 2, sb_balance = y\<rparr>]\<rparr>"

lemma two_wallet_answers:
  "wallet_get_transfers (two_wallet x y) idx True True =
    Done (Inr (map (\<lambda>i. \<lparr>ts_addr_index = i, ts_in = [], ts_out = []\<rparr>) idx))"
  "wallet_get_balance (two_wallet x y) idx = Done (Inr (two_balances x y))"
  "wallet_get_all_balance (two_wallet x y) idx = Done (Inr (two_balances x y))"
  by (simp_all add: wallet_get_transfers_def wallet_get_balance_def wallet_get_all_balance_def
    two_wallet_def example_wallet_def example_wallet_rpc_def wallet_rpc_new_def rpc_get_transfers_def
    rpc_get_balance_def request_def request_with_def upt_rec json_tree_api_def field_def field_u64_def
    field_str_def parse_subaddress_def transfer_list_def distribute_def example_addr_api_def
    two_balances_def map_err_def Let_def)

lemma find_two_balances:
  "find_balance (Inr (two_balances x y)) 1 = Some \<lparr>sb_addr = ''4a'', sb_addr_index = 1, sb_balance = x\<rparr>"
  "find_balance (Inr (two_balances x y)) 2 = Some \<lparr>sb_addr = ''4b'', sb_addr_index = 2, sb_balance = y\<rparr>"
  by (simp_all add: find_balance_def two_balances_def)

text \<open>Alice, on subaddress 1, has the \<open>y\<close> of subaddress 2 after one round, and Carl has her \<open>x\<close>.\<close>

theorem accounts_swap_subaddresses_witness:
  "\<exists>w1 w2 f g. update_transfers (two_wallet 5 7) [''carl'', ''alice''] two_accounts = (Done (), w1) \<and>
    update_acc_balances (two_wallet 5 7) [''carl'', ''alice''] w1 = (Done (), w2) \<and>
    money_db w2 ''alice'' = Some f \<and> fi_deposit_addr f = ''4a'' \<and> ts_addr_index (fi_transfers f) = 2 \<and> fi_balance f = 7 \<and>
    money_db w2 ''carl'' = Some g \<and> fi_deposit_addr g = ''4b'' \<and> ts_addr_index (fi_transfers g) = 1 \<and> fi_balance g = 5"
proof -
  let ?ks = "[''carl'', ''alice'']" and ?is = "[2, 1] :: u64 list"
  have w: "healthy two_accounts" "enumerates ?ks (money_db two_accounts)"
    "?is = map (\<lambda>x. ts_addr_index (fi_transfers (snd x))) (entries ?ks (money_db two_accounts))" "0 \<notin> set ?is"
    by (auto simp: two_accounts_def healthy_def empty_world_def enumerates_def financial_info_new_def)
  have after: "subaddress_after ?is 1 = 2" "subaddress_after ?is 2 = 1" by (simp_all add: subaddress_after_def Let_def)
  have accounts: "money_db two_accounts ''alice'' = Some (financial_info_new 1 ''4a'')"
    "money_db two_accounts ''carl'' = Some (financial_info_new 2 ''4b'')" by (simp_all add: two_accounts_def)
  from accounts_swap_subaddresses [OF w two_wallet_answers [of 5 7 ?is]]
  obtain w1 w2 where run: "update_transfers (two_wallet 5 7) ?ks two_accounts = (Done (), w1)"
      "update_acc_balances (two_wallet 5 7) ?ks w1 = (Done (), w2)"
    and all: "\<And>u f. money_db two_accounts u = Some f \<Longrightarrow> \<exists>g. money_db w2 u = Some g \<and> fi_deposit_addr g = fi_deposit_addr f \<and>
      ts_addr_index (fi_transfers g) = subaddress_after ?is (ts_addr_index (fi_transfers f)) \<and>
      fi_balance g = (case find_balance (Inr (two_balances 5 7)) (subaddress_after ?is (ts_addr_index (fi_transfers f))) of
        Some s \<Rightarrow> sb_balance s | None \<Rightarrow> fi_balance f)" by blast
  from all [OF accounts(1)] all [OF accounts(2)] run show ?thesis
    by (auto simp: financial_info_new_def after find_two_balances)
qed


subsection \<open>What the sending tasks do\<close>

definition transfer_result :: "('v, 'h, 'b, 'tx) wallet \<Rightarrow> transfer_req \<Rightarrow> (wallet_rpc_error + transfer_out) outcome" where
  "transfer_result wallet r = wallet_transfer wallet (tq_priority r) (tq_dst r) (tq_amt r) (tq_addr_index r)"

text \<open>With the \<open>k\<close>-th call going to \<open>wallets k\<close>: the requests whose transfer fails, and the accounts
  after charging the service fee of those that go through.\<close>

fun unsent :: "(nat \<Rightarrow> ('v, 'h, 'b, 'tx) wallet) \<Rightarrow> nat \<Rightarrow> transfer_req list \<Rightarrow> transfer_req list" where
  "unsent wallets k [] = []"
| "unsent wallets k (r # rs) = (case transfer_result (wallets k) r of
      Done (Inr _) \<Rightarrow> unsent wallets (Suc k) rs
    | _ \<Rightarrow> r # unsent wallets (Suc k) rs)"

definition charge :: "transfer_req \<Rightarrow> transfer_out \<Rightarrow> (string \<rightharpoonup> financial_info) \<Rightarrow> string \<rightharpoonup> financial_info" where
  "charge r out m = (case m (tq_username r) of None \<Rightarrow> m
     | Some f \<Rightarrow> m(tq_username r \<mapsto> f\<lparr>fi_service_fee_total :=
         fi_service_fee_total f + (tq_amt r + to_fee out) div 49\<rparr>))"

fun charged :: "(nat \<Rightarrow> ('v, 'h, 'b, 'tx) wallet) \<Rightarrow> nat \<Rightarrow> transfer_req list \<Rightarrow>
    (string \<rightharpoonup> financial_info) \<Rightarrow> string \<rightharpoonup> financial_info" where
  "charged wallets k [] m = m"
| "charged wallets k (r # rs) m = (case transfer_result (wallets k) r of
      Done (Inr out) \<Rightarrow> charged wallets (Suc k) rs (charge r out m)
    | _ \<Rightarrow> charged wallets (Suc k) rs m)"

lemma settle_run:
  assumes "sled_faults w = []" "money_db w (tq_username r) \<noteq> None"
  shows "settle r out w = (Done (), w\<lparr>money_db := charge r out (money_db w)\<rparr>)"
  using assms by (auto simp: settle_def auth_defs run_rules charge_def Let_def)

lemma charge_dom [simp]: "charge r out m u = None \<longleftrightarrow> m u = None"
  by (auto simp: charge_def split: option.splits)

lemma send_from_run:
  assumes "sled_faults w = []" "pending_requests w = kept @ todo"
    and "\<And>r. r \<in> set todo \<Longrightarrow> money_db w (tq_username r) \<noteq> None"
    and "\<And>j. j < length todo \<Longrightarrow> transfer_result (wallets (k + j)) (todo ! j) \<noteq> Panic"
  shows "send_from wallets k (length kept) (kept @ todo) w =
    (Done (), w\<lparr>pending_requests := kept @ unsent wallets k todo, money_db := charged wallets k todo (money_db w)\<rparr>)"
  using assms
proof (induction todo arbitrary: kept k w)
  case Nil
  then show ?case by (simp add: send_from.simps ret_run)
next
  case (Cons r rs)
  have tail: "transfer_result (wallets (Suc k + j)) (rs ! j) \<noteq> Panic" if "j < length rs" for j
    using Cons.prems(4) [of "Suc j"] that by simp
  have step: "send_from wallets k (length kept) (kept @ r # rs) =
    and_then (lift_outcome (transfer_result (wallets k) r)) (\<lambda>res. case res of
      Inr out \<Rightarrow> and_then (settle r out) (\<lambda>_.
        and_then (modify (\<lambda>w. w\<lparr>pending_requests := kept @ rs\<rparr>)) (\<lambda>_.
        send_from wallets (Suc k) (length kept) (kept @ rs)))
    | Inl _ \<Rightarrow> send_from wallets (Suc k) (Suc (length kept)) (kept @ r # rs))"
    by (subst send_from.simps) (simp add: Let_def nth_append transfer_result_def)
  from Cons.prems(4) [of 0] consider (sent) out where "transfer_result (wallets k) r = Done (Inr out)"
    | (failed) e where "transfer_result (wallets k) r = Done (Inl e)"
    by (simp) (metis outcome.exhaust sum.exhaust)
  then show ?case
  proof cases
    case sent
    let ?w = "w\<lparr>money_db := charge r out (money_db w), pending_requests := kept @ rs\<rparr>"
    have "send_from wallets (Suc k) (length kept) (kept @ rs) ?w =
        (Done (), ?w\<lparr>pending_requests := kept @ unsent wallets (Suc k) rs,
          money_db := charged wallets (Suc k) rs (money_db ?w)\<rparr>)"
      by (rule Cons.IH) (use Cons.prems tail in auto)
    with sent show ?thesis
      using settle_run [of w r out] Cons.prems(1,3) by (simp add: step run_rules)
  next
    case failed
    have "send_from wallets (Suc k) (length (kept @ [r])) ((kept @ [r]) @ rs) w =
        (Done (), w\<lparr>pending_requests := (kept @ [r]) @ unsent wallets (Suc k) rs,
          money_db := charged wallets (Suc k) rs (money_db w)\<rparr>)"
      by (rule Cons.IH) (use Cons.prems tail in auto)
    with failed show ?thesis by (simp add: step run_rules)
  qed
qed

text \<open>
  C15: A pass of the sending task over the pending withdrawals ends and treats each of them exactly
  once: with no sled error, the accounts present and the wallet answering each call (with a
  transfer or an error), the requests whose transfer failed stay, in their order, the ones that
  went through are gone, and exactly their users' accounts are charged the service fee, once each.
\<close>

theorem send_pass_settles:
  assumes "healthy w"
    and "\<And>r. r \<in> set (pending_requests w) \<Longrightarrow> money_db w (tq_username r) \<noteq> None"
    and "\<And>j. j < length (pending_requests w) \<Longrightarrow>
      transfer_result (wallets j) (pending_requests w ! j) \<noteq> Panic"
  shows "send_pending wallets w = (Done (), w\<lparr>
    pending_requests := unsent wallets 0 (pending_requests w),
    money_db := charged wallets 0 (pending_requests w) (money_db w)\<rparr>)"
  using send_from_run [of w "[]" "pending_requests w" wallets 0] assms
  by (simp add: send_pending_def run_rules healthy_def)

text \<open>Alice's withdrawal, twice: the wallet is down for the second.\<close>

definition flaky_wallet :: "nat \<Rightarrow> (json_value, string, bytes, bytes) wallet" where
  "flaky_wallet k = (if k = 0 then example_wallet else example_wallet\<lparr>wt_wallet_rpc :=
    (example_wallet_rpc 1)\<lparr>wr_long_client := (\<lambda>_ _ _. Failed HyperOther)\<rparr>\<rparr>)"

lemma flaky_wallet_results:
  "transfer_result (flaky_wallet 0) alice_transfer = Done (Inr \<lparr>to_amount = 41200000, to_fee = 7800000, to_tx_key = ''k''\<rparr>)"
  "transfer_result (flaky_wallet (Suc k)) alice_transfer = Done (Inl (HyperError HyperOther))"
  by (simp_all add: transfer_result_def flaky_wallet_def wallet_transfer_def example_wallet_def example_wallet_rpc_def
    wallet_rpc_new_def rpc_transfer_def long_request_def request_with_def upt_rec json_tree_api_def field_def
    field_u64_def field_str_def alice_transfer_def map_err_def)

theorem send_pass_settles_witness:
  "let w' = snd (send_pending flaky_wallet ((bank_world 90000000)\<lparr>pending_requests := [alice_transfer, alice_transfer]\<rparr>)) in
    pending_requests w' = [alice_transfer] \<and>
    map_option fi_service_fee_total (money_db w' ''alice'') = Some 995918"
proof -
  let ?w = "(bank_world 90000000)\<lparr>pending_requests := [alice_transfer, alice_transfer]\<rparr>"
  have "healthy ?w" using bank_world_facts(1) [of 90000000] by (simp add: healthy_def)
  have "send_pending flaky_wallet ?w = (Done (), ?w\<lparr>
    pending_requests := unsent flaky_wallet 0 (pending_requests ?w),
    money_db := charged flaky_wallet 0 (pending_requests ?w) (money_db ?w)\<rparr>)"
  proof (rule send_pass_settles [OF \<open>healthy ?w\<close>])
    fix j assume "j < length (pending_requests ?w)"
    then have "pending_requests ?w ! j = alice_transfer" by (cases j) auto
    then show "transfer_result (flaky_wallet j) (pending_requests ?w ! j) \<noteq> Panic"
      by (cases j) (simp_all add: flaky_wallet_results)
  qed (auto simp: alice_transfer_def bank_world_facts(4) [of 90000000])
  then show ?thesis
    by (simp add: flaky_wallet_results charge_def bank_world_facts(4) [of 90000000]
      alice_account_facts) (simp add: alice_transfer_def alice_account_facts)
qed

subsection \<open>The gate before the sending task\<close>

text \<open>The receiving task working off the channel, up to \<open>n\<close> requests.\<close>

fun receive_requests :: "nat \<Rightarrow> (world, unit) eff" where
  "receive_requests 0 = ret ()"
| "receive_requests (Suc n) = and_then receive_request (\<lambda>_. receive_requests n)"

definition affordable :: "world \<Rightarrow> transfer_req \<Rightarrow> bool" where
  "affordable w r = (case money_db w (tq_username r) of None \<Rightarrow> False
     | Some f \<Rightarrow> tq_amt r \<le> fi_get_balance f)"

lemma receive_requests_run:
  assumes "sled_faults w = []" "length (monero_tx w) = n"
    and "\<And>r. r \<in> set (monero_tx w) \<Longrightarrow> money_db w (tq_username r) \<noteq> None"
  shows "receive_requests n w = (Done (), w\<lparr>monero_tx := [],
    pending_requests := pending_requests w @ filter (affordable w) (monero_tx w)\<rparr>)"
  using assms
proof (induction n arbitrary: w)
  case 0
  then show ?case by (simp add: ret_run)
next
  case (Suc n)
  then obtain r rest where tx: "monero_tx w = r # rest" by (cases "monero_tx w") auto
  with Suc.prems(3) obtain f where f: "money_db w (tq_username r) = Some f" by fastforce
  let ?w = "if affordable w r then w\<lparr>monero_tx := rest, pending_requests := pending_requests w @ [r]\<rparr>
    else w\<lparr>monero_tx := rest\<rparr>"
  have "receive_request w = (Done (), ?w)"
    using Suc.prems(1) f by (simp add: receive_request_def queue_request_def tx auth_defs run_rules affordable_def)
  moreover have "receive_requests n ?w = (Done (), ?w\<lparr>monero_tx := [],
      pending_requests := pending_requests ?w @ filter (affordable ?w) (monero_tx ?w)\<rparr>)"
    by (rule Suc.IH) (use Suc.prems tx in \<open>auto split: if_splits\<close>)
  moreover have "affordable ?w = affordable w" by (auto simp: affordable_def fun_eq_iff)
  ultimately show ?case by (simp add: and_then_done tx split: if_splits)
qed

text \<open>
  The gate of \<open>send_monero\<close> in full: working off the channel moves to the pending list, in order,
  exactly the requests whose amount is at most the balance of their user, and drops the others
  without a word. Each request is compared with the same balance on its own, so two withdrawals of
  the whole balance both pass.
\<close>

lemma gate_takes_affordable:
  assumes "healthy w" "\<And>r. r \<in> set (monero_tx w) \<Longrightarrow> money_db w (tq_username r) \<noteq> None"
  shows "receive_requests (length (monero_tx w)) w = (Done (), w\<lparr>monero_tx := [],
    pending_requests := pending_requests w @ filter (affordable w) (monero_tx w)\<rparr>)"
  using receive_requests_run [of w "length (monero_tx w)"] assms by (simp add: healthy_def)

text \<open>Alice has 50000000 and asks twice for 41000000 and once for 60000000.\<close>

lemma gate_takes_affordable_example:
  "pending_requests (snd (receive_requests 3 ((bank_world 50000000)\<lparr>monero_tx :=
    [alice_transfer, alice_transfer\<lparr>tq_amt := 60000000\<rparr>, alice_transfer]\<rparr>))) = [alice_transfer, alice_transfer]"
proof -
  let ?w = "(bank_world 50000000)\<lparr>monero_tx := [alice_transfer, alice_transfer\<lparr>tq_amt := 60000000\<rparr>, alice_transfer]\<rparr>"
  have "healthy ?w" using bank_world_facts(1) [of 50000000] by (simp add: healthy_def)
  have "receive_requests (length (monero_tx ?w)) ?w = (Done (), ?w\<lparr>monero_tx := [],
    pending_requests := pending_requests ?w @ filter (affordable ?w) (monero_tx ?w)\<rparr>)"
    by (rule gate_takes_affordable [OF \<open>healthy ?w\<close>])
      (auto simp: alice_transfer_def bank_world_facts(4) [of 50000000])
  moreover have "affordable ?w alice_transfer" "\<not> affordable ?w (alice_transfer\<lparr>tq_amt := 60000000\<rparr>)"
    by (simp_all add: affordable_def alice_transfer_def bank_world_facts(4) [of 50000000] alice_account_facts)
  ultimately show ?thesis using bank_world_facts(6) [of 50000000] by (simp add: eval_nat_numeral)
qed

text \<open>
  C37: A withdrawal can be answered with 200 and never happen: when the amount after fees exceeds the
  balance, the handler still queues it and reports what it sent, and the gate then drops it, leaving
  the channel, the pending list and the account as they were.
\<close>

theorem accepted_withdrawal_dropped:
  assumes "withdraw_monero wallet a req w = (Done resp, w')" "rs_status resp = OK" "rs_body resp = Inr r"
    and "healthy w'" "monero_tx w = []" "money_db w (wq_username req) = Some f"
    and "fi_get_balance f < wp_amt_sent_after_fee r"
  shows "receive_request w' = (Done (), w'\<lparr>monero_tx := []\<rparr>) \<and>
    pending_requests w' = pending_requests w \<and> money_db w' = money_db w"
proof -
  from wp_done [OF withdraw_wp assms(1)] assms(2) have "withdrawn wallet req resp w w'" by simp
  then obtain addr i where tx: "data w' = data (w\<lparr>monero_tx := monero_tx w @ [\<lparr>tq_username = wq_username req,
      tq_dst = addr, tq_priority = Some 0, tq_amt = wp_amt_sent_after_fee r, tq_addr_index = i\<rparr>]\<rparr>)"
    using assms(3) by (auto simp: withdrawn_def)
  from data_eqD(3,9,10) [OF tx] have w': "money_db w' = money_db w" "pending_requests w' = pending_requests w"
    "monero_tx w' = [\<lparr>tq_username = wq_username req,
      tq_dst = addr, tq_priority = Some 0, tq_amt = wp_amt_sent_after_fee r, tq_addr_index = i\<rparr>]"
    using assms(5) by simp_all
  with assms(4,6,7) show ?thesis
    by (simp add: receive_request_def queue_request_def auth_defs run_rules healthy_def)
qed

theorem accepted_withdrawal_dropped_witness:
  "receive_request (alice_withdrew 40500000) = (Done (), (alice_withdrew 40500000)\<lparr>monero_tx := []\<rparr>)"
  using accepted_withdrawal_dropped [OF alice_withdrawal [of 40500000]] bank_world_facts [of 40500000]
  by (simp add: alice_account_facts alice_withdrew_def healthy_def)

end
