(* ===== verification/Software.thy ===== *)
theory Software
  imports Money_Handlers Captcha
begin

section \<open>Listing software and serving its images: src/software.rs\<close>

text \<open>
  \<open>new_software\<close>, which charges the listing fee and hands out an id and an upload id, and
  \<open>view_software_image\<close>. The 32 random bytes of \<open>new_software\<close> are an argument.
\<close>

record create_software_req =
  cs_username :: string
  cs_auth_cookie :: string
  cs_arch_type :: arch_type
  cs_title :: string
  cs_description :: string
  cs_compressed_size :: u64
  cs_price :: item_price
  cs_compression_type :: compression_type
  cs_captcha_hash :: string
  cs_captcha_answer :: string

record new_software_resp =
  ns_upload_id :: string

definition LISTING_FEE :: u64 where
  "LISTING_FEE = 4271880000"

definition MAX_COMPRESSED_SIZE :: u64 where
  "MAX_COMPRESSED_SIZE = 10485760"

text \<open>The hash of a generic image of a controller.\<close>

definition DEFAULT_IMAGE :: string where
  "DEFAULT_IMAGE = ''6651eb8fd8216a717634973da55a5971dc15b29efc37cdc2d7f70bb9a45acf5f''"

definition fetch_add_software_id :: "(world, u64) eff" where
  "fetch_add_software_id = (\<lambda>w. (Done (current_software_id w),
     w\<lparr>current_software_id := current_software_id w + 1\<rparr>))"

definition new_software ::
    "env \<Rightarrow> bytes \<Rightarrow> create_software_req \<Rightarrow> (world, new_software_resp response) eff" where
  "new_software env random_bytes req =
     (let bad_captcha = deny User ''Incorrect captcha'' [] UNAUTHORIZED in
      case ev_hex_decode env (as_bytes (cs_captcha_hash req)) of
        None \<Rightarrow> ret bad_captcha
      | Some captcha_hash \<Rightarrow>
      and_then (to_array32 captcha_hash) (\<lambda>key.
      and_then (unwrapped (db_get CaptchaDB key)) (\<lambda>found. case found of
        None \<Rightarrow> ret bad_captcha
      | Some captcha \<Rightarrow>
      if gc_answer captcha \<noteq> cs_captcha_answer req then ret bad_captcha
      else and_then (user_then_cookie (cs_username req) (cs_auth_cookie req)) (\<lambda>authorised.
      if \<not> authorised then ret (deny User ''Invalid username or cookie'' [] UNAUTHORIZED)
      else and_then (unwrapped (db_get MoneyDB (cs_username req))) (\<lambda>account.
      and_then (unwrap_opt account) (\<lambda>f. case spend_money LISTING_FEE f of
        (Inl balance, _) \<Rightarrow> ret (deny User ''Balance is too low'' (to_decimal balance) PRECONDITION_FAILED)
      | (Inr _, financial_info) \<Rightarrow>
      and_then (unwrapped (db_insert MoneyDB (cs_username req) financial_info)) (\<lambda>_.
      if MAX_COMPRESSED_SIZE < cs_compressed_size req
      then ret (deny User ''File is too large''
        ''Please keep your compressed game files under 10 MiB'' BAD_REQUEST)
      else and_then fetch_add_software_id (\<lambda>software_id.
      let upload_id = ev_blake3 env (random_bytes @ as_bytes (cs_title req) @ as_bytes (cs_username req)) in
      and_then (unwrap_opt (ev_hex_decode env (as_bytes DEFAULT_IMAGE))) (\<lambda>boxed_image_hash_bytes.
      and_then (to_array32 boxed_image_hash_bytes) (\<lambda>image_hash_bytes.
      let game = \<lparr>it_id = software_id, it_title = cs_title req, it_creator = cs_username req,
        it_description = cs_description req, it_arch_type = cs_arch_type req,
        it_compressed_size = cs_compressed_size req, it_price = cs_price req,
        it_compression_type = cs_compression_type req, it_files = Map.empty,
        it_upload_id = Some upload_id, it_creation_time = None, it_title_image_hash = image_hash_bytes\<rparr> in
      and_then (unwrapped (db_insert SoftwareDB software_id game)) (\<lambda>_.
      and_then (unwrapped (db_insert UploadIdDB upload_id software_id)) (\<lambda>_.
      ret (answer OK \<lparr>ns_upload_id = ev_hex_encode env upload_id\<rparr>))))))))))))) "

text \<open>
  \<open>view_software_image\<close>: the path must be 64 characters of hexadecimal. \<open>open_error\<close> is the text of
  an error other than not-found, if opening fails with one. Sending the log record is not unwrapped
  here, so a closed log channel is ignored.
\<close>

definition view_software_image ::
    "env \<Rightarrow> string option \<Rightarrow> string \<Rightarrow> ip_addr option \<Rightarrow> (world, bytes response) eff" where
  "view_software_image env open_error path ip =
     (if length path = 64 \<and> ev_hex_decode env (as_bytes path) \<noteq> None then
        (case open_error of
           Some err \<Rightarrow>
             and_then (unwrap_opt ip) (\<lambda>ip.
             and_then (log_new None ip ServerError LogAuth err Medium) (\<lambda>l.
             and_then (log_send l) (\<lambda>_.
             ret (deny Server ''Internal Server Error'' [] INTERNAL_SERVER_ERROR))))
         | None \<Rightarrow> and_then (gets game_images) (\<lambda>images. case images path of
             Some content \<Rightarrow> io_call (ret (answer OK content))
           | None \<Rightarrow> ret (deny User ''Image not found'' [] NOT_FOUND)))
      else ret (deny User ''Image not found'' [] NOT_FOUND))"

subsection \<open>What listing does\<close>

lemma wp_get_captcha:
  assumes "\<And>fs. Q (captcha_db w h) (w\<lparr>sled_faults := fs\<rparr>)" "\<And>fs. E (w\<lparr>sled_faults := fs\<rparr>)"
  shows "wp (unwrapped (db_get CaptchaDB h)) Q E w"
  using assms by (simp add: auth_defs wp_rules)

lemma wp_insert_software:
  assumes "\<And>r fs. Q r (w\<lparr>sled_faults := fs, software_db := (software_db w)(i \<mapsto> v)\<rparr>)"
    and "\<And>fs. E (w\<lparr>sled_faults := fs\<rparr>)"
  shows "wp (unwrapped (db_insert SoftwareDB i v)) Q E w"
  using assms by (simp add: auth_defs wp_rules)

lemma wp_insert_upload_id:
  assumes "\<And>r fs. Q r (w\<lparr>sled_faults := fs, upload_id_db := (upload_id_db w)(h \<mapsto> i)\<rparr>)"
    and "\<And>fs. E (w\<lparr>sled_faults := fs\<rparr>)"
  shows "wp (unwrapped (db_insert UploadIdDB h i)) Q E w"
  using assms by (simp add: auth_defs wp_rules)

lemma wp_fetch_add [wp_rules]: "wp fetch_add_software_id Q E w =
    Q (current_software_id w) (w\<lparr>current_software_id := current_software_id w + 1\<rparr>)"
  by (simp add: wp_def fetch_add_software_id_def)

lemma wp_array32:
  assumes "length b = OUT_LEN \<Longrightarrow> Q b s" "length b \<noteq> OUT_LEN \<Longrightarrow> E s"
  shows "wp (to_array32 b) Q E s"
  using assms by (simp add: wp_to_array32)

lemmas software_steps = wp_get_captcha wp_insert_software wp_insert_upload_id wp_array32
  wp_user_then_cookie wp_get_money wp_insert_money

interpretation new_software_guard: guarded_handler "new_software env random_bytes" cs_username cs_auth_cookie
  for env random_bytes
  by unfold_locales
    (auto simp: new_software_def wp_control wp_fetch_add Let_def data_def intro!: software_steps
      split: option.splits sum.splits)


text \<open>
  Listing software is only for registered users with their cookie: any other request is answered
  with 401, or panics, and changes nothing.
\<close>

lemma unauthorised_listing_denied:
  assumes "\<not> authorised w (cs_username req) (cs_auth_cookie req)"
  shows "wp (new_software env random_bytes req)
    (\<lambda>resp w'. rs_status resp = UNAUTHORIZED \<and> data w' = data w) (\<lambda>w'. data w' = data w) w"
  by (rule new_software_guard.guard_law [OF assms])

definition alice_lists :: create_software_req where
  "alice_lists = \<lparr>cs_username = ''alice'', cs_auth_cookie = ''c'', cs_arch_type = Web, cs_title = ''game'',
    cs_description = [], cs_compressed_size = 1000, cs_price = NoPrice, cs_compression_type = Zstd,
    cs_captcha_hash = replicate 64 CHR ''a'', cs_captcha_answer = ''xyz''\<rparr>"

lemma unauthorised_listing_denied_example:
  "wp (new_software example_env [] (alice_lists\<lparr>cs_auth_cookie := ''x''\<rparr>))
    (\<lambda>resp w'. rs_status resp = UNAUTHORIZED \<and> data w' = data alice_world)
    (\<lambda>w'. data w' = data alice_world) alice_world"
  by (rule unauthorised_listing_denied)
    (simp add: authorised_def alice_world_def fresh_cookie_def alice_lists_def)

text \<open>The fee has been charged to the account, and nothing else has happened.\<close>

definition listing_charged :: "create_software_req \<Rightarrow> world \<Rightarrow> world" where
  "listing_charged req w = (case money_db w (cs_username req) of None \<Rightarrow> w
     | Some f \<Rightarrow> w\<lparr>money_db := (money_db w)(cs_username req \<mapsto>
         f\<lparr>fi_amount_spent := fi_amount_spent f + LISTING_FEE\<rparr>)\<rparr>)"

definition upload_id_of :: "env \<Rightarrow> bytes \<Rightarrow> create_software_req \<Rightarrow> bytes" where
  "upload_id_of env random_bytes req =
     ev_blake3 env (random_bytes @ as_bytes (cs_title req) @ as_bytes (cs_username req))"

text \<open>What a new item looks like, but for its image: not published yet.\<close>

definition new_item :: "env \<Rightarrow> bytes \<Rightarrow> create_software_req \<Rightarrow> u64 \<Rightarrow> bytes \<Rightarrow> item" where
  "new_item env random_bytes req i img = \<lparr>it_id = i, it_title = cs_title req, it_creator = cs_username req,
    it_description = cs_description req, it_arch_type = cs_arch_type req,
    it_compressed_size = cs_compressed_size req, it_price = cs_price req,
    it_compression_type = cs_compression_type req, it_files = Map.empty,
    it_upload_id = Some (upload_id_of env random_bytes req), it_creation_time = None, it_title_image_hash = img\<rparr>"

definition listed :: "env \<Rightarrow> bytes \<Rightarrow> create_software_req \<Rightarrow> world \<Rightarrow> world \<Rightarrow> bool" where
  "listed env random_bytes req w w' \<longleftrightarrow>
    (\<exists>img. let w1 = listing_charged req w; i = current_software_id w in
      data w' = data (w1\<lparr>current_software_id := i + 1,
        software_db := (software_db w)(i \<mapsto> new_item env random_bytes req i img),
        upload_id_db := (upload_id_db w)(upload_id_of env random_bytes req \<mapsto> i)\<rparr>))"

text \<open>What a request needs to get as far as the charge.\<close>

definition may_list :: "env \<Rightarrow> create_software_req \<Rightarrow> world \<Rightarrow> bool" where
  "may_list env req w \<longleftrightarrow> (\<exists>h f. ev_hex_decode env (as_bytes (cs_captcha_hash req)) = Some h \<and>
    captcha_ok w h (cs_captcha_answer req) \<and> authorised w (cs_username req) (cs_auth_cookie req) \<and>
    money_db w (cs_username req) = Some f \<and> LISTING_FEE \<le> fi_get_balance f)"

lemma spend_money_split: "spend_money a f = (r, g) \<longleftrightarrow>
    (if a \<le> fi_get_balance f
     then r = Inr (fi_get_balance f - a) \<and> g = f\<lparr>fi_amount_spent := fi_amount_spent f + a\<rparr>
     else r = Inl (fi_get_balance f) \<and> g = f)"
  using spend_money_cases [of a f] by (auto split: if_splits)

lemma may_listI:
  assumes "ev_hex_decode env (as_bytes (cs_captcha_hash req)) = Some h" "length h = OUT_LEN"
    and "captcha_db w h = Some c" "gc_answer c = cs_captcha_answer req"
    and "authorised w (cs_username req) (cs_auth_cookie req)"
    and "money_db w (cs_username req) = Some f" "LISTING_FEE \<le> fi_get_balance f"
  shows "may_list env req w"
  using assms by (auto simp: may_list_def captcha_ok_def)

lemma listed_dataI:
  assumes "money_db w (cs_username req) = Some f"
    and "data w' = data (w\<lparr>money_db := (money_db w)(cs_username req \<mapsto>
        f\<lparr>fi_amount_spent := fi_amount_spent f + LISTING_FEE\<rparr>),
      current_software_id := current_software_id w + 1,
      software_db := (software_db w)(current_software_id w \<mapsto> new_item env random_bytes req (current_software_id w) img),
      upload_id_db := (upload_id_db w)(upload_id_of env random_bytes req \<mapsto> current_software_id w)\<rparr>)"
  shows "listed env random_bytes req w w'"
  using assms by (auto simp: listed_def listing_charged_def Let_def)

lemma charged_dataI:
  assumes "money_db w (cs_username req) = Some f"
    and "data w' = data (w\<lparr>money_db := (money_db w)(cs_username req \<mapsto>
        f\<lparr>fi_amount_spent := fi_amount_spent f + LISTING_FEE\<rparr>)\<rparr>)"
  shows "data w' = data (listing_charged req w)"
  using assms by (simp add: listing_charged_def)

lemma new_software_wp:
  "wp (new_software env random_bytes req)
    (\<lambda>resp w'. if rs_status resp = OK then may_list env req w \<and> listed env random_bytes req w w'
        \<and> resp = answer OK \<lparr>ns_upload_id = ev_hex_encode env (upload_id_of env random_bytes req)\<rparr>
      else if rs_status resp = BAD_REQUEST then may_list env req w \<and> data w' = data (listing_charged req w)
        \<and> MAX_COMPRESSED_SIZE < cs_compressed_size req
      else data w' = data w)
    (\<lambda>_. True) w"
  by (auto simp: new_software_def wp_control wp_fetch_add Let_def spend_money_split
        intro!: software_steps split: option.splits sum.splits if_splits)
    (fastforce intro!: may_listI charged_dataI listed_dataI simp: upload_id_of_def new_item_def data_def)+


text \<open>
  C17: A listing that is answered with 200 had a right captcha answer, came from an authorised user
  whose balance covered the fee of 4271880000, and did exactly this: the fee is charged to their
  account, the next software id is given to a new, unpublished item holding what the request says,
  the upload id returned to the client leads to that item, and nothing else has changed. A request
  that is refused for any reason but its size is not charged.
\<close>

theorem listing_success:
  assumes "new_software env random_bytes req w = (Done resp, w')"
  shows "if rs_status resp = OK
    then may_list env req w \<and> listed env random_bytes req w w' \<and>
      resp = answer OK \<lparr>ns_upload_id = ev_hex_encode env (upload_id_of env random_bytes req)\<rparr>
    else rs_status resp = BAD_REQUEST \<or> data w' = data w"
  using wp_done [OF new_software_wp assms] by (auto split: if_splits)

lemma alice_may_list: "may_list example_env alice_lists (bank_world 9000000000)"
proof -
  have "captcha_ok (bank_world 9000000000) example_hash ''xyz''"
    using alice_captcha(3) by (simp add: bank_world_def alice_world_def captcha_ok_def)
  moreover have "ev_hex_decode example_env (as_bytes (replicate 64 CHR ''a'')) = Some example_hash"
    by (rule example_image_hash(3))
  ultimately show ?thesis using bank_world_facts(3,4) [of 9000000000]
    by (simp add: may_list_def alice_lists_def alice_account_facts LISTING_FEE_def)
qed

lemma default_image_decodes: "\<exists>b. ev_hex_decode example_env (as_bytes DEFAULT_IMAGE) = Some b \<and> length b = OUT_LEN"
  by (simp add: example_env_def DEFAULT_IMAGE_def as_bytes_def OUT_LEN_def)

lemma alice_listing:
  "\<exists>resp w'. new_software example_env [] alice_lists (bank_world 9000000000) = (Done resp, w') \<and> rs_status resp = OK"
proof -
  from alice_may_list obtain h f c where "ev_hex_decode example_env (as_bytes (cs_captcha_hash alice_lists)) = Some h"
    "length h = OUT_LEN" "captcha_db (bank_world 9000000000) h = Some c" "gc_answer c = cs_captcha_answer alice_lists"
    "authorised (bank_world 9000000000) (cs_username alice_lists) (cs_auth_cookie alice_lists)"
    "money_db (bank_world 9000000000) (cs_username alice_lists) = Some f" "LISTING_FEE \<le> fi_get_balance f"
    by (auto simp: may_list_def captcha_ok_def split: option.splits)
  moreover have "\<not> MAX_COMPRESSED_SIZE < cs_compressed_size alice_lists"
    by (simp add: alice_lists_def MAX_COMPRESSED_SIZE_def)
  ultimately have "wp (new_software example_env [] alice_lists)
      (\<lambda>resp w'. rs_status resp = OK) (\<lambda>_. False) (bank_world 9000000000)"
    using bank_world_facts(1) [of 9000000000] default_image_decodes
    by (auto simp: new_software_def user_then_cookie_def authorised_def auth_defs wp_rules Let_def
      healthy_def spend_money_def checked_sub_def split: option.splits)
  then show ?thesis unfolding wp_def by (auto split: prod.splits outcome.splits)
qed

theorem listing_success_witness:
  "\<exists>w'. listed example_env [] alice_lists (bank_world 9000000000) w'"
proof -
  obtain resp w' where "new_software example_env [] alice_lists (bank_world 9000000000) = (Done resp, w')"
    "rs_status resp = OK" using alice_listing by blast
  from listing_success [OF this(1)] this(2) show ?thesis by auto
qed

text \<open>
  An item over 10 MiB is refused only after the fee has been taken: on a healthy server, such a
  request that could otherwise be listed is answered with 400, and the account is charged for
  nothing.
\<close>

lemma oversized_listing_charged:
  assumes "healthy w" "may_list env req w" "MAX_COMPRESSED_SIZE < cs_compressed_size req"
  shows "\<exists>resp w'. new_software env random_bytes req w = (Done resp, w') \<and> rs_status resp = BAD_REQUEST \<and>
    data w' = data (listing_charged req w)"
proof -
  from assms(2) obtain h f c where "ev_hex_decode env (as_bytes (cs_captcha_hash req)) = Some h"
    "length h = OUT_LEN" "captcha_db w h = Some c" "gc_answer c = cs_captcha_answer req"
    "authorised w (cs_username req) (cs_auth_cookie req)" "money_db w (cs_username req) = Some f"
    "LISTING_FEE \<le> fi_get_balance f"
    by (auto simp: may_list_def captcha_ok_def split: option.splits)
  with assms(1,3) have "wp (new_software env random_bytes req)
      (\<lambda>resp w'. rs_status resp = BAD_REQUEST \<and> data w' = data (listing_charged req w)) (\<lambda>_. False) w"
    by (auto simp: new_software_def user_then_cookie_def authorised_def auth_defs wp_rules Let_def
      healthy_def spend_money_def checked_sub_def listing_charged_def data_def split: option.splits)
  then show ?thesis unfolding wp_def by (auto split: prod.splits outcome.splits)
qed

lemma oversized_listing_charged_example:
  "\<exists>resp w'. new_software example_env [] (alice_lists\<lparr>cs_compressed_size := 20000000\<rparr>) (bank_world 9000000000) =
    (Done resp, w') \<and> rs_status resp = BAD_REQUEST \<and>
    map_option fi_get_balance (money_db w' ''alice'') = Some 4728120000"
proof -
  have may: "may_list example_env (alice_lists\<lparr>cs_compressed_size := 20000000\<rparr>) (bank_world 9000000000)"
    using alice_may_list by (simp add: may_list_def)
  have "MAX_COMPRESSED_SIZE < cs_compressed_size (alice_lists\<lparr>cs_compressed_size := 20000000\<rparr>)"
    by (simp add: MAX_COMPRESSED_SIZE_def)
  from oversized_listing_charged [OF bank_world_facts(1) may this] obtain resp w' where
    "new_software example_env [] (alice_lists\<lparr>cs_compressed_size := 20000000\<rparr>) (bank_world 9000000000) =
      (Done resp, w')" "rs_status resp = BAD_REQUEST"
    and w': "data w' = data (listing_charged (alice_lists\<lparr>cs_compressed_size := 20000000\<rparr>) (bank_world 9000000000))"
    by blast
  moreover from data_eqD(3) [OF w'] have "map_option fi_get_balance (money_db w' ''alice'') = Some 4728120000"
    using bank_world_facts(4) [of 9000000000]
    by (simp add: listing_charged_def alice_lists_def alice_account_def example_account_defs LISTING_FEE_def)
  ultimately show ?thesis by blast
qed

text \<open>
  A captcha solved for listing software is never used up: no outcome of \<open>new_software\<close> takes it
  out of the database, unlike registration and login, so one answer lists any number of items.
\<close>

lemma listing_keeps_captcha:
  "captcha_db (snd (new_software env random_bytes req w)) = captcha_db w"
proof (rule wp_final)
  show "wp (new_software env random_bytes req) (\<lambda>_ w'. captcha_db w' = captcha_db w)
      (\<lambda>w'. captcha_db w' = captcha_db w) w"
    by (auto simp: new_software_def wp_control wp_fetch_add Let_def
      split: option.splits sum.splits intro!: software_steps)
qed

subsection \<open>Ids and upload ids\<close>

text \<open>Items are stored under their own id, all ids are below the counter, and upload ids lead to
  items: what \<open>upload_software\<close> unwraps.\<close>

definition listing_ok :: "(u64 \<rightharpoonup> item) \<Rightarrow> (bytes \<rightharpoonup> u64) \<Rightarrow> u64 \<Rightarrow> bool" where
  "listing_ok items upload_ids next_id \<longleftrightarrow>
    (\<forall>i it. items i = Some it \<longrightarrow> it_id it = i \<and> i < next_id) \<and>
    (\<forall>h i. upload_ids h = Some i \<longrightarrow> items i \<noteq> None)"

definition listing_inv :: "world \<Rightarrow> bool" where
  "listing_inv w \<longleftrightarrow> listing_ok (software_db w) (upload_id_db w) (current_software_id w)"

lemma listing_invD:
  "listing_inv w \<Longrightarrow> software_db w i = Some it \<Longrightarrow> it_id it = i \<and> i < current_software_id w"
  "listing_inv w \<Longrightarrow> upload_id_db w h = Some i \<Longrightarrow> \<exists>it. software_db w i = Some it"
  by (auto simp: listing_inv_def listing_ok_def)

lemma word_less_succ:
  fixes a b :: "'a::len word"
  assumes "b + 1 \<noteq> 0"
  shows "a < b \<Longrightarrow> a < b + 1" "b < b + 1"
proof -
  have "unat (1 + b) = Suc (unat b)" using assms by (intro unatSuc) (simp add: add.commute)
  then show "b < b + 1" "a < b \<Longrightarrow> a < b + 1"
    by (simp_all add: word_less_nat_alt add.commute)
qed

lemma listing_ok_steps:
  assumes "listing_ok items ids n" "n + 1 \<noteq> 0"
  shows "listing_ok items ids (n + 1)"
    and "it_id it = n \<Longrightarrow> listing_ok (items(n \<mapsto> it)) ids (n + 1)"
    and "it_id it = n \<Longrightarrow> listing_ok (items(n \<mapsto> it)) (ids(h \<mapsto> n)) (n + 1)"
  using assms word_less_succ [OF assms(2)] by (auto simp: listing_ok_def)

lemma new_software_listing:
  assumes "listing_inv w" "current_software_id w + 1 \<noteq> 0"
  shows "listing_inv (snd (new_software env random_bytes req w))"
proof (rule wp_final)
  show "wp (new_software env random_bytes req) (\<lambda>_. listing_inv) listing_inv w"
    using assms listing_ok_steps [OF assms(1) [unfolded listing_inv_def] assms(2)]
    by (auto simp: new_software_def wp_control wp_fetch_add Let_def listing_inv_def
      split: option.splits sum.splits intro!: software_steps)
qed

text \<open>
  Software ids are never reused: as long as the 64-bit counter has not wrapped, every outcome of
  \<open>new_software\<close>, panics between two inserts included, preserves the listing invariant: items are
  stored under their own id, every id in use is below the counter, and every upload id leads to an
  item.
\<close>

lemma listing_inv_preserved:
  assumes "listing_inv w" "current_software_id w + 1 \<noteq> 0"
  shows "listing_inv (snd (new_software env random_bytes req w))"
  using assms by (rule new_software_listing)

lemma listing_inv_preserved_example:
  "listing_inv (snd (new_software example_env [] alice_lists (bank_world 9000000000)))"
  by (rule listing_inv_preserved)
    (simp_all add: listing_inv_def listing_ok_def bank_world_def alice_world_def example_state_defs)

subsection \<open>Serving images\<close>

text \<open>What hexadecimal decoding promises: it accepts only the digits.\<close>

definition hex_digits :: "string" where
  "hex_digits = ''0123456789abcdefABCDEF''"

definition hex_only :: "env \<Rightarrow> bool" where
  "hex_only env \<longleftrightarrow> (\<forall>s. ev_hex_decode env (as_bytes s) \<noteq> None \<longrightarrow> set s \<subseteq> set hex_digits)"

text \<open>
  Serving images reads only what it should: whatever path a client asks for, the handler changes
  nothing, and if it serves a content, then the path is 64 hexadecimal digits, so it has no dot and
  no slash, and the content is that of the file of that name in the image directory.
\<close>

lemma image_path_safe:
  assumes "hex_only env"
  shows "wp (view_software_image env open_error path ip)
    (\<lambda>resp w'. data w' = data w \<and> (\<forall>content. rs_body resp = Inr content \<longrightarrow>
      length path = 64 \<and> CHR ''.'' \<notin> set path \<and> CHR ''/'' \<notin> set path \<and> game_images w path = Some content))
    (\<lambda>w'. data w' = data w) w"
proof -
  have "CHR ''.'' \<notin> set hex_digits" "CHR ''/'' \<notin> set hex_digits" by (simp_all add: hex_digits_def)
  then have "CHR ''.'' \<notin> set path" "CHR ''/'' \<notin> set path" if "ev_hex_decode env (as_bytes path) \<noteq> None"
    using assms that unfolding hex_only_def by blast+
  then show ?thesis
    by (auto simp: view_software_image_def wp_rules log_new_def split: option.splits)
qed

text \<open>A decoder that knows one image name, and the serving of that image.\<close>

lemma image_path_safe_example:
  "wp (view_software_image (example_env\<lparr>ev_hex_decode := (\<lambda>b. if b = replicate 64 97 then Some example_hash else None)\<rparr>)
      None (replicate 64 CHR ''a'') None)
    (\<lambda>resp w'. data w' = data empty_world \<and> (\<forall>content. rs_body resp = Inr content \<longrightarrow>
      game_images empty_world (replicate 64 CHR ''a'') = Some content)) (\<lambda>w'. data w' = data empty_world) empty_world"
proof -
  have "hex_only (example_env\<lparr>ev_hex_decode := (\<lambda>b. if b = replicate 64 97 then Some example_hash else None)\<rparr>)"
    unfolding hex_only_def
  proof (intro allI impI)
    fix s assume "ev_hex_decode (example_env\<lparr>ev_hex_decode :=
      (\<lambda>b. if b = replicate 64 97 then Some example_hash else None)\<rparr>) (as_bytes s) \<noteq> None"
    then have "as_bytes s = as_bytes (replicate 64 CHR ''a'')"
      by (simp add: as_bytes_def map_replicate split: if_splits)
    then have "s = replicate 64 CHR ''a''" by (rule as_bytes_inject [THEN iffD1])
    then show "set s \<subseteq> set hex_digits" by (simp add: hex_digits_def)
  qed
  from image_path_safe [OF this] show ?thesis by (rule wp_conseq) auto
qed

end
