(* ===== verification/Search.thy ===== *)
theory Search
  imports State "HOL-Library.Multiset" "HOL-Library.Product_Lexorder"
begin

section \<open>Searching software: \<open>search_software\<close> of src/software.rs\<close>

text \<open>
  The search keeps a list of at most \<open>capacity\<close> results and replaces its worst element whenever a
  better item turns up. The comparisons by downloads read, and may initialise, the download
  database. The order of the results is the order of the slots; \<open>start_index\<close> is not used.
\<close>

datatype search_alg = HighestRated | LowestRated | MostDownloaded | LeastDownloaded
  | Newest | Oldest | Trending | HighestPrice | LowestPrice

record search_software_req =
  sq_term :: string
  sq_sort_by :: search_alg
  sq_start_index :: u64
  sq_num_results :: u16

record search_result =
  sr_title :: string
  sr_item_id :: u64
  sr_creation_time :: u64
  sr_num_downloads :: u64

text \<open>\<open>std::cmp::Ordering\<close> and \<open>Ord::cmp\<close>.\<close>

datatype ordering = Less | Equal | Greater

definition cmp :: "'a::linorder \<Rightarrow> 'a \<Rightarrow> ordering" where
  "cmp a b = (if a < b then Less else if a = b then Equal else Greater)"

definition newest_item :: "item \<Rightarrow> item \<Rightarrow> (world, ordering) eff" where
  "newest_item item1 item2 = ret (cmp (it_id item2) (it_id item1))"

definition oldest_item :: "item \<Rightarrow> item \<Rightarrow> (world, ordering) eff" where
  "oldest_item item1 item2 = ret (cmp (it_id item1) (it_id item2))"

text \<open>\<open>get_or_insert(&item.id, &SoftwareDownloads(BTreeSet::new())).unwrap()\<close>.\<close>

definition downloads_of :: "u64 \<Rightarrow> (world, software_downloads) eff" where
  "downloads_of i = unwrapped (db_get_or_insert DownloadCountDB i [])"

definition most_downloaded_item :: "item \<Rightarrow> item \<Rightarrow> (world, ordering) eff" where
  "most_downloaded_item item1 item2 =
     and_then (downloads_of (it_id item1)) (\<lambda>count1.
     and_then (downloads_of (it_id item2)) (\<lambda>count2.
     ret (cmp (length count2) (length count1))))"

definition least_downloaded_item :: "item \<Rightarrow> item \<Rightarrow> (world, ordering) eff" where
  "least_downloaded_item item1 item2 =
     and_then (downloads_of (it_id item1)) (\<lambda>count1.
     and_then (downloads_of (it_id item2)) (\<lambda>count2.
     ret (cmp (length count1) (length count2))))"

text \<open>The five other orders end in \<open>todo!()\<close>.\<close>

fun comparison :: "search_alg \<Rightarrow> (world, item \<Rightarrow> item \<Rightarrow> (world, ordering) eff) eff" where
  "comparison Newest = ret newest_item"
| "comparison Oldest = ret oldest_item"
| "comparison MostDownloaded = ret most_downloaded_item"
| "comparison LeastDownloaded = ret least_downloaded_item"
| "comparison _ = panic"

text \<open>\<open>iter_mut().reduce(..)\<close>: the index of the item that is kept.\<close>

fun reduce_worst :: "(item \<Rightarrow> item \<Rightarrow> (world, ordering) eff) \<Rightarrow> item list \<Rightarrow> nat \<Rightarrow> nat list \<Rightarrow> (world, nat) eff" where
  "reduce_worst alg results i [] = ret i"
| "reduce_worst alg results i (j # js) =
     and_then (alg (results ! i) (results ! j)) (\<lambda>o1. case o1 of
         Greater \<Rightarrow> reduce_worst alg results i js
       | Less \<Rightarrow> reduce_worst alg results j js
       | Equal \<Rightarrow> reduce_worst alg results i js)"

definition replace_worst :: "(item \<Rightarrow> item \<Rightarrow> (world, ordering) eff) \<Rightarrow> item \<Rightarrow> item list \<Rightarrow> (world, item list) eff" where
  "replace_worst alg item results =
     (case [0..<length results] of
        [] \<Rightarrow> panic
      | i # js \<Rightarrow> and_then (reduce_worst alg results i js) (\<lambda>worst.
          and_then (alg item (results ! worst)) (\<lambda>o1.
          ret (if o1 = Less then results[worst := item] else results))))"

definition matches :: "env \<Rightarrow> string \<Rightarrow> item \<Rightarrow> bool" where
  "matches env query item \<longleftrightarrow> it_creation_time item \<noteq> None \<and> sublist query (ev_to_lowercase env (it_title item))"

text \<open>The body of \<open>for_each\<close>.\<close>

definition consider_item ::
    "env \<Rightarrow> search_software_req \<Rightarrow> nat \<Rightarrow> item \<Rightarrow> item list \<Rightarrow> (world, item list) eff" where
  "consider_item env req capacity item results =
     (if matches env (sq_term req) item then
        if length results < capacity then ret (results @ [item])
        else and_then (comparison (sq_sort_by req)) (\<lambda>search_alg. replace_worst search_alg item results)
      else ret results)"

fun consider_items ::
    "env \<Rightarrow> search_software_req \<Rightarrow> nat \<Rightarrow> (sled_error + u64 \<times> item) list \<Rightarrow> item list \<Rightarrow> (world, item list) eff" where
  "consider_items env req capacity [] results = ret results"
| "consider_items env req capacity (res # rest) results =
     and_then (unwrap_res res) (\<lambda>(_, item).
     and_then (consider_item env req capacity item results) (consider_items env req capacity rest))"

definition from_item :: "item \<Rightarrow> (world, search_result) eff" where
  "from_item item =
     and_then (unwrap_opt (it_creation_time item)) (\<lambda>creation_time.
     and_then (downloads_of (it_id item)) (\<lambda>downloads.
     ret \<lparr>sr_title = it_title item, sr_item_id = it_id item, sr_creation_time = creation_time,
       sr_num_downloads = of_nat (length downloads)\<rparr>))"

fun from_items :: "item list \<Rightarrow> (world, search_result list) eff" where
  "from_items [] = ret []"
| "from_items (item # items) = and_then (from_item item) (\<lambda>r.
     and_then (from_items items) (\<lambda>rs. ret (r # rs)))"

definition MAX_NUM_RESULTS :: u16 where
  "MAX_NUM_RESULTS = 100"

definition search_software :: "env \<Rightarrow> u64 list \<Rightarrow> search_software_req \<Rightarrow> (world, search_result list response) eff" where
  "search_software env ks req =
     (if MAX_NUM_RESULTS < sq_num_results req
      then ret (deny User ''Too many results requested'' ''Try requesting 100 results or less'' BAD_REQUEST)
      else and_then (db_len SoftwareDB ks) (\<lambda>len.
        let capacity = min len (unat (sq_num_results req)) in
        and_then (db_iter SoftwareDB ks) (\<lambda>items.
        and_then (consider_items env req capacity items []) (\<lambda>results.
        and_then (from_items results) (\<lambda>rs. ret (answer OK rs))))))"

subsection \<open>Rankings\<close>

text \<open>The number of downloads on record; a missing entry counts as none.\<close>

definition num_downloads :: "world \<Rightarrow> item \<Rightarrow> nat" where
  "num_downloads w item = length (case download_count_db w (it_id item) of None \<Rightarrow> [] | Some d \<Rightarrow> d)"

text \<open>States that differ at most by initialised download counts.\<close>

definition same_counts :: "world \<Rightarrow> world \<Rightarrow> bool" where
  "same_counts w w' \<longleftrightarrow> (\<exists>m. w' = w\<lparr>download_count_db := m\<rparr> \<and>
    (\<forall>i. (case m i of None \<Rightarrow> [] | Some d \<Rightarrow> d) = (case download_count_db w i of None \<Rightarrow> [] | Some d \<Rightarrow> d)))"

lemma same_counts_refl [simp]: "same_counts w w"
  unfolding same_counts_def by (rule exI [of _ "download_count_db w"]) simp

lemma same_counts_trans: "same_counts w w' \<Longrightarrow> same_counts w' w'' \<Longrightarrow> same_counts w w''"
  by (auto simp: same_counts_def)

lemma same_counts_num: "same_counts w w' \<Longrightarrow> num_downloads w' = num_downloads w"
  by (auto simp: same_counts_def num_downloads_def fun_eq_iff)

lemma same_counts_faults: "same_counts w w' \<Longrightarrow> sled_faults w' = sled_faults w"
  by (auto simp: same_counts_def)

lemma wp_downloads_of:
  assumes "sled_faults w = []"
    and "\<And>w'. same_counts w w' \<Longrightarrow>
      Q (case download_count_db w i of None \<Rightarrow> [] | Some d \<Rightarrow> d) w'"
  shows "wp (downloads_of i) Q E w"
proof (cases "download_count_db w i")
  case None
  have "same_counts w (w\<lparr>download_count_db := (download_count_db w)(i \<mapsto> [])\<rparr>)"
    using None unfolding same_counts_def by (intro exI [of _ "(download_count_db w)(i \<mapsto> [])"]) auto
  with assms(2) [OF this] None assms(1) show ?thesis
    by (simp add: downloads_of_def wp_def db_get_or_insert_def db_get_def db_insert_def store_defs run_rules)
next
  case (Some d)
  with assms(2) [OF same_counts_refl] assms(1) show ?thesis
    by (simp add: downloads_of_def wp_def db_get_or_insert_def db_get_def store_defs run_rules)
qed

text \<open>
  What the search needs of a comparison: it compares the values of some key, better items first, and
  changes nothing that matters.
\<close>

locale ranking =
  fixes alg :: "item \<Rightarrow> item \<Rightarrow> (world, ordering) eff"
    and key :: "world \<Rightarrow> item \<Rightarrow> int"
  assumes alg_law: "sled_faults w = [] \<Longrightarrow>
      wp (alg a b) (\<lambda>r w'. r = cmp (key w a) (key w b) \<and> same_counts w w') (\<lambda>_. False) w"
    and key_law: "same_counts w w' \<Longrightarrow> key w' = key w"
begin

lemma wp_alg:
  assumes "sled_faults w = []"
    and "\<And>w'. same_counts w w' \<Longrightarrow> Q (cmp (key w a) (key w b)) w'"
  shows "wp (alg a b) Q E w"
  by (rule wp_conseq [OF alg_law [OF assms(1)]]) (use assms(2) in auto)

lemma wp_reduce_worst:
  assumes "sled_faults w = []"
    and "\<And>v w'. v \<in> insert i (set js) \<Longrightarrow> \<forall>j \<in> insert i (set js). key w (results ! j) \<le> key w (results ! v) \<Longrightarrow>
      same_counts w w' \<Longrightarrow> Q v w'"
  shows "wp (reduce_worst alg results i js) Q E w"
  using assms
proof (induction js arbitrary: i w)
  case Nil
  then show ?case by (simp add: wp_ret)
next
  case (Cons j js)
  show ?case
  proof (simp add: wp_and_then, rule wp_alg [OF Cons.prems(1)])
    fix w1 assume w1: "same_counts w w1"
    have key: "key w1 = key w" and ok: "sled_faults w1 = []"
      using key_law [OF w1] same_counts_faults [OF w1] Cons.prems(1) by simp_all
    have go: "wp (reduce_worst alg results k js) Q E w1"
      if k: "k = i \<or> k = j" and max: "key w (results ! i) \<le> key w (results ! k)" "key w (results ! j) \<le> key w (results ! k)" for k
    proof (rule Cons.IH [OF ok])
      fix v w' assume v: "v \<in> insert k (set js)"
        "\<forall>j \<in> insert k (set js). key w1 (results ! j) \<le> key w1 (results ! v)" "same_counts w1 w'"
      have "key w (results ! k) \<le> key w (results ! v)" using v(2) by (simp add: key)
      with max v(2) have "\<forall>l \<in> insert i (set (j # js)). key w (results ! l) \<le> key w (results ! v)"
        by (auto simp: key)
      with v(1) k same_counts_trans [OF w1 v(3)] show "Q v w'" by (intro Cons.prems(2)) auto
    qed
    show "wp (case cmp (key w (results ! i)) (key w (results ! j)) of Less \<Rightarrow> reduce_worst alg results j js
        | Equal \<Rightarrow> reduce_worst alg results i js | Greater \<Rightarrow> reduce_worst alg results i js) Q E w1"
      using go [of i] go [of j] by (auto simp: cmp_def)
  qed
qed

lemma wp_replace_worst:
  assumes ok: "sled_faults w = []" and ne: "results \<noteq> []"
    and post: "\<And>d results' w'. mset (d # results') = mset (item # results) \<Longrightarrow>
      \<forall>r \<in> set results'. key w r \<le> key w d \<Longrightarrow> same_counts w w' \<Longrightarrow> Q results' w'"
  shows "wp (replace_worst alg item results) Q E w"
proof -
  have slots: "[0..<length results] = 0 # [Suc 0..<length results]"
    using ne by (simp add: upt_conv_Cons)
  show ?thesis
  unfolding replace_worst_def slots list.case wp_and_then
  proof (rule wp_reduce_worst [OF ok])
    fix v w1
    assume v: "v \<in> insert 0 (set [Suc 0..<length results])"
      and max: "\<forall>j \<in> insert 0 (set [Suc 0..<length results]). key w (results ! j) \<le> key w (results ! v)"
      and w1: "same_counts w w1"
    have range: "insert 0 (set [Suc 0..<length results]) = {0..<length results}" using ne by (cases results) auto
    have v': "v < length results" using v unfolding range by simp
    have worst: "\<forall>r \<in> set results. key w r \<le> key w (results ! v)"
      using max unfolding range by (auto simp: in_set_conv_nth)
    have ok1: "sled_faults w1 = []" using same_counts_faults [OF w1] ok by simp
    show "wp (alg item (results ! v)) (\<lambda>o1. wp (ret (if o1 = Less then results[v := item] else results)) Q E) E w1"
    proof (rule wp_alg [OF ok1])
      fix w2 assume "same_counts w1 w2"
      then have w2: "same_counts w w2" by (rule same_counts_trans [OF w1])
      have "Q (if key w item < key w (results ! v) then results[v := item] else results) w2"
      proof (cases "key w item < key w (results ! v)")
        case True
        have "mset (results ! v # results[v := item]) = mset (item # results)"
          using v' by (simp add: mset_update)
        moreover have "\<forall>r \<in> set (results[v := item]). key w r \<le> key w (results ! v)"
          using True worst set_update_subset_insert [of results v item] by fastforce
        ultimately show ?thesis using True post [OF _ _ w2] by simp
      next
        case False
        then have "\<forall>r \<in> set results. key w r \<le> key w item" using worst by fastforce
        then show ?thesis using False post [OF _ _ w2, of item results] by simp
      qed
      then show "wp (ret (if cmp (key w1 item) (key w1 (results ! v)) = Less then results[v := item] else results)) Q E w2"
        by (auto simp: wp_ret cmp_def key_law [OF w1] split: if_splits)
    qed
  qed
qed

end

text \<open>The keys: smaller is better. Ids are compared as such, downloads by their number.\<close>

fun rank :: "search_alg \<Rightarrow> world \<Rightarrow> item \<Rightarrow> int" where
  "rank Newest w item = - uint (it_id item)"
| "rank Oldest w item = uint (it_id item)"
| "rank MostDownloaded w item = - int (num_downloads w item)"
| "rank LeastDownloaded w item = int (num_downloads w item)"
| "rank _ w item = 0"

interpretation newest: ranking newest_item "rank Newest"
  by unfold_locales (auto simp: newest_item_def wp_ret cmp_def word_less_def word_uint_eq_iff fun_eq_iff)

interpretation oldest: ranking oldest_item "rank Oldest"
  by unfold_locales (auto simp: oldest_item_def wp_ret cmp_def word_less_def word_uint_eq_iff fun_eq_iff)

text \<open>Reading two download counts, in either order.\<close>

lemma wp_two_counts:
  assumes ok: "sled_faults w = []"
    and post: "\<And>w'. same_counts w w' \<Longrightarrow> Q (g (num_downloads w a) (num_downloads w b)) w'"
  shows "wp (and_then (downloads_of (it_id a)) (\<lambda>count1. and_then (downloads_of (it_id b)) (\<lambda>count2.
    ret (g (length count1) (length count2))))) Q E w"
  unfolding wp_and_then
proof (rule wp_downloads_of [OF ok], rule wp_downloads_of)
  fix w' assume "same_counts w w'"
  then show "sled_faults w' = []" using ok by (simp add: same_counts_faults)
next
  fix w1 w2 assume s: "same_counts w w1" "same_counts w1 w2"
  have "num_downloads w b = length (case download_count_db w1 (it_id b) of None \<Rightarrow> [] | Some d \<Rightarrow> d)"
    using same_counts_num [OF s(1)] by (metis num_downloads_def)
  with post [OF same_counts_trans [OF s]]
  show "wp (ret (g (length (case download_count_db w (it_id a) of None \<Rightarrow> [] | Some d \<Rightarrow> d))
      (length (case download_count_db w1 (it_id b) of None \<Rightarrow> [] | Some d \<Rightarrow> d)))) Q E w2"
    by (simp add: wp_ret num_downloads_def)
qed

interpretation most: ranking most_downloaded_item "rank MostDownloaded"
proof
  show "wp (most_downloaded_item a b) (\<lambda>r w'. r = cmp (rank MostDownloaded w a) (rank MostDownloaded w b) \<and>
      same_counts w w') (\<lambda>_. False) w" if "sled_faults w = []" for w a b
    unfolding most_downloaded_item_def
    by (rule wp_two_counts [OF that, where g = "\<lambda>m n. cmp n m"]) (auto simp: cmp_def)
qed (simp add: same_counts_num fun_eq_iff)

interpretation least: ranking least_downloaded_item "rank LeastDownloaded"
proof
  show "wp (least_downloaded_item a b) (\<lambda>r w'. r = cmp (rank LeastDownloaded w a) (rank LeastDownloaded w b) \<and>
      same_counts w w') (\<lambda>_. False) w" if "sled_faults w = []" for w a b
    unfolding least_downloaded_item_def
    by (rule wp_two_counts [OF that, where g = cmp]) (auto simp: cmp_def)
qed (simp add: same_counts_num fun_eq_iff)

subsection \<open>The best results\<close>

text \<open>
  \<open>rs\<close> are at most \<open>n\<close> of the items \<open>xs\<close>; the others are left out only when there are \<open>n\<close> results,
  and none of them is better than a result.
\<close>

definition top_k :: "(item \<Rightarrow> int) \<Rightarrow> nat \<Rightarrow> item list \<Rightarrow> item list \<Rightarrow> bool" where
  "top_k key n xs rs \<longleftrightarrow> (\<exists>ds. mset (rs @ ds) = mset xs \<and> length rs \<le> n \<and>
    (ds \<noteq> [] \<longrightarrow> length rs = n) \<and> (\<forall>r \<in> set rs. \<forall>d \<in> set ds. key r \<le> key d))"

lemma top_k_Nil [simp]: "top_k key n [] []"
  by (auto simp: top_k_def)

lemma top_k_push:
  assumes "top_k key n xs rs" "length rs < n"
  shows "top_k key n (xs @ [x]) (rs @ [x])"
proof -
  from assms have "mset rs = mset xs" by (auto simp: top_k_def)
  with assms(2) show ?thesis unfolding top_k_def by (intro exI [of _ "[]"]) auto
qed

lemma top_k_replace:
  assumes "top_k key n xs rs" "length rs = n" and swap: "mset (d # rs') = mset (x # rs)"
    and best: "\<forall>r \<in> set rs'. key r \<le> key d"
  shows "top_k key n (xs @ [x]) rs'"
proof -
  from assms(1) obtain ds where ds: "mset (rs @ ds) = mset xs" "\<forall>r \<in> set rs. \<forall>e \<in> set ds. key r \<le> key e"
    by (auto simp: top_k_def)
  have "length (d # rs') = length (x # rs)" using swap by (rule mset_eq_length)
  then have len: "length rs' = n" using assms(2) by simp
  have elems: "insert d (set rs') = insert x (set rs)" using mset_eq_setD [OF swap] by simp
  have "mset (rs' @ d # ds) = mset (xs @ [x])"
    using swap ds(1) by simp (metis add_mset_commute union_mset_add_mset_left)
  moreover have "key r \<le> key e" if r: "r \<in> set rs'" and e: "e \<in> set ds" for r e
  proof (cases "r \<in> set rs")
    case False
    then have "r = x" using r elems by auto
    consider "d = x" | "d \<in> set rs" using elems by auto
    then show ?thesis
    proof cases
      case 1
      then have "mset rs' = mset rs" using swap by simp
      then show ?thesis using r e ds(2) by (metis mset_eq_setD)
    next
      case 2
      then show ?thesis using best r e ds(2) by fastforce
    qed
  qed (use e ds(2) in auto)
  ultimately show ?thesis unfolding top_k_def using best len
    by (intro exI [of _ "d # ds"]) auto
qed

text \<open>A smaller capacity makes no difference when it is that of all items.\<close>

lemma top_k_min:
  assumes "top_k key (min m n) xs rs" "length xs \<le> m"
  shows "top_k key n xs rs"
proof -
  from assms(1) obtain ds where ds: "mset (rs @ ds) = mset xs" "length rs \<le> min m n"
    "ds \<noteq> [] \<longrightarrow> length rs = min m n" "\<forall>r \<in> set rs. \<forall>e \<in> set ds. key r \<le> key e"
    by (auto simp: top_k_def)
  from mset_eq_length [OF ds(1)] have "length rs + length ds = length xs" by simp
  with ds assms(2) have "ds \<noteq> [] \<longrightarrow> length rs = n" by (cases ds) auto
  with ds show ?thesis unfolding top_k_def by auto
qed

definition supported :: "search_alg \<Rightarrow> bool" where
  "supported alg \<longleftrightarrow> alg \<in> {Newest, Oldest, MostDownloaded, LeastDownloaded}"

lemma wp_best:
  assumes "supported alg" "sled_faults w = []" "results \<noteq> []"
    and "\<And>d results' w'. mset (d # results') = mset (item # results) \<Longrightarrow>
      \<forall>r \<in> set results'. rank alg w r \<le> rank alg w d \<Longrightarrow> same_counts w w' \<Longrightarrow> Q results' w'"
  shows "wp (and_then (comparison alg) (\<lambda>f. replace_worst f item results)) Q E w"
  using assms newest.wp_replace_worst oldest.wp_replace_worst most.wp_replace_worst least.wp_replace_worst
  unfolding supported_def by (cases alg) auto

lemma rank_same_counts: "same_counts w w' \<Longrightarrow> rank alg w' = rank alg w"
  by (cases alg) (auto simp: same_counts_num)

lemma wp_consider_item:
  assumes "supported (sq_sort_by req)" "sled_faults w = []" "0 < n"
    and inv: "top_k (rank (sq_sort_by req) w) n (filter (matches env (sq_term req)) xs) rs"
    and "\<And>rs' w'. same_counts w w' \<Longrightarrow>
      top_k (rank (sq_sort_by req) w) n (filter (matches env (sq_term req)) (xs @ [x])) rs' \<Longrightarrow> Q rs' w'"
  shows "wp (consider_item env req n x rs) Q E w"
proof -
  consider "\<not> matches env (sq_term req) x" | "matches env (sq_term req) x" "length rs < n"
    | "matches env (sq_term req) x" "length rs = n" "rs \<noteq> []"
    using inv assms(3) by (force simp: top_k_def)
  then show ?thesis
  proof cases
    case 1
    then show ?thesis using assms by (simp add: consider_item_def wp_ret)
  next
    case 2
    then show ?thesis using assms top_k_push [OF inv] by (simp add: consider_item_def wp_ret)
  next
    case 3
    have "wp (and_then (comparison (sq_sort_by req)) (\<lambda>f. replace_worst f x rs)) Q E w"
    proof (rule wp_best [OF assms(1,2) 3(3)])
      fix d rs' w' assume "mset (d # rs') = mset (x # rs)"
        "\<forall>r \<in> set rs'. rank (sq_sort_by req) w r \<le> rank (sq_sort_by req) w d" "same_counts w w'"
      then show "Q rs' w'" using assms(5) top_k_replace [OF inv 3(2)] 3(1) by simp
    qed
    with 3 show ?thesis by (simp add: consider_item_def)
  qed
qed

lemma wp_consider_items:
  assumes "supported (sq_sort_by req)" "sled_faults w = []" "0 < n"
    and "top_k (rank (sq_sort_by req) w) n (filter (matches env (sq_term req)) xs) rs"
    and "\<And>rs' w'. same_counts w w' \<Longrightarrow>
      top_k (rank (sq_sort_by req) w) n (filter (matches env (sq_term req)) (xs @ map snd es)) rs' \<Longrightarrow> Q rs' w'"
  shows "wp (consider_items env req n (map Inr es) rs) Q E w"
  using assms
proof (induction es arbitrary: xs rs w)
  case Nil
  then show ?case by (simp add: wp_ret)
next
  case (Cons e es)
  have "wp (consider_item env req n (snd e) rs) (\<lambda>rs. wp (consider_items env req n (map Inr es) rs) Q E) E w"
  proof (rule wp_consider_item [OF Cons.prems(1-4)])
    fix rs' w' assume w': "same_counts w w'"
      and inv: "top_k (rank (sq_sort_by req) w) n (filter (matches env (sq_term req)) (xs @ [snd e])) rs'"
    have same: "rank (sq_sort_by req) w' = rank (sq_sort_by req) w" "sled_faults w' = []"
      using w' Cons.prems(2) by (simp_all add: rank_same_counts same_counts_faults)
    show "wp (consider_items env req n (map Inr es) rs') Q E w'"
      by (rule Cons.IH [OF Cons.prems(1) same(2) Cons.prems(3), of "xs @ [snd e]"])
        (use inv same Cons.prems(5) same_counts_trans [OF w'] in auto)
  qed
  then show ?case by (cases e) (simp add: wp_rules)
qed

subsection \<open>What a search answers\<close>

definition result_of :: "world \<Rightarrow> item \<Rightarrow> search_result" where
  "result_of w item = \<lparr>sr_title = it_title item, sr_item_id = it_id item,
    sr_creation_time = the (it_creation_time item), sr_num_downloads = of_nat (num_downloads w item)\<rparr>"

lemma wp_from_items:
  assumes "sled_faults w = []" "\<forall>item \<in> set items. it_creation_time item \<noteq> None"
    and "\<And>w'. same_counts w w' \<Longrightarrow> Q (map (result_of w) items) w'"
  shows "wp (from_items items) Q E w"
  using assms
proof (induction items arbitrary: w Q)
  case Nil
  then show ?case by (simp add: wp_ret)
next
  case (Cons item items)
  from Cons.prems(2) obtain t where t: "it_creation_time item = Some t" by auto
  show ?case
    unfolding from_items.simps from_item_def t wp_rules option.case
  proof (rule wp_downloads_of [OF Cons.prems(1)])
    fix w1 assume w1: "same_counts w w1"
    have "result_of w1 = result_of w" by (simp add: fun_eq_iff result_of_def same_counts_num [OF w1])
    then show "wp (from_items items) (\<lambda>x. Q (\<lparr>sr_title = it_title item, sr_item_id = it_id item,
        sr_creation_time = t, sr_num_downloads = word_of_nat (length (case download_count_db w (it_id item) of
          None \<Rightarrow> [] | Some d \<Rightarrow> d))\<rparr> # x)) E w1"
      using Cons.prems w1 t
      by (intro Cons.IH) (auto simp: same_counts_faults result_of_def num_downloads_def intro: same_counts_trans)
  qed
qed

lemma top_k_subset: "top_k key n xs rs \<Longrightarrow> set rs \<subseteq> set xs"
  unfolding top_k_def by (metis mset_eq_setD set_append sup.cobounded1)

text \<open>The items a search is about: the published ones whose title contains the term.\<close>

definition hits :: "env \<Rightarrow> search_software_req \<Rightarrow> u64 list \<Rightarrow> world \<Rightarrow> item list" where
  "hits env req ks w = filter (matches env (sq_term req)) (map snd (entries ks (software_db w)))"

lemma length_hits_le: "length (hits env req ks w) \<le> length (entries ks (software_db w))"
  unfolding hits_def by (metis length_filter_le length_map)

lemma search_software_run:
  assumes "sled_faults w = []" "sq_num_results req \<le> MAX_NUM_RESULTS"
  shows "search_software env ks req w =
    and_then (consider_items env req (min (length (entries ks (software_db w))) (unat (sq_num_results req)))
        (map Inr (entries ks (software_db w))) [])
      (\<lambda>results. and_then (from_items results) (\<lambda>rs. ret (answer OK rs))) w"
proof -
  have "\<not> MAX_NUM_RESULTS < sq_num_results req" using assms(2) by simp
  with assms(1) show ?thesis
    by (simp add: search_software_def db_len_def and_then_def gets_def db_iter_run Let_def store_defs)
qed

text \<open>
  C23: A search returns the best results: on a healthy server, for one of the four implemented orders
  and between 1 and 100 results, the answer is 200 and lists the titles, ids, publication times and
  download numbers of at most that many published items whose lower-cased title contains the term as it was
  given; an item is left out only when the answer is full, and then no result is worse than it. Nothing changes but
  that download counts may be initialised as empty.
\<close>

theorem search_returns_best:
  assumes healthy: "sled_faults w = []" and alg: "supported (sq_sort_by req)"
    and n: "0 < sq_num_results req" "sq_num_results req \<le> MAX_NUM_RESULTS"
  shows "wp (search_software env ks req)
    (\<lambda>resp w'. \<exists>rs. resp = answer OK (map (result_of w) rs) \<and> same_counts w w' \<and>
      top_k (rank (sq_sort_by req) w) (unat (sq_num_results req)) (hits env req ks w) rs)
    (\<lambda>_. False) w"
proof -
  let ?es = "entries ks (software_db w)" and ?rank = "rank (sq_sort_by req) w"
  let ?Q = "\<lambda>resp w'. \<exists>rs. resp = answer OK (map (result_of w) rs) \<and> same_counts w w' \<and>
      top_k ?rank (unat (sq_num_results req)) (hits env req ks w) rs"
  have publish: "wp (from_items rs) (\<lambda>x. wp (ret (answer OK x)) ?Q (\<lambda>_. False)) (\<lambda>_. False) w1"
    if w1: "same_counts w w1" and top: "top_k ?rank (min (length ?es) (unat (sq_num_results req))) (hits env req ks w) rs"
    for rs w1
  proof (rule wp_from_items)
    show "sled_faults w1 = []" using same_counts_faults [OF w1] healthy by simp
    show "\<forall>item \<in> set rs. it_creation_time item \<noteq> None"
      using top_k_subset [OF top] by (auto simp: hits_def matches_def)
    have "result_of w1 = result_of w" by (simp add: fun_eq_iff result_of_def same_counts_num [OF w1])
    then show "wp (ret (answer OK (map (result_of w1) rs))) ?Q (\<lambda>_. False) w'" if "same_counts w1 w'" for w'
      using top_k_min [OF top length_hits_le] same_counts_trans [OF w1 that] by (auto simp: wp_ret)
  qed
  have "wp (consider_items env req (min (length ?es) (unat (sq_num_results req))) (map Inr ?es) [])
      (\<lambda>rs. wp (from_items rs) (\<lambda>x. wp (ret (answer OK x)) ?Q (\<lambda>_. False)) (\<lambda>_. False)) (\<lambda>_. False) w"
  proof (cases "?es = []")
    case True
    then show ?thesis using publish [of w "[]"] by (simp add: wp_ret hits_def)
  next
    case False
    moreover have "0 < unat (sq_num_results req)" using n(1) by (simp add: word_less_nat_alt)
    ultimately show ?thesis
      by (intro wp_consider_items [OF alg healthy, of _ _ "[]"] publish) (simp_all add: hits_def)
  qed
  then have "wp (and_then (consider_items env req (min (length ?es) (unat (sq_num_results req))) (map Inr ?es) [])
      (\<lambda>results. and_then (from_items results) (\<lambda>rs. ret (answer OK rs)))) ?Q (\<lambda>_. False) w"
    unfolding ext [OF wp_and_then] .
  then show ?thesis by (simp add: wp_def search_software_run [OF healthy n(2)])
qed

definition example_item :: "u64 \<Rightarrow> string \<Rightarrow> item" where
  "example_item i title = \<lparr>it_id = i, it_title = title, it_creator = ''alice'', it_description = [],
    it_arch_type = Web, it_compressed_size = 10, it_price = NoPrice, it_compression_type = Zstd,
    it_files = Map.empty, it_upload_id = None, it_creation_time = Some (10 + i), it_title_image_hash = []\<rparr>"

definition catalogue :: world where
  "catalogue = empty_world\<lparr>software_db := [0 \<mapsto> example_item 0 ''chess'', 1 \<mapsto> example_item 1 ''chess 2'',
    2 \<mapsto> example_item 2 ''go'']\<rparr>"

definition chess_search :: "u16 \<Rightarrow> search_software_req" where
  "chess_search n = \<lparr>sq_term = ''chess'', sq_sort_by = Newest, sq_start_index = 0, sq_num_results = n\<rparr>"

theorem search_returns_best_witness:
  "wp (search_software example_env [0, 1, 2] (chess_search 1))
    (\<lambda>resp w'. \<exists>rs. resp = answer OK (map (result_of catalogue) rs) \<and> same_counts catalogue w' \<and>
      top_k (rank Newest catalogue) 1 (hits example_env (chess_search 1) [0, 1, 2] catalogue) rs)
    (\<lambda>_. False) catalogue"
  using search_returns_best [of catalogue "chess_search 1" example_env "[0, 1, 2]"]
  by (simp add: catalogue_def empty_world_def chess_search_def supported_def MAX_NUM_RESULTS_def)

lemma consider_items_no_room:
  assumes "\<exists>e \<in> set es. matches env (sq_term req) (snd e)"
  shows "fst (consider_items env req 0 (map Inr es) [] w) = Panic"
  using assms
proof (induction es)
  case (Cons e es)
  have "comparison (sq_sort_by req) = panic \<or> (\<exists>f. comparison (sq_sort_by req) = ret f)"
    by (cases "sq_sort_by req") auto
  moreover have "\<And>w. fst (panic w) = Panic" by (simp add: panic_def)
  ultimately show ?case using Cons
    by (cases e) (auto simp: consider_item_def replace_worst_def)
qed simp

text \<open>
  A search for zero results makes the handler panic as soon as any published item matches: there
  is no room for it, so the worst result is looked for in an empty list.
\<close>

lemma empty_search_panics:
  assumes "sled_faults w = []" "sq_num_results req = 0" "hits env req ks w \<noteq> []"
  shows "fst (search_software env ks req w) = Panic"
proof -
  from assms(3) have "\<exists>e \<in> set (entries ks (software_db w)). matches env (sq_term req) (snd e)"
    by (auto simp: hits_def filter_empty_conv)
  from consider_items_no_room [OF this, of w] show ?thesis
    using search_software_run [OF assms(1), of req] assms(2)
    by (auto simp: and_then_def MAX_NUM_RESULTS_def split: prod.splits outcome.splits)
qed

lemma empty_search_panics_example:
  "fst (search_software example_env [0, 1, 2] (chess_search 0) catalogue) = Panic"
  by (rule empty_search_panics)
    (simp_all add: catalogue_def empty_world_def chess_search_def hits_def matches_def example_item_def
      example_env_def sublist_Cons_right)

end
