(* ===== verification/Wire.thy ===== *)
theory Wire
  imports Auth
begin

section \<open>Websocket connections: messages, byte fields and files\<close>

text \<open>
  What the two websocket routes of src/software.rs share: slicing a message, the little-endian fields
  of it, and the connection a session runs on, with the frames sent so far.
\<close>

subsection \<open>Fields of a message\<close>

text \<open>\<open>msg[a..b]\<close>, which panics out of range, and \<open>iter().position(|b| *b == 0)\<close>.\<close>

definition slice :: "bytes \<Rightarrow> nat \<Rightarrow> nat \<Rightarrow> bytes option" where
  "slice msg a b = (if a \<le> b \<and> b \<le> length msg then Some (take (b - a) (drop a msg)) else None)"

definition position0 :: "bytes \<Rightarrow> nat option" where
  "position0 msg = (let n = length (takeWhile (\<lambda>b. b \<noteq> 0) msg) in if n < length msg then Some n else None)"

text \<open>\<open>from_le_bytes\<close> and \<open>to_le_bytes\<close>.\<close>

fun from_le_bytes :: "bytes \<Rightarrow> 'a::len word" where
  "from_le_bytes [] = 0"
| "from_le_bytes (b # bs) = ucast b + push_bit 8 (from_le_bytes bs)"

fun to_le_bytes :: "nat \<Rightarrow> 'a::len word \<Rightarrow> bytes" where
  "to_le_bytes 0 x = []"
| "to_le_bytes (Suc n) x = ucast x # to_le_bytes n (drop_bit 8 x)"

lemma length_to_le_bytes [simp]: "length (to_le_bytes n x) = n"
  by (induction n arbitrary: x) simp_all

lemma ucast_ucast_u8:
  fixes x :: "'a::len word"
  assumes "8 \<le> LENGTH('a)"
  shows "ucast (ucast x :: u8) = take_bit 8 x"
  by (rule bit_word_eqI) (auto simp: bit_ucast_iff bit_take_bit_iff)

lemma from_le_bytes_to_le_bytes:
  fixes x :: "'a::len word"
  assumes "8 \<le> LENGTH('a)"
  shows "from_le_bytes (to_le_bytes n x) = take_bit (8 * n) x"
proof (induction n arbitrary: x)
  case (Suc n)
  have "take_bit 8 x + push_bit 8 (take_bit (8 * n) (drop_bit 8 x)) = take_bit (8 * Suc n) x"
    by (subst disjunctive_add)
      (auto intro!: bit_word_eqI simp: bit_take_bit_iff bit_push_bit_iff bit_drop_bit_eq bit_or_iff)
  then show ?case using Suc assms by (simp add: ucast_ucast_u8)
qed simp

lemma from_le_bytes_u64 [simp]: "from_le_bytes (to_le_bytes 8 x) = (x :: u64)"
  by (simp add: from_le_bytes_to_le_bytes take_bit_word_eq_self)

lemma position0_append [simp]: "0 \<notin> set a \<Longrightarrow> position0 (a @ 0 # b) = Some (length a)"
proof -
  assume "0 \<notin> set a"
  then have "takeWhile (\<lambda>b. b \<noteq> 0) (a @ 0 # b) = a" by (subst takeWhile_append2) auto
  then show ?thesis by (simp add: position0_def Let_def)
qed

lemma slice_at: "length a = i \<Longrightarrow> length b = j - i \<Longrightarrow> i \<le> j \<Longrightarrow> slice (a @ b @ c) i j = Some b"
  by (auto simp: slice_def)

subsection \<open>Connections\<close>

text \<open>
  The server's state, the frames sent to the client, and which of the coming sends fail (a panic in
  the code).
\<close>

record connection =
  cn_world :: world
  cn_sent :: "bytes list"
  cn_send_faults :: "bool list"

definition on_server :: "(world, 'a) eff \<Rightarrow> ('z connection_scheme, 'a) eff" where
  "on_server m = (\<lambda>c. case m (cn_world c) of (r, w) \<Rightarrow> (r, c\<lparr>cn_world := w\<rparr>))"

definition ws_send :: "bytes \<Rightarrow> (connection, unit) eff" where
  "ws_send m = (\<lambda>c. if cn_send_faults c \<noteq> [] \<and> hd (cn_send_faults c)
     then (Panic, c\<lparr>cn_send_faults := tl (cn_send_faults c)\<rparr>)
     else (Done (), c\<lparr>cn_send_faults := tl (cn_send_faults c), cn_sent := cn_sent c @ [m]\<rparr>))"

lemma wp_on_server [wp_rules]:
  "wp (on_server m) Q E c = wp m (\<lambda>x w. Q x (c\<lparr>cn_world := w\<rparr>)) (\<lambda>w. E (c\<lparr>cn_world := w\<rparr>)) (cn_world c)"
  by (simp add: wp_def on_server_def split: prod.splits outcome.splits)

lemma wp_ws_send [wp_rules]:
  "wp (ws_send m) Q E c =
    (if cn_send_faults c \<noteq> [] \<and> hd (cn_send_faults c) then E (c\<lparr>cn_send_faults := tl (cn_send_faults c)\<rparr>)
     else Q () (c\<lparr>cn_send_faults := tl (cn_send_faults c), cn_sent := cn_sent c @ [m]\<rparr>))"
  by (simp add: wp_def ws_send_def)

text \<open>The websocket is closed, or yields a message or an error.\<close>

type_synonym ws_item = "string + bytes"

text \<open>
  What the code relies on of a read loop over a file with a non-empty buffer: it gets the whole content,
  in non-empty pieces.
\<close>

definition reads_whole :: "env \<Rightarrow> bool" where
  "reads_whole env \<longleftrightarrow> (\<forall>n content. 0 < n \<longrightarrow> concat (ev_reads env n content) = content \<and>
    (\<forall>p \<in> set (ev_reads env n content). p \<noteq> []))"

lemma example_reads_whole: "reads_whole example_env"
  by (simp add: reads_whole_def example_env_def)

text \<open>No system call and no send fails, and the clock is past 1970.\<close>

definition faultless :: "'z connection_scheme \<Rightarrow> bool" where
  "faultless c \<longleftrightarrow> sled_faults (cn_world c) = [] \<and> io_faults (cn_world c) = [] \<and>
    cn_send_faults c = [] \<and> 0 \<le> clock (cn_world c)"

end
