(* ===== verification/Download.thy ===== *)
theory Download
  imports Wire Search
begin

section \<open>Downloading software: \<open>download_software\<close> of src/software.rs\<close>

text \<open>
  One websocket session: every message names a user, a cookie and a software id; the server answers
  with the frames of all files of the item and counts the download once per user.
\<close>

text \<open>\<open>BTreeSet::insert\<close>, with the order of \<open>SoftwareDownload\<close>, which looks at the time only: an
  element of the same time stays.\<close>

fun btree_insert :: "software_download \<Rightarrow> software_downloads \<Rightarrow> software_downloads" where
  "btree_insert d [] = [d]"
| "btree_insert d (e # es) = (if sd_time d < sd_time e then d # e # es
     else if sd_time d = sd_time e then e # es else e # btree_insert d es)"

definition now_utc :: "(world, unix_time) eff" where
  "now_utc = and_then now_u64 (\<lambda>unix_time. ret (UnixTimeUTC unix_time))"

text \<open>The closure \<open>add_to_download_count\<close>.\<close>

definition add_to_download_count :: "string \<Rightarrow> u64 \<Rightarrow> (world, unit) eff" where
  "add_to_download_count username software_id =
     and_then (unwrapped (db_get DownloadCountDB software_id)) (\<lambda>found.
     let downloads = (case found of Some downloads \<Rightarrow> downloads | None \<Rightarrow> []) in
     and_then now_utc (\<lambda>time.
     let download_info = \<lparr>sd_time = time, sd_username = username\<rparr> in
     and_then (unwrapped (db_insert DownloadCountDB software_id (btree_insert download_info downloads))) (\<lambda>_.
     ret ())))"

text \<open>The end of the handling of a message: \<open>OwnershipInfo\<close> is its only field, \<open>downloaded\<close>.\<close>

definition count_download :: "string \<Rightarrow> u64 \<Rightarrow> (world, unit) eff" where
  "count_download username software_id =
     and_then (unwrapped (db_get_or_insert SoftwareOwnershipDB username Map.empty)) (\<lambda>ownership_info_list.
     and_then (case ownership_info_list software_id of
         Some downloaded \<Rightarrow>
           if \<not> downloaded
           then and_then (add_to_download_count username software_id) (\<lambda>_.
             ret (ownership_info_list(software_id \<mapsto> True)))
           else ret ownership_info_list
       | None \<Rightarrow> and_then (add_to_download_count username software_id) (\<lambda>_.
           ret (ownership_info_list(software_id \<mapsto> True)))) (\<lambda>ownership_info_list.
     and_then (unwrapped (db_insert SoftwareOwnershipDB username ownership_info_list)) (\<lambda>_. ret ())))"

text \<open>The frame before a file: its hash, its name, a zero byte, its size.\<close>

definition file_message :: "bytes \<Rightarrow> string \<Rightarrow> u64 \<Rightarrow> bytes" where
  "file_message file_hash file_name file_size =
     file_hash @ as_bytes file_name @ [0] @ to_le_bytes 8 file_size"

text \<open>The loop \<open>'read_loop\<close>, over the pieces the reads return; the last read returns nothing.\<close>

fun send_pieces :: "bytes list \<Rightarrow> (connection, unit) eff" where
  "send_pieces [] = on_server (io_call (ret ()))"
| "send_pieces (p # ps) = and_then (on_server (io_call (ret ()))) (\<lambda>_.
     and_then (ws_send p) (\<lambda>_. send_pieces ps))"

definition FILE_BUFFER_LEN :: nat where
  "FILE_BUFFER_LEN = 8192"

definition send_file :: "env \<Rightarrow> bytes \<times> string \<Rightarrow> (connection, unit) eff" where
  "send_file env = (\<lambda>(file_hash, file_name).
     let file_hash_hex = ev_hex_encode env file_hash in
     and_then (on_server (io_call (and_then (gets game_files) (\<lambda>files. unwrap_opt (files file_hash_hex))))) (\<lambda>file.
     and_then (on_server (io_call (ret (of_nat (length file))))) (\<lambda>file_size.
     and_then (ws_send (file_message file_hash file_name file_size)) (\<lambda>_.
     send_pieces (ev_reads env FILE_BUFFER_LEN file)))))"

text \<open>
  One message; the answer says whether the connection goes on. \<open>file_order\<close> is the order in which
  the \<open>HashMap\<close> of an item's files is iterated.
\<close>

definition download_message ::
    "env \<Rightarrow> ((bytes \<rightharpoonup> string) \<Rightarrow> bytes list) \<Rightarrow> bytes \<Rightarrow> (connection, bool) eff" where
  "download_message env file_order msg =
     (if msg = [] then ret False
      else and_then (unwrap_opt (position0 msg)) (\<lambda>username_end_index.
      and_then (unwrap_opt (slice msg 0 username_end_index)) (\<lambda>username_bytes.
      and_then (unwrap_opt (ev_from_utf8 env username_bytes)) (\<lambda>username.
      and_then (unwrap_opt (slice msg (username_end_index + 1) (username_end_index + 1 + 50))) (\<lambda>cookie_bytes.
      and_then (unwrap_opt (ev_from_utf8 env cookie_bytes)) (\<lambda>auth_cookie.
      and_then (on_server (verify_auth_cookie username auth_cookie)) (\<lambda>valid.
      if \<not> valid then ret False
      else and_then (unwrap_opt (slice msg (username_end_index + 52) (username_end_index + 52 + 8))) (\<lambda>id_bytes.
      let software_id = from_le_bytes id_bytes in
      and_then (on_server (unwrapped (db_get SoftwareDB software_id))) (\<lambda>found. case found of
        None \<Rightarrow> ret False
      | Some software_info \<Rightarrow>
          and_then (each (send_file env) (entries (file_order (it_files software_info)) (it_files software_info))) (\<lambda>_.
          and_then (on_server (count_download username software_id)) (\<lambda>_. ret True)))))))))))"

fun download_software ::
    "env \<Rightarrow> ((bytes \<rightharpoonup> string) \<Rightarrow> bytes list) \<Rightarrow> ws_item list \<Rightarrow> (connection, unit) eff" where
  "download_software env file_order [] = ret ()"
| "download_software env file_order (Inl err # rest) = ret ()"
| "download_software env file_order (Inr msg # rest) =
     and_then (download_message env file_order msg) (\<lambda>go_on.
     if go_on then download_software env file_order rest else ret ())"

subsection \<open>Who may download\<close>

definition has_session :: "world \<Rightarrow> string \<Rightarrow> string \<Rightarrow> bool" where
  "has_session w u c \<longleftrightarrow> (case cookie_db w u of None \<Rightarrow> False | Some ck \<Rightarrow> ac_cookie ck = c)"

lemma has_session_data: "data w = data w' \<Longrightarrow> has_session w = has_session w'"
  using data_eqD(2) [of w w'] by (simp add: has_session_def fun_eq_iff)

text \<open>The user and the cookie a message names.\<close>

definition names :: "env \<Rightarrow> bytes \<Rightarrow> string \<Rightarrow> string \<Rightarrow> bool" where
  "names env msg u c \<longleftrightarrow> (\<exists>e. position0 msg = Some e \<and> ev_from_utf8 env (take e msg) = Some u \<and>
    ev_from_utf8 env (take 50 (drop (e + 1) msg)) = Some c)"

lemma slice_SomeD: "slice msg a b = Some x \<Longrightarrow> x = take (b - a) (drop a msg)"
  by (simp add: slice_def split: if_splits)

lemma wp_unwrap_slice:
  assumes "\<And>x. slice msg a b = Some x \<Longrightarrow> Q x s" "E s"
  shows "wp (unwrap_opt (slice msg a b)) Q E s"
  using assms by (auto simp: wp_unwrap_opt split: option.split)

lemma wp_unwrap_some:
  assumes "\<And>v. x = Some v \<Longrightarrow> Q v s" "x = None \<Longrightarrow> E s"
  shows "wp (unwrap_opt x) Q E s"
  using assms by (auto simp: wp_unwrap_opt split: option.split)

lemma wp_session:
  assumes "\<And>fs. Q (has_session (cn_world s) u c) (s\<lparr>cn_world := cn_world s\<lparr>sled_faults := fs\<rparr>\<rparr>)"
    "\<And>fs. E (s\<lparr>cn_world := cn_world s\<lparr>sled_faults := fs\<rparr>\<rparr>)"
  shows "wp (on_server (verify_auth_cookie u c)) Q E s"
proof -
  have "(case cookie_db (cn_world s) u of None \<Rightarrow> False | Some ck \<Rightarrow> ac_cookie ck = c) = has_session (cn_world s) u c"
    by (simp add: has_session_def)
  then show ?thesis using assms by (auto simp: wp_on_server wp_verify_auth_cookie)
qed

lemma wp_get_software:
  assumes "\<And>fs. Q (software_db (cn_world s) i) (s\<lparr>cn_world := cn_world s\<lparr>sled_faults := fs\<rparr>\<rparr>)"
    "\<And>fs. E (s\<lparr>cn_world := cn_world s\<lparr>sled_faults := fs\<rparr>\<rparr>)"
  shows "wp (on_server (unwrapped (db_get SoftwareDB i))) Q E s"
  using assms by (auto simp: auth_defs wp_rules)

lemmas ws_control = wp_and_then wp_ret wp_panic wp_if wp_case_option wp_case_prod wp_let

lemmas download_steps = wp_unwrap_slice wp_unwrap_some wp_session wp_get_software

text \<open>Nothing was sent, and the data is as it was.\<close>

definition untouched :: "connection \<Rightarrow> connection \<Rightarrow> bool" where
  "untouched c c' \<longleftrightarrow> cn_sent c' = cn_sent c \<and> data (cn_world c') = data (cn_world c)"

lemma untouched_simps [simp]: "untouched c c" "untouched c (c\<lparr>cn_world := cn_world c\<lparr>sled_faults := fs\<rparr>\<rparr>)"
  by (simp_all add: untouched_def)

lemma stranger_message:
  assumes "\<forall>u k. names env msg u k \<longrightarrow> \<not> has_session (cn_world c) u k"
  shows "wp (download_message env file_order msg) (\<lambda>_. untouched c) (untouched c) c"
  using assms
  by (auto simp: download_message_def ws_control Let_def names_def dest!: slice_SomeD intro!: download_steps)

lemma strangers_session:
  assumes "\<forall>msg. Inr msg \<in> set ms \<longrightarrow> (\<forall>u k. names env msg u k \<longrightarrow> \<not> has_session (cn_world c) u k)"
  shows "wp (download_software env file_order ms) (\<lambda>_. untouched c) (untouched c) c"
proof -
  have "wp (download_software env file_order ms) (\<lambda>_. untouched c) (untouched c) c'" if "untouched c c'" for c'
    using assms that
  proof (induction env file_order ms arbitrary: c' rule: download_software.induct)
    case (3 env file_order msg rest)
    have sess: "has_session (cn_world c') = has_session (cn_world c)"
      using 3(3) by (intro has_session_data) (simp add: untouched_def)
    have "wp (download_message env file_order msg) (\<lambda>_. untouched c') (untouched c') c'"
      using 3(2) by (intro stranger_message) (auto simp: sess)
    then show ?case using 3
      by (auto simp: wp_and_then wp_ret untouched_def elim!: wp_conseq)
  qed (simp_all add: wp_ret)
  then show ?thesis by simp
qed


text \<open>
  C22: Downloads are for logged-in users only: a websocket session none of whose messages names a user
  together with their current cookie gets no frame at all and changes no data, however it ends.
\<close>

theorem strangers_get_nothing:
  assumes "\<forall>msg. Inr msg \<in> set ms \<longrightarrow> (\<forall>u k. names env msg u k \<longrightarrow> \<not> has_session (cn_world c) u k)"
  shows "cn_sent (snd (download_software env file_order ms c)) = cn_sent c \<and>
    data (cn_world (snd (download_software env file_order ms c))) = data (cn_world c)"
  using wp_final [OF strangers_session [OF assms]] by (simp add: untouched_def)

subsection \<open>What a download sends and counts\<close>

definition file_frames :: "env \<Rightarrow> world \<Rightarrow> bytes \<times> string \<Rightarrow> bytes list" where
  "file_frames env w = (\<lambda>(h, name). case game_files w (ev_hex_encode env h) of None \<Rightarrow> []
     | Some content \<Rightarrow> file_message h name (of_nat (length content)) # ev_reads env FILE_BUFFER_LEN content)"

text \<open>The frames sent are some of the beginning of these.\<close>

definition sent_some :: "connection \<Rightarrow> bytes list \<Rightarrow> connection \<Rightarrow> bool" where
  "sent_some c fs c' \<longleftrightarrow> (\<exists>qs. prefix qs fs \<and> cn_sent c' = cn_sent c @ qs) \<and> data (cn_world c') = data (cn_world c)"

definition sent_all :: "connection \<Rightarrow> bytes list \<Rightarrow> connection \<Rightarrow> bool" where
  "sent_all c fs c' \<longleftrightarrow> cn_sent c' = cn_sent c @ fs \<and> data (cn_world c') = data (cn_world c)"

lemma sent_trans:
  "sent_all c fs c' \<Longrightarrow> sent_all c' gs c'' \<Longrightarrow> sent_all c (fs @ gs) c''"
  "sent_all c fs c' \<Longrightarrow> sent_some c' gs c'' \<Longrightarrow> sent_some c (fs @ gs) c''"
  "sent_some c fs c' \<Longrightarrow> sent_some c (fs @ gs) c'"
  by (auto simp: sent_all_def sent_some_def prefix_def)

lemma sent_step:
  assumes "\<And>c'. sent_all c fs c' \<Longrightarrow> wp n (\<lambda>_. sent_all c' gs) (sent_some c' gs) c'"
    and "wp m (\<lambda>_. sent_all c fs) (sent_some c fs) c"
  shows "wp (and_then m (\<lambda>_. n)) (\<lambda>_. sent_all c (fs @ gs)) (sent_some c (fs @ gs)) c"
  unfolding wp_and_then
proof (rule wp_conseq [OF assms(2)])
  fix c' assume c': "sent_all c fs c'"
  show "wp n (\<lambda>_. sent_all c (fs @ gs)) (sent_some c (fs @ gs)) c'"
    by (rule wp_conseq [OF assms(1) [OF c']]) (use sent_trans c' in blast)+
qed (rule sent_trans)

lemma wp_io_nothing: "wp (on_server (io_call (ret ()))) (\<lambda>_. sent_all c []) (sent_some c []) c"
  by (auto simp: wp_rules sent_all_def sent_some_def)

lemma wp_send_one: "wp (ws_send m) (\<lambda>_. sent_all c [m]) (sent_some c [m]) c"
  by (auto simp: wp_rules sent_all_def sent_some_def)

lemma wp_send_pieces: "wp (send_pieces ps) (\<lambda>_. sent_all c ps) (sent_some c ps) c"
proof (induction ps arbitrary: c)
  case Nil
  then show ?case by (simp add: wp_io_nothing)
next
  case (Cons p ps)
  have "wp (and_then (ws_send p) (\<lambda>_. send_pieces ps)) (\<lambda>_. sent_all c' ([p] @ ps)) (sent_some c' ([p] @ ps)) c'" for c'
    by (rule sent_step [OF Cons.IH wp_send_one])
  then have "wp (send_pieces (p # ps)) (\<lambda>_. sent_all c ([] @ [p] @ ps)) (sent_some c ([] @ [p] @ ps)) c"
    unfolding send_pieces.simps by (rule sent_step [OF _ wp_io_nothing])
  then show ?case by simp
qed

lemma wp_send_file: "wp (send_file env f) (\<lambda>_. sent_all c (file_frames env (cn_world c) f))
    (sent_some c (file_frames env (cn_world c) f)) c"
proof -
  obtain h name where f: "f = (h, name)" by (cases f)
  have go: "wp (and_then (ws_send m) (\<lambda>_. send_pieces ps)) (\<lambda>_. sent_all c (m # ps)) (sent_some c (m # ps))
      (c\<lparr>cn_world := cn_world c\<lparr>io_faults := fs\<rparr>\<rparr>)" for m ps fs
    using sent_step [OF wp_send_pieces wp_send_one, where c = "c\<lparr>cn_world := cn_world c\<lparr>io_faults := fs\<rparr>\<rparr>"]
    by (rule wp_conseq) (auto simp: sent_all_def sent_some_def)
  show ?thesis
    using go by (cases "game_files (cn_world c) (ev_hex_encode env h)")
      (auto simp: f send_file_def file_frames_def Let_def wp_rules sent_some_def)
qed

lemma file_frames_data: "data w = data w' \<Longrightarrow> file_frames env w = file_frames env w'"
  using data_eqD(13) [of w w'] by (simp add: file_frames_def fun_eq_iff)

lemma wp_send_files: "wp (each (send_file env) fs) (\<lambda>_. sent_all c (concat (map (file_frames env (cn_world c)) fs)))
    (sent_some c (concat (map (file_frames env (cn_world c)) fs))) c"
proof (induction fs arbitrary: c)
  case Nil
  then show ?case by (simp add: wp_ret sent_all_def)
next
  case (Cons f fs)
  have "wp (each (send_file env) fs) (\<lambda>_. sent_all c' (concat (map (file_frames env (cn_world c)) fs)))
      (sent_some c' (concat (map (file_frames env (cn_world c)) fs))) c'"
    if "sent_all c (file_frames env (cn_world c) f) c'" for c'
  proof -
    have "file_frames env (cn_world c') = file_frames env (cn_world c)"
      using that by (intro file_frames_data) (simp add: sent_all_def)
    then show ?thesis using Cons.IH [of c'] by simp
  qed
  from sent_step [OF this wp_send_file] show ?case by simp
qed

text \<open>The state after a download by user \<open>u\<close> of item \<open>i\<close>.\<close>

definition owned :: "world \<Rightarrow> string \<Rightarrow> (u64 \<rightharpoonup> bool)" where
  "owned w u = (case software_ownership_db w u of None \<Rightarrow> Map.empty | Some l \<Rightarrow> l)"

definition downloads_on_record :: "world \<Rightarrow> u64 \<Rightarrow> software_downloads" where
  "downloads_on_record w i = (case download_count_db w i of None \<Rightarrow> [] | Some ds \<Rightarrow> ds)"

definition counted :: "string \<Rightarrow> u64 \<Rightarrow> world \<Rightarrow> world" where
  "counted u i w = w\<lparr>
     software_ownership_db := (software_ownership_db w)(u \<mapsto> (owned w u)(i \<mapsto> True)),
     download_count_db := (if owned w u i = Some True then download_count_db w else (download_count_db w)(i \<mapsto>
       btree_insert \<lparr>sd_time = UnixTimeUTC (of_int (clock w)), sd_username = u\<rparr> (downloads_on_record w i)))\<rparr>"

lemma downloads_on_record_simps [simp]:
  "downloads_on_record (w\<lparr>sled_faults := fs\<rparr>) = downloads_on_record w"
  "downloads_on_record (w\<lparr>software_ownership_db := m\<rparr>) = downloads_on_record w"
  by (simp_all add: downloads_on_record_def fun_eq_iff)

lemma wp_add_to_download_count:
  assumes "0 \<le> clock w \<Longrightarrow> (\<And>fs. Q () (w\<lparr>sled_faults := fs, download_count_db := (download_count_db w)(i \<mapsto>
       btree_insert \<lparr>sd_time = UnixTimeUTC (of_int (clock w)), sd_username = u\<rparr> (downloads_on_record w i))\<rparr>))"
    and "\<And>fs. E (w\<lparr>sled_faults := fs\<rparr>)"
  shows "wp (add_to_download_count u i) Q E w"
  using assms
  by (auto simp: add_to_download_count_def now_utc_def downloads_on_record_def auth_defs wp_rules Let_def
    split: option.splits)

lemma wp_owned:
  assumes "\<And>fs m. m = (software_ownership_db w)(u \<mapsto> owned w u) \<Longrightarrow>
      Q (owned w u) (w\<lparr>sled_faults := fs, software_ownership_db := m\<rparr>)"
    and "\<And>fs. E (w\<lparr>sled_faults := fs\<rparr>)"
  shows "wp (unwrapped (db_get_or_insert SoftwareOwnershipDB u Map.empty)) Q E w"
proof (cases "software_ownership_db w u")
  case None
  then show ?thesis using assms
    by (auto simp: db_get_or_insert_def owned_def auth_defs wp_rules)
next
  case (Some l)
  then have "software_ownership_db w = (software_ownership_db w)(u \<mapsto> owned w u)"
    by (auto simp: owned_def)
  from assms(1) [OF this] Some assms(2) show ?thesis
    by (auto simp: db_get_or_insert_def owned_def auth_defs wp_rules)
qed

lemma wp_insert_owned:
  assumes "\<And>r fs. Q r (w\<lparr>sled_faults := fs, software_ownership_db := (software_ownership_db w)(u \<mapsto> l)\<rparr>)"
    and "\<And>fs. E (w\<lparr>sled_faults := fs\<rparr>)"
  shows "wp (unwrapped (db_insert SoftwareOwnershipDB u l)) Q E w"
  using assms by (simp add: auth_defs wp_rules)

lemma count_download_wp: "wp (count_download u i) (\<lambda>_ w'. data w' = data (counted u i w)) (\<lambda>_. True) w"
proof -
  have "owned w u i = Some True \<Longrightarrow> (owned w u)(i \<mapsto> True) = owned w u" by (rule fun_upd_idem)
  then show ?thesis
    by (auto simp: count_download_def ws_control counted_def data_def owned_def [symmetric]
      intro!: wp_owned wp_add_to_download_count wp_insert_owned split: option.splits)
qed

text \<open>What a message asked for, when it is answered: the user, the cookie and the item.\<close>

definition asks :: "env \<Rightarrow> bytes \<Rightarrow> string \<Rightarrow> string \<Rightarrow> u64 \<Rightarrow> bool" where
  "asks env msg u k i \<longleftrightarrow> names env msg u k \<and> (\<exists>e. position0 msg = Some e \<and>
    i = from_le_bytes (take 8 (drop (e + 52) msg)))"

definition item_frames :: "env \<Rightarrow> ((bytes \<rightharpoonup> string) \<Rightarrow> bytes list) \<Rightarrow> world \<Rightarrow> item \<Rightarrow> bytes list" where
  "item_frames env file_order w item =
     concat (map (file_frames env w) (entries (file_order (it_files item)) (it_files item)))"

definition served :: "env \<Rightarrow> ((bytes \<rightharpoonup> string) \<Rightarrow> bytes list) \<Rightarrow> bytes \<Rightarrow> connection \<Rightarrow> connection \<Rightarrow> bool" where
  "served env file_order msg c c' \<longleftrightarrow> (\<exists>u k i item. asks env msg u k i \<and> has_session (cn_world c) u k \<and>
    software_db (cn_world c) i = Some item \<and>
    cn_sent c' = cn_sent c @ item_frames env file_order (cn_world c) item \<and>
    data (cn_world c') = data (counted u i (cn_world c)))"

lemma counted_data: "data w = data w' \<Longrightarrow> data (counted u i w) = data (counted u i w')"
proof -
  assume d: "data w = data w'"
  have "data (counted u i w) = counted u i (data w)" for w
    by (simp add: counted_def data_def owned_def downloads_on_record_def)
  with d show ?thesis by simp
qed

lemma wp_serve:
  assumes "data (cn_world c1) = data (cn_world c)" "cn_sent c1 = cn_sent c"
    and "\<exists>k. has_session (cn_world c) u k \<and> asks env msg u k i" "software_db (cn_world c) i = Some item"
  shows "wp (each (send_file env) (entries (file_order (it_files item)) (it_files item)))
    (\<lambda>_. wp (and_then (on_server (count_download u i)) (\<lambda>_. ret True))
      (\<lambda>go_on c'. (go_on \<longrightarrow> served env file_order msg c c') \<and> (\<not> go_on \<longrightarrow> untouched c c')) (\<lambda>_. True)) (\<lambda>_. True) c1"
proof (rule wp_conseq [OF wp_send_files])
  fix c2 assume c2: "sent_all c1 (concat (map (file_frames env (cn_world c1))
    (entries (file_order (it_files item)) (it_files item)))) c2"
  have "wp (count_download u i) (\<lambda>_ w'. served env file_order msg c (c2\<lparr>cn_world := w'\<rparr>)) (\<lambda>_. True) (cn_world c2)"
  proof (rule wp_conseq [OF count_download_wp])
    fix w' assume "data w' = data (counted u i (cn_world c2))"
    moreover have "data (counted u i (cn_world c2)) = data (counted u i (cn_world c))"
      using c2 assms(1) by (intro counted_data) (simp add: sent_all_def)
    ultimately show "served env file_order msg c (c2\<lparr>cn_world := w'\<rparr>)"
      using c2 assms file_frames_data [OF assms(1)]
      unfolding served_def sent_all_def item_frames_def by fastforce
  qed simp
  then show "wp (and_then (on_server (count_download u i)) (\<lambda>_. ret True))
      (\<lambda>go_on c'. (go_on \<longrightarrow> served env file_order msg c c') \<and> (\<not> go_on \<longrightarrow> untouched c c')) (\<lambda>_. True) c2"
    by (simp add: wp_and_then wp_on_server wp_ret)
qed simp

lemma download_message_wp:
  "wp (download_message env file_order msg) (\<lambda>go_on c'. if go_on then served env file_order msg c c' else untouched c c')
    (\<lambda>_. True) c"
  by (auto simp: download_message_def ws_control Let_def names_def asks_def
    dest!: slice_SomeD intro!: download_steps wp_serve split: option.split)

text \<open>
  C21: A download message that is answered gives the client exactly what they asked for: the message
  named a user with their current cookie and an item on record, the frames of all the item's files
  are sent, and the only change is that the download is counted for this user; a message after which
  the connection is closed has sent and changed nothing. (A message that makes the handler panic is neither: it may have
  sent some of the frames before.)
\<close>

theorem download_serves:
  assumes "download_message env file_order msg c = (Done go_on, c')"
  shows "if go_on then served env file_order msg c c' else untouched c c'"
  using wp_done [OF download_message_wp assms] .

text \<open>
  A download is counted once per user: counting it again, at any later time and after other users'
  downloads of the item, leaves the record of downloads as it is.
\<close>

lemma download_counted_once:
  assumes "owned w u i = Some True"
  shows "wp (count_download u i) (\<lambda>_ w'. data w' = data w) (\<lambda>_. True) w"
proof (rule wp_conseq [OF count_download_wp])
  fix w' assume "data w' = data (counted u i w)"
  moreover from assms have "software_ownership_db w u = Some (owned w u)" "(owned w u)(i \<mapsto> True) = owned w u"
    by (auto simp: owned_def split: option.splits intro: fun_upd_idem)
  ultimately show "data w' = data w" using assms by (simp add: counted_def fun_upd_idem)
qed simp

text \<open>The order of the \<open>BTreeSet\<close>: strictly by time.\<close>

definition btree_ok :: "software_downloads \<Rightarrow> bool" where
  "btree_ok ds \<longleftrightarrow> sorted_wrt (<) (map sd_time ds)"

lemma set_btree_insert: "set (btree_insert d ds) \<subseteq> insert d (set ds)"
  by (induction ds) auto

lemma btree_ok_insert: "btree_ok ds \<Longrightarrow> btree_ok (btree_insert d ds)"
proof (induction ds)
  case (Cons e es)
  then show ?case using set_btree_insert [of d es]
    by (auto simp: btree_ok_def not_less_iff_gr_or_eq dest: less_trans)
qed (simp add: btree_ok_def)

lemma btree_insert_same_time:
  "btree_ok ds \<Longrightarrow> sd_time e \<in> sd_time ` set ds \<Longrightarrow> btree_insert e ds = ds"
  by (induction ds) (fastforce simp: btree_ok_def)+

lemma btree_insert_time: "sd_time d \<in> sd_time ` set (btree_insert d ds)"
  by (induction ds) auto

text \<open>
  Downloads of one item by different users within the same second count as one: after the first
  has been counted, counting the second marks the item as downloaded by the second user, but leaves
  the record of downloads as it is, since the set compares times only.
\<close>

lemma same_second_downloads_lost:
  assumes first: "count_download u i w = (Done (), w1)" and second: "count_download v i w1 = (Done (), w2)"
    and "owned w u i \<noteq> Some True" "btree_ok (downloads_on_record w i)"
  shows "downloads_on_record w2 i = downloads_on_record w1 i \<and> owned w2 v i = Some True"
proof -
  have d1: "data w1 = data (counted u i w)" and d2: "data w2 = data (counted v i w1)"
    using wp_done [OF count_download_wp first] wp_done [OF count_download_wp second] .
  from data_eqD(7,17) [OF d1] assms(3)
  have rec1: "downloads_on_record w1 i = btree_insert \<lparr>sd_time = UnixTimeUTC (of_int (clock w)), sd_username = u\<rparr>
      (downloads_on_record w i)" and "clock w1 = clock w"
    by (simp_all add: downloads_on_record_def counted_def)
  with btree_insert_time [of "\<lparr>sd_time = UnixTimeUTC (of_int (clock w)), sd_username = u\<rparr>" "downloads_on_record w i"]
  have "btree_insert \<lparr>sd_time = UnixTimeUTC (of_int (clock w1)), sd_username = v\<rparr> (downloads_on_record w1 i) =
      downloads_on_record w1 i"
    using assms(4) by (intro btree_insert_same_time) (simp_all add: btree_ok_insert)
  moreover from data_eqD(7,8) [OF d2] have "downloads_on_record w2 i = (if owned w1 v i = Some True
      then downloads_on_record w1 i else btree_insert \<lparr>sd_time = UnixTimeUTC (of_int (clock w1)), sd_username = v\<rparr>
        (downloads_on_record w1 i))" "owned w2 v i = Some True"
    by (simp_all add: downloads_on_record_def counted_def owned_def)
  ultimately show ?thesis by simp
qed

subsection \<open>A client puts the files together again\<close>

text \<open>Frames are collected until they have the announced size.\<close>

fun take_content :: "nat \<Rightarrow> bytes list \<Rightarrow> bytes \<times> bytes list" where
  "take_content n [] = ([], [])"
| "take_content n (f # fs) = (if n = 0 then ([], f # fs)
     else (let (content, rest) = take_content (n - length f) fs in (f @ content, rest)))"

lemma take_content_shorter: "length (snd (take_content n fs)) \<le> length fs"
  by (induction n fs rule: take_content.induct) (auto simp: Let_def split: prod.splits)

function rebuild :: "bytes list \<Rightarrow> (bytes \<times> bytes \<times> bytes) list" where
  "rebuild [] = []"
| "rebuild (h # fs) = (case position0 (drop 32 h) of None \<Rightarrow> []
     | Some e \<Rightarrow> let size = unat (from_le_bytes (take 8 (drop (33 + e) h)) :: u64) in
         (take 32 h, take e (drop 32 h), fst (take_content size fs)) # rebuild (snd (take_content size fs)))"
  by pat_completeness auto
termination
  by (relation "measure length") (auto simp: le_imp_less_Suc take_content_shorter)

lemma take_content_all:
  "\<forall>p \<in> set ps. p \<noteq> [] \<Longrightarrow> take_content (length (concat ps)) (ps @ rest) = (concat ps, rest)"
proof (induction ps)
  case Nil
  then show ?case by (cases rest) auto
qed auto

lemma rebuild_file:
  assumes "length h = 32" "0 \<notin> set (as_bytes name)" "length content < 2 ^ 64" "reads_whole env"
  shows "rebuild (file_message h name (of_nat (length content)) # ev_reads env FILE_BUFFER_LEN content @ rest) =
    (h, as_bytes name, content) # rebuild rest"
proof -
  have pieces: "concat (ev_reads env FILE_BUFFER_LEN content) = content"
    "\<forall>p \<in> set (ev_reads env FILE_BUFFER_LEN content). p \<noteq> []"
    using assms(4) unfolding reads_whole_def FILE_BUFFER_LEN_def by (blast intro: zero_less_numeral)+
  have "take_content (length content) (ev_reads env FILE_BUFFER_LEN content @ rest) = (content, rest)"
    using take_content_all [OF pieces(2)] pieces(1) by simp
  moreover have "unat (of_nat (length content) :: u64) = length content"
    using assms(3) by (simp add: unsigned_of_nat take_bit_nat_eq_self)
  ultimately show ?thesis using assms(1,2) by (simp add: file_message_def)
qed

text \<open>What is needed of the files of an item, all of which publishing establishes but the last.\<close>

definition servable :: "env \<Rightarrow> world \<Rightarrow> bytes \<times> string \<Rightarrow> bool" where
  "servable env w = (\<lambda>(h, name). length h = 32 \<and> 0 \<notin> set (as_bytes name) \<and>
    (case game_files w (ev_hex_encode env h) of None \<Rightarrow> False | Some content \<Rightarrow> length content < 2 ^ 64))"

definition original :: "env \<Rightarrow> world \<Rightarrow> bytes \<times> string \<Rightarrow> bytes \<times> bytes \<times> bytes" where
  "original env w = (\<lambda>(h, name). (h, as_bytes name, the (game_files w (ev_hex_encode env h))))"

lemma rebuild_item:
  assumes "reads_whole env" "\<forall>f \<in> set fs. servable env w f"
  shows "rebuild (concat (map (file_frames env w) fs)) = map (original env w) fs"
  using assms(2)
proof (induction fs)
  case (Cons f fs)
  obtain h name where f: "f = (h, name)" by (cases f)
  with Cons.prems obtain content where c: "game_files w (ev_hex_encode env h) = Some content"
    "length content < 2 ^ 64" "length h = 32" "0 \<notin> set (as_bytes name)"
    by (auto simp: servable_def split: option.splits)
  then show ?case using Cons rebuild_file [OF c(3,4,2) assms(1)]
    by (simp add: f file_frames_def original_def del: rebuild.simps)
qed simp

text \<open>On a faultless connection, nothing panics.\<close>

definition download_request :: "string \<Rightarrow> string \<Rightarrow> u64 \<Rightarrow> bytes" where
  "download_request u k i = as_bytes u @ [0] @ as_bytes k @ [0] @ to_le_bytes 8 i"

lemma each_faultless:
  assumes "\<And>x c. x \<in> set xs \<Longrightarrow> P c \<Longrightarrow> wp (f x) (\<lambda>_. P) (\<lambda>_. False) c" "P c"
  shows "wp (each f xs) (\<lambda>_. P) (\<lambda>_. False) c"
  using assms
proof (induction xs arbitrary: c)
  case (Cons x xs)
  have "wp (f x) (\<lambda>_. P) (\<lambda>_. False) c" using Cons.prems by simp
  then have "wp (f x) (\<lambda>_. wp (each f xs) (\<lambda>_. P) (\<lambda>_. False)) (\<lambda>_. False) c"
    by (rule wp_conseq) (use Cons in auto)
  then show ?case by (simp add: wp_and_then)
qed (simp add: wp_ret)

lemma send_pieces_faultless:
  "faultless c \<and> data (cn_world c) = d \<Longrightarrow>
    wp (send_pieces ps) (\<lambda>_ c. faultless c \<and> data (cn_world c) = d) (\<lambda>_. False) c"
  by (induction ps arbitrary: c) (auto simp: wp_rules faultless_def)

lemma send_file_faultless:
  assumes "faultless c \<and> data (cn_world c) = d" "servable env (cn_world c) f"
  shows "wp (send_file env f) (\<lambda>_ c. faultless c \<and> data (cn_world c) = d) (\<lambda>_. False) c"
proof -
  have go: "wp (send_pieces ps) (\<lambda>_ c. faultless c \<and> data (cn_world c) = d) (\<lambda>_. False)
      (c\<lparr>cn_world := cn_world c\<lparr>io_faults := []\<rparr>, cn_send_faults := [], cn_sent := sent\<rparr>)" for ps sent
    using assms(1) by (intro send_pieces_faultless) (simp add: faultless_def)
  have "io_faults (cn_world c) = []" "cn_send_faults c = []" using assms(1) by (simp_all add: faultless_def)
  with go assms(2) show ?thesis
    by (auto simp: send_file_def Let_def wp_rules servable_def split: option.splits)
qed

lemma servable_data: "data w = data w' \<Longrightarrow> servable env w = servable env w'"
  using data_eqD(13) [of w w'] by (simp add: servable_def fun_eq_iff)

lemma count_download_faultless:
  "sled_faults w = [] \<Longrightarrow> 0 \<le> clock w \<Longrightarrow> wp (count_download u i) (\<lambda>_ w'. sled_faults w' = [] \<and> 0 \<le> clock w') (\<lambda>_. False) w"
  by (auto simp: count_download_def add_to_download_count_def now_utc_def db_get_or_insert_def auth_defs Let_def
      wp_rules split: option.splits)

lemma download_request_parts:
  assumes "0 \<notin> set (as_bytes u)" "length k = 50"
  shows "position0 (download_request u k i) = Some (length u)"
    "slice (download_request u k i) 0 (length u) = Some (as_bytes u)"
    "slice (download_request u k i) (Suc (length u)) (51 + length u) = Some (as_bytes k)"
    "slice (download_request u k i) (length u + 52) (60 + length u) = Some (to_le_bytes 8 i)"
  using assms by (simp_all add: download_request_def slice_def)

lemma download_runs:
  assumes "faultless c" "0 \<notin> set (as_bytes u)" "length k = 50"
    and "ev_from_utf8 env (as_bytes u) = Some u" "ev_from_utf8 env (as_bytes k) = Some k"
    and "has_session (cn_world c) u k" "software_db (cn_world c) i = Some item"
    and "\<forall>f \<in> set (entries (file_order (it_files item)) (it_files item)). servable env (cn_world c) f"
  shows "wp (download_message env file_order (download_request u k i)) (\<lambda>go_on _. go_on) (\<lambda>_. False) c"
proof -
  have files: "wp (each (send_file env) (entries (file_order (it_files item)) (it_files item)))
      (\<lambda>_ c. faultless c \<and> data (cn_world c) = d) (\<lambda>_. False) c" if "d = data (cn_world c)" for d
  proof (rule each_faultless)
    fix f and c' :: connection assume "f \<in> set (entries (file_order (it_files item)) (it_files item))"
      "faultless c' \<and> data (cn_world c') = d"
    then show "wp (send_file env f) (\<lambda>_ c. faultless c \<and> data (cn_world c) = d) (\<lambda>_. False) c'"
      using assms(8) servable_data [of "cn_world c'" "cn_world c" env] that by (intro send_file_faultless) auto
  qed (use assms(1) that in simp)
  have count: "wp (each (send_file env) (entries (file_order (it_files item)) (it_files item)))
      (\<lambda>_. wp (and_then (on_server (count_download u i)) (\<lambda>_. ret True)) (\<lambda>go_on _. go_on) (\<lambda>_. False)) (\<lambda>_. False) c"
    by (rule wp_conseq [OF files [OF refl]])
      (auto simp: wp_and_then wp_on_server wp_ret faultless_def intro: wp_conseq [OF count_download_faultless])
  have "download_request u k i \<noteq> []" by (simp add: download_request_def)
  moreover have "has_session (cn_world c) u k \<longleftrightarrow>
      (case cookie_db (cn_world c) u of Some ck \<Rightarrow> ac_cookie ck = k | None \<Rightarrow> False)"
    by (simp add: has_session_def)
  moreover have "c\<lparr>cn_world := (cn_world c)\<lparr>sled_faults := []\<rparr>\<rparr> = c"
    using assms(1) by (cases c, cases "cn_world c") (simp add: faultless_def)
  then have "wp (each (send_file env) (entries (file_order (it_files item)) (it_files item)))
      (\<lambda>_. wp (and_then (on_server (count_download u i)) (\<lambda>_. ret True)) (\<lambda>go_on _. go_on) (\<lambda>_. False))
      (\<lambda>_. False) (c\<lparr>cn_world := (cn_world c)\<lparr>sled_faults := []\<rparr>\<rparr>)" using count by argo
  moreover have "sled_faults (cn_world c) = []" using assms(1) by (simp add: faultless_def)
  ultimately show ?thesis
    using assms(4-7) download_request_parts [OF assms(2,3), of i]
    by (simp add: download_message_def Let_def wp_and_then wp_ret wp_if wp_case_option wp_on_server
        wp_verify_auth_cookie auth_defs(5-) wp_rules)
qed


lemma download_rebuilds:
  assumes "faultless c" "cn_sent c = []" "reads_whole env"
    and "0 \<notin> set (as_bytes u)" "length k = 50"
    and "ev_from_utf8 env (as_bytes u) = Some u" "ev_from_utf8 env (as_bytes k) = Some k"
    and "has_session (cn_world c) u k" "software_db (cn_world c) i = Some item"
    and "\<forall>f \<in> set (entries (file_order (it_files item)) (it_files item)). servable env (cn_world c) f"
  shows "\<exists>c'. download_message env file_order (download_request u k i) c = (Done True, c') \<and>
    rebuild (cn_sent c') = map (original env (cn_world c)) (entries (file_order (it_files item)) (it_files item))"
proof -
  obtain c' where run: "download_message env file_order (download_request u k i) c = (Done True, c')"
    using download_runs [where env = env and file_order = file_order, OF assms(1,4-10)] by (auto simp: wp_def split: prod.splits outcome.splits)
  from wp_done [OF download_message_wp this] obtain u' k' i' item' where
    "asks env (download_request u k i) u' k' i'" "software_db (cn_world c) i' = Some item'"
    and sent: "cn_sent c' = cn_sent c @ item_frames env file_order (cn_world c) item'"
    by (auto simp: served_def)
  moreover from download_request_parts [OF assms(4,5), of i]
  have "take 8 (drop (length u + 52) (download_request u k i)) = to_le_bytes 8 i"
    by (auto dest!: slice_SomeD)
  ultimately have "item' = item"
    using assms(9) download_request_parts(1) [OF assms(4,5), of i] by (auto simp: asks_def)
  with sent have "cn_sent c' = concat (map (file_frames env (cn_world c)) (entries (file_order (it_files item)) (it_files item)))"
    using assms(2) by (simp add: item_frames_def)
  with rebuild_item [OF assms(3,10)] run show ?thesis by simp
qed

text \<open>
  C16: What a client downloads is what was uploaded: if nothing fails, a logged-in user who asks for an
  item whose files are in place is answered, and collecting the frames as the format says (a header
  with hash, name and little-endian size, then pieces up to that size) gives back every file of the
  item, with its hash, its name and its exact content.
\<close>

theorem download_roundtrip:
  assumes "faultless c" "cn_sent c = []" "reads_whole env"
    and "0 \<notin> set (as_bytes u)" "length k = 50"
    and "ev_from_utf8 env (as_bytes u) = Some u" "ev_from_utf8 env (as_bytes k) = Some k"
    and "has_session (cn_world c) u k" "software_db (cn_world c) i = Some item"
    and "\<forall>f \<in> set (entries (file_order (it_files item)) (it_files item)). servable env (cn_world c) f"
  shows "\<exists>c'. download_message env file_order (download_request u k i) c = (Done True, c') \<and>
    rebuild (cn_sent c') = map (original env (cn_world c)) (entries (file_order (it_files item)) (it_files item))"
  using assms by (rule download_rebuilds)

text \<open>A state with a game, and alice with a cookie of 50 characters.\<close>

definition alice_cookie :: string where
  "alice_cookie = replicate 50 CHR ''c''"

definition game_hash :: bytes where
  "game_hash = replicate 32 1"

definition game_world :: world where
  "game_world = catalogue\<lparr>
    cookie_db := [''alice'' \<mapsto> fresh_cookie ''alice'' alice_cookie 1000],
    software_db := [7 \<mapsto> example_item 7 ''chess''\<lparr>it_files := [game_hash \<mapsto> ''a.zst'']\<rparr>],
    game_files := [ev_hex_encode example_env game_hash \<mapsto> [40, 1, 2]]\<rparr>"

definition connected :: "world \<Rightarrow> connection" where
  "connected w = \<lparr>cn_world = w, cn_sent = [], cn_send_faults = []\<rparr>"

definition one_file :: "(bytes \<rightharpoonup> string) \<Rightarrow> bytes list" where
  "one_file m = (if m game_hash = None then [] else [game_hash])"

lemma utf8_example [simp]: "ev_from_utf8 example_env (as_bytes s) = Some s"
  by (simp add: example_env_def as_bytes_def of_char_u8 o_def)

lemma as_bytes_zero: "0 \<in> set (as_bytes s) \<longleftrightarrow> CHR 0x00 \<in> set s"
proof -
  have zero: "(of_char c :: u8) = 0 \<longleftrightarrow> c = CHR 0x00" for c
    using as_bytes_inject [of "[c]" "[CHR 0x00]"] by (simp add: as_bytes_def)
  have "0 \<in> set (as_bytes s) \<longleftrightarrow> (\<exists>c \<in> set s. (of_char c :: u8) = 0)"
    unfolding as_bytes_def by (auto simp del: of_char_eq_iff intro: sym)
  then show ?thesis unfolding zero by blast
qed

lemma game_world_facts:
  "faultless (connected game_world)" "has_session game_world ''alice'' alice_cookie"
  "software_db game_world 7 = Some (example_item 7 ''chess''\<lparr>it_files := [game_hash \<mapsto> ''a.zst'']\<rparr>)"
  "servable example_env game_world (game_hash, ''a.zst'')"
  "original example_env game_world (game_hash, ''a.zst'') = (game_hash, as_bytes ''a.zst'', [40, 1, 2])"
  by (simp_all add: faultless_def connected_def game_world_def catalogue_def empty_world_def has_session_def
      fresh_cookie_def servable_def original_def game_hash_def as_bytes_zero)

definition game :: item where
  "game = example_item 7 ''chess''\<lparr>it_files := [game_hash \<mapsto> ''a.zst'']\<rparr>"

lemma game_entries: "entries (one_file (it_files game)) (it_files game) = [(game_hash, ''a.zst'')]"
  by (simp add: one_file_def game_def)

theorem download_roundtrip_witness:
  "\<exists>c'. download_message example_env one_file (download_request ''alice'' alice_cookie 7) (connected game_world) =
    (Done True, c') \<and> rebuild (cn_sent c') = [(game_hash, as_bytes ''a.zst'', [40, 1, 2])]"
proof -
  have "\<exists>c'. download_message example_env one_file (download_request ''alice'' alice_cookie 7) (connected game_world) =
      (Done True, c') \<and> rebuild (cn_sent c') =
      map (original example_env (cn_world (connected game_world))) (entries (one_file (it_files game)) (it_files game))"
    by (rule download_roundtrip [OF game_world_facts(1) _ example_reads_whole])
      (use game_world_facts in \<open>simp_all add: connected_def as_bytes_zero alice_cookie_def game_entries flip: game_def\<close>)
  then show ?thesis unfolding game_entries by (simp add: connected_def game_world_facts(5))
qed

text \<open>Somebody asks for the game as alice, but with another cookie.\<close>

definition wrong_request :: bytes where
  "wrong_request = download_request ''alice'' (replicate 50 CHR ''d'') 7"

lemma wrong_request_names:
  assumes "names example_env wrong_request u k"
  shows "\<not> has_session game_world u k"
proof -
  have zero: "0 \<notin> set (as_bytes ''alice'')" by (simp add: as_bytes_zero)
  have "take 5 wrong_request = as_bytes ''alice''" "take 50 (drop 6 wrong_request) = as_bytes (replicate 50 CHR ''d'')"
    by (simp_all add: wrong_request_def download_request_def)
  moreover have "position0 wrong_request = Some 5"
    using download_request_parts(1) [OF zero, of "replicate 50 CHR ''d''" 7] by (simp add: wrong_request_def)
  ultimately have "u = ''alice''" "k = replicate 50 CHR ''d''" using assms by (auto simp: names_def)
  then show ?thesis by (simp add: has_session_def game_world_def fresh_cookie_def alice_cookie_def)
qed

theorem strangers_get_nothing_witness:
  "cn_sent (snd (download_software example_env one_file [Inr wrong_request, Inl ''closed''] (connected game_world))) = []"
  using strangers_get_nothing [of "[Inr wrong_request, Inl ''closed'']" example_env "connected game_world" one_file]
    wrong_request_names
  by (simp add: connected_def)

lemma alice_downloads:
  "\<exists>c'. download_message example_env one_file (download_request ''alice'' alice_cookie 7) (connected game_world) =
    (Done True, c')"
proof -
  have "wp (download_message example_env one_file (download_request ''alice'' alice_cookie 7)) (\<lambda>go_on _. go_on)
      (\<lambda>_. False) (connected game_world)"
    by (rule download_runs [where item = game, OF game_world_facts(1)])
      (use game_world_facts in \<open>simp_all add: connected_def as_bytes_zero alice_cookie_def game_entries flip: game_def\<close>)
  then show ?thesis by (auto simp: wp_def split: prod.splits outcome.splits)
qed

theorem download_serves_witness:
  "\<exists>c'. served example_env one_file (download_request ''alice'' alice_cookie 7) (connected game_world) c'"
proof -
  obtain c' where "download_message example_env one_file (download_request ''alice'' alice_cookie 7)
      (connected game_world) = (Done True, c')" using alice_downloads by blast
  from download_serves [OF this] show ?thesis by auto
qed

text \<open>One download, then another one in the same second.\<close>

lemma counting_runs:
  "sled_faults w = [] \<Longrightarrow> 0 \<le> clock w \<Longrightarrow> \<exists>w'. count_download u i w = (Done (), w') \<and> sled_faults w' = [] \<and> 0 \<le> clock w'"
  using count_download_faultless [of w u i] by (auto simp: wp_def split: prod.splits outcome.splits)

lemma two_count:
  obtains w1 w2 where "count_download ''alice'' 7 game_world = (Done (), w1)" "count_download ''bob'' 7 w1 = (Done (), w2)"
proof -
  have "sled_faults game_world = []" "0 \<le> clock game_world"
    by (simp_all add: game_world_def catalogue_def empty_world_def)
  from counting_runs [OF this] obtain w1 where
    w1: "count_download ''alice'' 7 game_world = (Done (), w1)" "sled_faults w1 = []" "0 \<le> clock w1" by blast
  from counting_runs [OF this(2,3)] that [OF w1(1)] show ?thesis by blast
qed

lemma same_second_downloads_lost_example:
  "\<exists>w1 w2. count_download ''alice'' 7 game_world = (Done (), w1) \<and> count_download ''bob'' 7 w1 = (Done (), w2) \<and>
    downloads_on_record w2 7 = downloads_on_record w1 7"
proof -
  obtain w1 w2 where runs: "count_download ''alice'' 7 game_world = (Done (), w1)"
    "count_download ''bob'' 7 w1 = (Done (), w2)" by (rule two_count)
  have "owned game_world ''alice'' 7 \<noteq> Some True" "btree_ok (downloads_on_record game_world 7)"
    by (simp_all add: owned_def game_world_def catalogue_def empty_world_def downloads_on_record_def btree_ok_def)
  from same_second_downloads_lost [OF runs this] runs show ?thesis by blast
qed

lemma download_counted_once_example:
  "wp (count_download ''alice'' 7) (\<lambda>_ w'. data w' = data (counted ''alice'' 7 game_world)) (\<lambda>_. True)
    (counted ''alice'' 7 game_world)"
  by (rule download_counted_once) (simp add: counted_def owned_def)

end
