(* ===== verification/Upload.thy ===== *)
theory Upload
  imports Download Software "HOL-Library.List_Lexorder"
begin

section \<open>Uploading software: \<open>upload_software\<close> of src/software.rs\<close>

text \<open>
  One websocket session as a state machine: the first message names the user, the upload id and the
  files; then come chunks, each announced by a message with its length and file hash; then the hash of
  the title image and the image; any further message makes the server check the files and publish the
  item. The local variables of the session are the fields of \<open>uploading\<close>. A step may also never
  return, which is \<open>None\<close>.
\<close>

subsection \<open>The state of a session\<close>

record software_info =
  si_username :: string
  si_auth_cookie :: string
  si_upload_id :: bytes
  si_num_chunks :: u64
  si_compressed_image_len :: u32
  si_files :: "bytes \<rightharpoonup> string"

record chunk_info =
  ci_len :: u64
  ci_file :: bytes

text \<open>
  An open image file is its name and the position of the next write; \<open>up_image_hasher\<close> is the data given
  to the hasher so far.
\<close>

record uploading = connection +
  up_software_info :: "(software_info \<times> item) option"
  up_total_size :: u64
  up_num_chunks :: u64
  up_amt_written_to_buffer :: nat
  up_chunk_info :: "chunk_info option"
  up_uploaded_image :: bool
  up_image_hash_info :: "(bytes \<times> (string \<times> nat) option) option"
  up_image_hasher :: bytes
  up_total_image_size :: u32
  up_chunk_buffer :: bytes
  up_file_hashes_seen :: "bytes set"

definition CHUNK_BUFFER_LEN :: nat where
  "CHUNK_BUFFER_LEN = 65535"

definition MAX_NUM_CHUNKS :: u64 where
  "MAX_NUM_CHUNKS = 10485760 div 8192"

definition MAX_IMAGE_LEN :: u32 where
  "MAX_IMAGE_LEN = 1048576"

definition fresh_upload :: "world \<Rightarrow> uploading" where
  "fresh_upload w = \<lparr>cn_world = w, cn_sent = [], cn_send_faults = [], up_software_info = None, up_total_size = 0,
    up_num_chunks = 0, up_amt_written_to_buffer = 0, up_chunk_info = None, up_uploaded_image = False,
    up_image_hash_info = None, up_image_hasher = [], up_total_image_size = 0,
    up_chunk_buffer = replicate CHUNK_BUFFER_LEN 0, up_file_hashes_seen = {}\<rparr>"

subsection \<open>The first message\<close>

text \<open>
  The list of files: 32 bytes of hash (the rest zeros if there are fewer), then the name up to a zero byte.
  Later entries replace earlier ones of the same hash.
\<close>

function parse_files :: "env \<Rightarrow> bytes \<Rightarrow> (bytes \<rightharpoonup> string) \<Rightarrow> (bytes \<rightharpoonup> string)" where
  "parse_files env [] files = files"
| "parse_files env (b # bs) files =
     (let checksum = take 32 (b # bs) @ replicate (32 - length (b # bs)) 0;
          filename_vec = takeWhile (\<lambda>b. b \<noteq> 0) (drop 32 (b # bs));
          rest = drop (Suc (length filename_vec)) (drop 32 (b # bs)) in
      parse_files env rest (files(checksum \<mapsto> ev_from_utf8_lossy env filename_vec)))"
  by pat_completeness auto
termination
  by (relation "measure (\<lambda>(_, bs, _). length bs)") auto

definition start_upload :: "env \<Rightarrow> bytes \<Rightarrow> (uploading, bool) eff" where
  "start_upload env msg =
     and_then (unwrap_opt (slice msg 0 8)) (\<lambda>num_chunks_bytes.
     let num_chunks = from_le_bytes num_chunks_bytes in
     and_then (unwrap_opt (position0 (drop 8 msg))) (\<lambda>username_len.
     let username_end_index = username_len + 8 in
     case ev_from_utf8 env (take username_len (drop 8 msg)) of None \<Rightarrow> ret False
     | Some username \<Rightarrow>
     and_then (unwrap_opt (position0 (drop (username_end_index + 1) msg))) (\<lambda>cookie_len.
     let cookie_end_index = cookie_len + username_end_index + 1 in
     case ev_from_utf8 env (take cookie_len (drop (username_end_index + 1) msg)) of None \<Rightarrow> ret False
     | Some cookie \<Rightarrow>
     and_then (on_server (verify_auth_cookie username cookie)) (\<lambda>valid.
     if \<not> valid then ret False
     else and_then (unwrap_opt (slice msg (cookie_end_index + 1) (cookie_end_index + 33))) (\<lambda>upload_id.
     and_then (on_server (unwrapped (db_contains_key UploadIdDB upload_id))) (\<lambda>known.
     if \<not> known then ret False
     else and_then (unwrap_opt (slice msg (cookie_end_index + 33) (cookie_end_index + 37))) (\<lambda>image_len_bytes.
     let compressed_image_len = from_le_bytes image_len_bytes in
     if compressed_image_len > MAX_IMAGE_LEN then ret False
     else if compressed_image_len < 4 then ret False
     else let files = parse_files env (drop (cookie_end_index + 37) msg) Map.empty in
     if num_chunks \<le> MAX_NUM_CHUNKS then
       and_then (on_server (unwrapped (db_get UploadIdDB upload_id))) (\<lambda>id.
       and_then (unwrap_opt id) (\<lambda>software_id.
       and_then (on_server (unwrapped (db_get SoftwareDB software_id))) (\<lambda>item.
       and_then (unwrap_opt item) (\<lambda>software_item.
       and_then (modify (\<lambda>u. u\<lparr>up_software_info := Some (\<lparr>si_username = username, si_auth_cookie = cookie,
         si_upload_id = upload_id, si_num_chunks = num_chunks, si_compressed_image_len = compressed_image_len,
         si_files = files\<rparr>, software_item)\<rparr>)) (\<lambda>_. ret True)))))
     else panic)))))))"

subsection \<open>Chunks\<close>

definition announce_chunk :: "bytes \<Rightarrow> (uploading, bool) eff" where
  "announce_chunk msg =
     and_then (unwrap_opt (slice msg 0 8)) (\<lambda>len_bytes.
     and_then (unwrap_opt (slice msg 8 40)) (\<lambda>checksum_array.
     and_then (modify (\<lambda>u. u\<lparr>up_chunk_info := Some \<lparr>ci_len = from_le_bytes len_bytes, ci_file = checksum_array\<rparr>\<rparr>)) (\<lambda>_.
     ret True)))"

text \<open>Appending to a file of \<open>.cached_files\<close>, which is created if missing, and removing one.\<close>

definition append_cached :: "string \<Rightarrow> bytes \<Rightarrow> (world, unit) eff" where
  "append_cached path chunk =
     and_then (io_call (modify (\<lambda>w. w\<lparr>cached_files := (cached_files w)(path \<mapsto>
       (case cached_files w path of None \<Rightarrow> [] | Some old \<Rightarrow> old))\<rparr>))) (\<lambda>_.
     and_then (io_call (modify (\<lambda>w. w\<lparr>cached_files := (cached_files w)(path \<mapsto>
       (case cached_files w path of None \<Rightarrow> [] | Some old \<Rightarrow> old) @ chunk)\<rparr>))) (\<lambda>_.
     and_then (io_call (ret ())) (\<lambda>_. io_call (ret ()))))"

definition remove_cached :: "string \<Rightarrow> (world, unit) eff" where
  "remove_cached path = io_call (and_then (gets cached_files) (\<lambda>files. and_then (unwrap_opt (files path)) (\<lambda>_.
     modify (\<lambda>w. w\<lparr>cached_files := (cached_files w)(path := None)\<rparr>))))"

text \<open>
  \<open>chunk_buffer[..(amt + msg.len())].as_mut().copy_from_slice(msg)\<close> panics when the slice is out of range
  and when its length is not that of the message.
\<close>

definition copy_to_buffer :: "bytes \<Rightarrow> (uploading, unit) eff" where
  "copy_to_buffer msg =
     and_then (gets up_amt_written_to_buffer) (\<lambda>amt.
     if amt + length msg > CHUNK_BUFFER_LEN \<or> amt + length msg \<noteq> length msg then panic
     else modify (\<lambda>u. u\<lparr>up_chunk_buffer := msg @ drop (length msg) (up_chunk_buffer u),
       up_amt_written_to_buffer := amt + length msg\<rparr>))"

definition store_chunk :: "env \<Rightarrow> bytes \<Rightarrow> (uploading, unit) eff" where
  "store_chunk env file_hash =
     and_then (gets (\<lambda>u. take (up_amt_written_to_buffer u) (up_chunk_buffer u))) (\<lambda>chunk.
     let path = ev_hex_encode env file_hash in
     and_then (on_server (io_call (ret ()))) (\<lambda>_.
     and_then (on_server (append_cached path chunk)) (\<lambda>_.
     and_then (gets (\<lambda>u. file_hash \<notin> up_file_hashes_seen u)) (\<lambda>is_first_chunk.
     and_then (modify (\<lambda>u. u\<lparr>up_file_hashes_seen := insert file_hash (up_file_hashes_seen u)\<rparr>)) (\<lambda>_.
     if is_first_chunk \<and> \<not> ev_is_zst env chunk
     then and_then (on_server (remove_cached path)) (\<lambda>_. panic)
     else modify (\<lambda>u. u\<lparr>up_amt_written_to_buffer := 0, up_chunk_info := None, up_num_chunks := up_num_chunks u + 1\<rparr>))))))"

definition receive_chunk :: "env \<Rightarrow> item \<Rightarrow> chunk_info \<Rightarrow> bytes \<Rightarrow> (uploading, bool) eff" where
  "receive_chunk env software_item chunk_info msg =
     and_then (copy_to_buffer msg) (\<lambda>_.
     and_then (modify (\<lambda>u. u\<lparr>up_total_size := up_total_size u + of_nat (up_amt_written_to_buffer u)\<rparr>)) (\<lambda>_.
     and_then (gets up_total_size) (\<lambda>total_size.
     if total_size > it_compressed_size software_item then ret False
     else and_then (gets up_amt_written_to_buffer) (\<lambda>amt.
     if of_nat amt = ci_len chunk_info then and_then (store_chunk env (ci_file chunk_info)) (\<lambda>_. ret True)
     else ret True))))"

subsection \<open>The title image\<close>

text \<open>The image file is opened for writing unless it can be opened for reading.\<close>

definition open_image :: "env \<Rightarrow> bytes \<Rightarrow> (uploading, bool) eff" where
  "open_image env msg =
     and_then (unwrap_opt (slice msg 0 32)) (\<lambda>image_hash_bytes.
     let path = ev_hex_encode env image_hash_bytes in
     and_then (on_server (\<lambda>w. (Done (\<not> io_fails w \<and> game_images w path \<noteq> None), io_next w))) (\<lambda>file_exists.
     if \<not> file_exists then
       and_then (on_server (io_call (modify (\<lambda>w. w\<lparr>game_images := (game_images w)(path \<mapsto>
         (case game_images w path of None \<Rightarrow> [] | Some old \<Rightarrow> old))\<rparr>)))) (\<lambda>_.
       and_then (modify (\<lambda>u. u\<lparr>up_image_hash_info := Some (image_hash_bytes, Some (path, 0))\<rparr>)) (\<lambda>_. ret True))
     else and_then (modify (\<lambda>u. u\<lparr>up_image_hash_info := Some (image_hash_bytes, None)\<rparr>)) (\<lambda>_. ret True)))"

text \<open>Writing at a position of a file.\<close>

definition write_at :: "nat \<Rightarrow> bytes \<Rightarrow> bytes \<Rightarrow> bytes" where
  "write_at pos new old = take pos old @ replicate (pos - length old) 0 @ new @ drop (pos + length new) old"

text \<open>One round of the loop over an image message, which always handles the same message.\<close>

definition image_round :: "bytes \<Rightarrow> (uploading, unit) eff" where
  "image_round msg =
     and_then (gets up_image_hash_info) (\<lambda>image_hash_info.
     and_then (case image_hash_info of
         Some (h, Some (path, pos)) \<Rightarrow>
           and_then (on_server (io_call (modify (\<lambda>w. w\<lparr>game_images := (game_images w)(path \<mapsto>
             write_at pos msg (case game_images w path of None \<Rightarrow> [] | Some old \<Rightarrow> old))\<rparr>)))) (\<lambda>_.
           modify (\<lambda>u. u\<lparr>up_image_hash_info := Some (h, Some (path, pos + length msg)),
             up_image_hasher := up_image_hasher u @ msg\<rparr>))
       | _ \<Rightarrow> ret ()) (\<lambda>_.
     if length msg < 2 ^ 32
     then modify (\<lambda>u. u\<lparr>up_total_image_size := up_total_image_size u + of_nat (length msg)\<rparr>)
     else panic))"

partial_function (option) image_loop ::
    "bytes \<Rightarrow> u32 \<Rightarrow> uploading \<Rightarrow> (unit outcome \<times> uploading) option" where
  "image_loop msg compressed_image_len u =
     (if up_total_image_size u < compressed_image_len then
        (case image_round msg u of
           (Done _, u') \<Rightarrow> image_loop msg compressed_image_len u'
         | (Panic, u') \<Rightarrow> Some (Panic, u'))
      else Some (Done (), u))"

definition check_image :: "env \<Rightarrow> bytes \<Rightarrow> (uploading, bool) eff" where
  "check_image env image_hash_bytes =
     and_then (gets (\<lambda>u. ev_blake3 env (up_image_hasher u))) (\<lambda>calced_image_hash.
     and_then (gets up_image_hash_info) (\<lambda>image_hash_info.
     if (case image_hash_info of Some (_, Some _) \<Rightarrow> True | _ \<Rightarrow> False) \<and> calced_image_hash \<noteq> image_hash_bytes
     then ret False
     else and_then (modify (\<lambda>u. u\<lparr>up_uploaded_image := True\<rparr>)) (\<lambda>_. ret True)))"

subsection \<open>Publishing\<close>

text \<open>Reading a file in pieces, each of which goes to the hasher.\<close>

fun read_pieces :: "bytes list \<Rightarrow> (world, bytes) eff" where
  "read_pieces [] = io_call (ret [])"
| "read_pieces (p # ps) = and_then (io_call (ret p)) (\<lambda>b. and_then (read_pieces ps) (\<lambda>bs. ret (b @ bs)))"

definition publish_file :: "env \<Rightarrow> bytes \<times> string \<Rightarrow> (world, unit) eff" where
  "publish_file env = (\<lambda>(hash, file_name).
     let src_path = ev_hex_encode env hash; dst_path = ev_hex_encode env hash in
     and_then (io_call (and_then (gets cached_files) (\<lambda>files. unwrap_opt (files src_path)))) (\<lambda>source.
     and_then (io_call (ret ())) (\<lambda>_.
     and_then (read_pieces (ev_reads env CHUNK_BUFFER_LEN source)) (\<lambda>hashed.
     if hash = ev_blake3 env hashed then
       and_then (io_call (and_then (gets cached_files) (\<lambda>files. and_then (unwrap_opt (files src_path)) (\<lambda>content.
         modify (\<lambda>w. w\<lparr>game_files := (game_files w)(dst_path \<mapsto> content)\<rparr>))))) (\<lambda>_.
       remove_cached src_path)
     else and_then (remove_cached src_path) (\<lambda>_. panic)))))"

definition publish :: "env \<Rightarrow> ((bytes \<rightharpoonup> string) \<Rightarrow> bytes list) \<Rightarrow> software_info \<Rightarrow> item \<Rightarrow> (world, bool) eff" where
  "publish env file_order software_info software_item =
     and_then (each (publish_file env) (entries (file_order (si_files software_info)) (si_files software_info))) (\<lambda>_.
     and_then now_u64 (\<lambda>creation_time.
     let software_item = software_item\<lparr>it_files := si_files software_info, it_creation_time := Some creation_time\<rparr> in
     and_then (unwrapped (db_insert SoftwareDB (it_id software_item) software_item)) (\<lambda>_.
     ret False)))"

subsection \<open>The session\<close>

definition upload_message ::
    "env \<Rightarrow> ((bytes \<rightharpoonup> string) \<Rightarrow> bytes list) \<Rightarrow> bytes \<Rightarrow> uploading \<Rightarrow> (bool outcome \<times> uploading) option" where
  "upload_message env file_order msg u =
     (case up_software_info u of
        Some (software_info, software_item) \<Rightarrow>
          if up_num_chunks u = si_num_chunks software_info then
            if up_uploaded_image u then Some (on_server (publish env file_order software_info software_item) u)
            else (case up_image_hash_info u of
                Some (image_hash_bytes, _) \<Rightarrow>
                  (case image_loop msg (si_compressed_image_len software_info) u of
                     None \<Rightarrow> None
                   | Some (Panic, u') \<Rightarrow> Some (Panic, u')
                   | Some (Done _, u') \<Rightarrow> Some (check_image env image_hash_bytes u'))
              | None \<Rightarrow> Some (open_image env msg u))
          else (case up_chunk_info u of
              Some chunk_info \<Rightarrow> Some (receive_chunk env software_item chunk_info msg u)
            | None \<Rightarrow> Some (announce_chunk msg u))
      | None \<Rightarrow> Some (start_upload env msg u))"

fun upload_software ::
    "env \<Rightarrow> ((bytes \<rightharpoonup> string) \<Rightarrow> bytes list) \<Rightarrow> ws_item list \<Rightarrow> uploading \<Rightarrow> (unit outcome \<times> uploading) option" where
  "upload_software env file_order [] u = Some (Done (), u)"
| "upload_software env file_order (Inl err # rest) u = Some (Done (), u)"
| "upload_software env file_order (Inr msg # rest) u =
     (case upload_message env file_order msg u of
        None \<Rightarrow> None
      | Some (Panic, u') \<Rightarrow> Some (Panic, u')
      | Some (Done go_on, u') \<Rightarrow>
          if go_on then upload_software env file_order rest u' else Some (Done (), u'))"

subsection \<open>What a session may change\<close>

text \<open>
  Until it publishes, a session only writes to \<open>.cached_files\<close> and \<open>.game_images\<close>, and keeps what it
  learnt from the first message.
\<close>

definition settled :: "world \<Rightarrow> world" where
  "settled w = w\<lparr>sled_faults := [], io_faults := [], cached_files := Map.empty, game_images := Map.empty\<rparr>"

definition quiet :: "world \<Rightarrow> world \<Rightarrow> bool" where
  "quiet w w' \<longleftrightarrow> settled w' = settled w"

definition calm :: "uploading \<Rightarrow> uploading \<Rightarrow> bool" where
  "calm u u' \<longleftrightarrow> quiet (cn_world u) (cn_world u') \<and> up_software_info u' = up_software_info u"

lemma settled_upd [simp]:
  "settled (w\<lparr>sled_faults := fs\<rparr>) = settled w" "settled (w\<lparr>io_faults := io\<rparr>) = settled w"
  "settled (w\<lparr>cached_files := c\<rparr>) = settled w" "settled (w\<lparr>game_images := g\<rparr>) = settled w"
  "settled (w\<lparr>game_files := f\<rparr>) = (settled w)\<lparr>game_files := f\<rparr>"
  by (simp_all add: settled_def)

lemma settled_sel:
  "software_db (settled w) = software_db w" "upload_id_db (settled w) = upload_id_db w"
  "current_software_id (settled w) = current_software_id w" "game_files (settled w) = game_files w"
  "auth_db (settled w) = auth_db w" "cookie_db (settled w) = cookie_db w" "money_db (settled w) = money_db w"
  "download_count_db (settled w) = download_count_db w" "clock (settled w) = clock w"
  by (simp_all add: settled_def)

lemma quiet_simps [simp]:
  "quiet w w" "quiet w (w'\<lparr>sled_faults := fs\<rparr>) = quiet w w'" "quiet w (w'\<lparr>io_faults := io\<rparr>) = quiet w w'"
  "quiet w (w'\<lparr>cached_files := c\<rparr>) = quiet w w'" "quiet w (w'\<lparr>game_images := g\<rparr>) = quiet w w'"
  by (simp_all add: quiet_def)

lemma quiet_trans: "quiet w w' \<Longrightarrow> quiet w' w'' \<Longrightarrow> quiet w w''"
  by (simp add: quiet_def)

lemma quiet_keeps:
  assumes "quiet w w'"
  shows "software_db w' = software_db w" "upload_id_db w' = upload_id_db w" "auth_db w' = auth_db w"
    "current_software_id w' = current_software_id w" "game_files w' = game_files w" "cookie_db w' = cookie_db w"
    "money_db w' = money_db w" "download_count_db w' = download_count_db w" "clock w' = clock w"
  using assms by (metis quiet_def settled_sel)+

lemma calm_refl [simp]: "calm u u"
  by (simp add: calm_def)

lemma calm_trans: "calm u u' \<Longrightarrow> calm u' u'' \<Longrightarrow> calm u u''"
  by (auto simp: calm_def intro: quiet_trans)

lemma announce_calm: "wp (announce_chunk msg) (\<lambda>_. calm u) (calm u) u"
  by (auto simp: announce_chunk_def wp_rules calm_def split: option.splits)

lemma receive_calm: "wp (receive_chunk env item ci msg) (\<lambda>_. calm u) (calm u) u"
  by (auto simp: receive_chunk_def copy_to_buffer_def store_chunk_def append_cached_def remove_cached_def
      Let_def wp_rules calm_def)

lemma wp_io_state [wp_rules]: "wp (\<lambda>w. (Done (f w), g w)) Q E w = Q (f w) (g w)"
  by (simp add: wp_def)

lemma open_image_calm: "wp (open_image env msg) (\<lambda>_. calm u) (calm u) u"
  by (auto simp: open_image_def Let_def wp_rules calm_def split: option.splits)

lemma check_image_calm: "wp (check_image env h) (\<lambda>_. calm u) (calm u) u"
  by (auto simp: check_image_def Let_def wp_rules calm_def)

lemma image_round_calm: "wp (image_round msg) (\<lambda>_. calm u) (calm u) u"
  by (auto simp: image_round_def wp_rules calm_def split: option.splits)

lemma image_loop_calm:
  assumes "image_loop msg limit u = Some (r, u')"
  shows "calm u u'"
proof -
  have "\<forall>r u'. x = (r, u') \<longrightarrow> calm u u'" if ret: "image_loop msg limit u = Some x" for x
  proof (rule image_loop.raw_induct [where P = "\<lambda>msg limit u x. \<forall>r u'. x = (r, u') \<longrightarrow> calm u u'", OF _ ret])
    fix f :: "bytes \<Rightarrow> u32 \<Rightarrow> uploading \<Rightarrow> (unit outcome \<times> uploading) option" and msg limit u x
    assume IH: "\<And>msg limit u x. f msg limit u = Some x \<Longrightarrow> \<forall>r u'. x = (r, u') \<longrightarrow> calm u u'"
      and eq: "(if up_total_image_size u < limit then
          (case image_round msg u of (Done _, u') \<Rightarrow> f msg limit u' | (Panic, u') \<Rightarrow> Some (Panic, u'))
        else Some (Done (), u)) = Some x"
    show "\<forall>r u'. x = (r, u') \<longrightarrow> calm u u'"
      using eq image_round_calm [of msg u]
      by (auto simp: wp_def split: if_splits prod.splits outcome.splits dest!: IH intro: calm_trans)
  qed
  with assms show ?thesis by blast
qed

text \<open>The first message: a valid session, a known upload id, an image of 4 bytes to 1 MiB, at most 1280
  chunks; nothing is changed by it.\<close>

definition started :: "world \<Rightarrow> software_info \<times> item \<Rightarrow> bool" where
  "started w = (\<lambda>(si, item). has_session w (si_username si) (si_auth_cookie si) \<and>
    (\<exists>i. upload_id_db w (si_upload_id si) = Some i \<and> software_db w i = Some item) \<and>
    4 \<le> si_compressed_image_len si \<and> si_compressed_image_len si \<le> MAX_IMAGE_LEN \<and> si_num_chunks si \<le> MAX_NUM_CHUNKS)"

lemma wp_upload_session:
  assumes "\<And>fs. Q (has_session (cn_world s) u c) (s\<lparr>cn_world := cn_world s\<lparr>sled_faults := fs\<rparr>\<rparr>)"
    "\<And>fs. E (s\<lparr>cn_world := cn_world s\<lparr>sled_faults := fs\<rparr>\<rparr>)"
  shows "wp (on_server (verify_auth_cookie u c)) Q E s"
proof -
  have "(case cookie_db (cn_world s) u of None \<Rightarrow> False | Some ck \<Rightarrow> ac_cookie ck = c) = has_session (cn_world s) u c"
    by (simp add: has_session_def)
  then show ?thesis using assms by (auto simp: wp_on_server wp_verify_auth_cookie)
qed

lemma wp_lookups:
  assumes "\<And>fs. E (s\<lparr>cn_world := cn_world s\<lparr>sled_faults := fs\<rparr>\<rparr>)"
  shows "(\<And>fs. Q (upload_id_db (cn_world s) k \<noteq> None) (s\<lparr>cn_world := cn_world s\<lparr>sled_faults := fs\<rparr>\<rparr>)) \<Longrightarrow>
      wp (on_server (unwrapped (db_contains_key UploadIdDB k))) Q E s"
    and "(\<And>fs. Q' (upload_id_db (cn_world s) k) (s\<lparr>cn_world := cn_world s\<lparr>sled_faults := fs\<rparr>\<rparr>)) \<Longrightarrow>
      wp (on_server (unwrapped (db_get UploadIdDB k))) Q' E s"
    and "(\<And>fs. Q'' (software_db (cn_world s) i) (s\<lparr>cn_world := cn_world s\<lparr>sled_faults := fs\<rparr>\<rparr>)) \<Longrightarrow>
      wp (on_server (unwrapped (db_get SoftwareDB i))) Q'' E s"
  using assms by (auto simp: auth_defs wp_rules)

lemma start_upload_wp:
  "wp (start_upload env msg)
    (\<lambda>go_on u'. quiet (cn_world u) (cn_world u') \<and> (if go_on
       then \<exists>si item. up_software_info u' = Some (si, item) \<and> started (cn_world u) (si, item) \<and>
         si_files si \<in> range (\<lambda>bs. parse_files env bs Map.empty)
       else calm u u'))
    (calm u) u"
  by (auto simp: start_upload_def ws_control wp_modify Let_def started_def calm_def not_less
      intro!: wp_unwrap_slice wp_unwrap_some wp_upload_session wp_lookups split: option.split)

subsection \<open>Published games\<close>

text \<open>\<open>.game_files\<close> is content-addressed: every file in it is named by the hash of its content.\<close>

definition content_addressed :: "env \<Rightarrow> (string \<rightharpoonup> bytes) \<Rightarrow> bool" where
  "content_addressed env files \<longleftrightarrow> (\<forall>name content. files name = Some content \<longrightarrow>
    name = ev_hex_encode env (ev_blake3 env content))"

text \<open>The file list of an item: finite, hashes of 32 bytes, names without zero bytes.\<close>

definition files_ok :: "(bytes \<rightharpoonup> string) \<Rightarrow> bool" where
  "files_ok files \<longleftrightarrow> finite (dom files) \<and> (\<forall>h name. files h = Some name \<longrightarrow> length h = 32 \<and> 0 \<notin> set (as_bytes name))"

text \<open>Every published item has a proper file list, and all its files are there.\<close>

definition published_ok :: "env \<Rightarrow> (u64 \<rightharpoonup> item) \<Rightarrow> (string \<rightharpoonup> bytes) \<Rightarrow> bool" where
  "published_ok env items files \<longleftrightarrow> (\<forall>i item. items i = Some item \<longrightarrow> it_creation_time item \<noteq> None \<longrightarrow>
    files_ok (it_files item) \<and> (\<forall>h \<in> dom (it_files item). files (ev_hex_encode env h) \<noteq> None))"

text \<open>What is assumed of the outside: the lossy decoder invents no zero characters, and iterating over a
  finite \<open>HashMap\<close> visits every key.\<close>

definition lossy_ok :: "env \<Rightarrow> bool" where
  "lossy_ok env \<longleftrightarrow> (\<forall>b. 0 \<notin> set b \<longrightarrow> 0 \<notin> set (as_bytes (ev_from_utf8_lossy env b)))"

definition iterates_all :: "((bytes \<rightharpoonup> string) \<Rightarrow> bytes list) \<Rightarrow> bool" where
  "iterates_all file_order \<longleftrightarrow> (\<forall>m. finite (dom m) \<longrightarrow> dom m \<subseteq> set (file_order m))"

lemma parse_files_ok:
  assumes "lossy_ok env" "files_ok files"
  shows "files_ok (parse_files env bs files)"
  using assms
proof (induction env bs files rule: parse_files.induct)
  case (2 env b bs files)
  let ?name = "takeWhile (\<lambda>b. b \<noteq> 0) (drop 32 (b # bs))"
  have "0 \<notin> set ?name" using set_takeWhileD by fastforce
  then have "0 \<notin> set (as_bytes (ev_from_utf8_lossy env ?name))" using 2(2) unfolding lossy_ok_def by blast
  moreover have "length (take 32 (b # bs) @ replicate (32 - length (b # bs)) 0) = 32" by simp
  ultimately have "files_ok (files(take 32 (b # bs) @ replicate (32 - length (b # bs)) 0 \<mapsto> ev_from_utf8_lossy env ?name))"
    using 2(3) by (auto simp: files_ok_def)
  with 2(1) [OF refl refl refl 2(2)] show ?case by (simp add: Let_def fun_upd_def)
qed simp

text \<open>Publishing only adds content-addressed files.\<close>

definition files_grow :: "env \<Rightarrow> world \<Rightarrow> world \<Rightarrow> bool" where
  "files_grow env w w' \<longleftrightarrow> (settled w')\<lparr>game_files := Map.empty\<rparr> = (settled w)\<lparr>game_files := Map.empty\<rparr> \<and>
    dom (game_files w) \<subseteq> dom (game_files w') \<and>
    (content_addressed env (game_files w) \<longrightarrow> content_addressed env (game_files w'))"

lemma files_grow_simps [simp]:
  "files_grow env w w" "files_grow env w (w'\<lparr>sled_faults := fs\<rparr>) = files_grow env w w'"
  "files_grow env w (w'\<lparr>io_faults := io\<rparr>) = files_grow env w w'"
  "files_grow env w (w'\<lparr>cached_files := c\<rparr>) = files_grow env w w'"
  by (simp_all add: files_grow_def)

lemma files_grow_trans: "files_grow env w w' \<Longrightarrow> files_grow env w' w'' \<Longrightarrow> files_grow env w w''"
  unfolding files_grow_def by (elim conjE, intro conjI) (simp, erule subset_trans, assumption, blast)

lemma content_addressed_add:
  assumes "content_addressed env files"
  shows "content_addressed env (files(ev_hex_encode env (ev_blake3 env content) \<mapsto> content))"
  using assms unfolding content_addressed_def by (metis map_upd_Some_unfold)

lemma files_grow_add:
  "files_grow env w w' \<Longrightarrow> files_grow env w (w'\<lparr>game_files := (game_files w')(ev_hex_encode env (ev_blake3 env content) \<mapsto> content)\<rparr>)"
  using content_addressed_add by (auto simp: files_grow_def)

lemma files_grow_keeps:
  assumes "files_grow env w w'"
  shows "software_db w' = software_db w" "upload_id_db w' = upload_id_db w" "auth_db w' = auth_db w"
    "current_software_id w' = current_software_id w" "cookie_db w' = cookie_db w" "money_db w' = money_db w"
    "download_count_db w' = download_count_db w" "clock w' = clock w"
proof -
  let ?z = "\<lambda>w. (settled w)\<lparr>game_files := Map.empty\<rparr>"
  have eq: "?z w' = ?z w" using assms by (simp add: files_grow_def)
  have sel: "software_db (?z v) = software_db v" "upload_id_db (?z v) = upload_id_db v" "auth_db (?z v) = auth_db v"
    "current_software_id (?z v) = current_software_id v" "cookie_db (?z v) = cookie_db v" "money_db (?z v) = money_db v"
    "download_count_db (?z v) = download_count_db v" "clock (?z v) = clock v" for v
    by (simp_all add: settled_sel)
  show "software_db w' = software_db w" "upload_id_db w' = upload_id_db w" "auth_db w' = auth_db w"
    "current_software_id w' = current_software_id w" "cookie_db w' = cookie_db w" "money_db w' = money_db w"
    "download_count_db w' = download_count_db w" "clock w' = clock w"
    using sel [of w'] sel [of w] unfolding eq by simp_all
qed

lemma wp_read_pieces:
  assumes "\<And>io. Q (concat ps) (w\<lparr>io_faults := io\<rparr>)" "\<And>io. E (w\<lparr>io_faults := io\<rparr>)"
  shows "wp (read_pieces ps) Q E w"
  using assms
proof (induction ps arbitrary: w Q)
  case Nil
  then show ?case by (simp add: wp_rules)
next
  case (Cons p ps)
  show ?case using Cons.prems by (auto simp: wp_rules intro!: Cons.IH)
qed

lemma reads_concat: "reads_whole env \<Longrightarrow> concat (ev_reads env CHUNK_BUFFER_LEN content) = content"
  by (simp add: reads_whole_def CHUNK_BUFFER_LEN_def)

lemma publish_file_wp:
  assumes "reads_whole env"
  shows "wp (publish_file env (h, name))
    (\<lambda>_ w'. files_grow env w w' \<and> game_files w' (ev_hex_encode env h) \<noteq> None) (files_grow env w) w"
  by (auto simp: publish_file_def remove_cached_def Let_def wp_rules reads_concat [OF assms]
      intro!: wp_read_pieces files_grow_add split: option.splits)

lemma publish_files_wp:
  assumes "reads_whole env"
  shows "wp (each (publish_file env) fs)
    (\<lambda>_ w'. files_grow env w w' \<and> (\<forall>(h, name) \<in> set fs. game_files w' (ev_hex_encode env h) \<noteq> None))
    (files_grow env w) w"
proof (induction fs arbitrary: w)
  case Nil
  then show ?case by (simp add: wp_ret)
next
  case (Cons f fs)
  obtain h name where f: "f = (h, name)" by (cases f)
  have "wp (each (publish_file env) fs) (\<lambda>_ w'. files_grow env w w' \<and>
      (\<forall>(h, name) \<in> set (f # fs). game_files w' (ev_hex_encode env h) \<noteq> None)) (files_grow env w) w1"
    if w1: "files_grow env w w1" "game_files w1 (ev_hex_encode env h) \<noteq> None" for w1
  proof (rule wp_conseq [OF Cons.IH [of w1]])
    fix w' assume w': "files_grow env w1 w' \<and> (\<forall>(h, name) \<in> set fs. game_files w' (ev_hex_encode env h) \<noteq> None)"
    then have "game_files w' (ev_hex_encode env h) \<noteq> None" using w1(2) by (auto simp: files_grow_def)
    with w' w1(1) show "files_grow env w w' \<and> (\<forall>(h, name) \<in> set (f # fs). game_files w' (ev_hex_encode env h) \<noteq> None)"
      by (simp add: f files_grow_trans)
  qed (rule files_grow_trans [OF w1(1)])
  then show ?case unfolding each.simps wp_and_then f
    by (intro wp_conseq [OF publish_file_wp [OF assms]]) simp_all
qed

definition published :: "env \<Rightarrow> software_info \<Rightarrow> item \<Rightarrow> world \<Rightarrow> world \<Rightarrow> bool" where
  "published env si item w w' \<longleftrightarrow> (\<exists>w1 fs. files_grow env w w1 \<and>
    (\<forall>h \<in> dom (si_files si). game_files w1 (ev_hex_encode env h) \<noteq> None) \<and>
    w' = w1\<lparr>sled_faults := fs, software_db := (software_db w)(it_id item \<mapsto>
      item\<lparr>it_files := si_files si, it_creation_time := Some (of_int (clock w))\<rparr>)\<rparr>)"

lemma publish_wp:
  assumes "reads_whole env" "iterates_all file_order" "finite (dom (si_files si))"
  shows "wp (publish env file_order si item) (\<lambda>go_on w'. \<not> go_on \<and> published env si item w w') (files_grow env w) w"
  unfolding publish_def Let_def wp_and_then
proof (rule wp_conseq [OF publish_files_wp [OF assms(1)]])
  fix w1 assume w1: "files_grow env w w1 \<and>
    (\<forall>(h, name) \<in> set (entries (file_order (si_files si)) (si_files si)). game_files w1 (ev_hex_encode env h) \<noteq> None)"
  have "dom (si_files si) \<subseteq> set (file_order (si_files si))"
    using assms(2,3) by (simp add: iterates_all_def)
  then have all: "\<forall>h \<in> dom (si_files si). game_files w1 (ev_hex_encode env h) \<noteq> None"
    using w1 by (fastforce simp: set_entries)
  have "published env si item w (w1\<lparr>sled_faults := fs, software_db := (software_db w)(it_id item \<mapsto>
      item\<lparr>it_files := si_files si, it_creation_time := Some (of_int (clock w))\<rparr>)\<rparr>)" for fs
    unfolding published_def using w1 all by blast
  then show "wp now_u64 (\<lambda>t. wp (unwrapped (db_insert SoftwareDB (it_id (item\<lparr>it_files := si_files si,
      it_creation_time := Some t\<rparr>)) (item\<lparr>it_files := si_files si, it_creation_time := Some t\<rparr>)))
      (\<lambda>x. wp (ret False) (\<lambda>go_on w'. \<not> go_on \<and> published env si item w w') (files_grow env w)) (files_grow env w))
      (files_grow env w) w1"
    using w1 files_grow_keeps(1,8) [of env w w1] by (auto simp: auth_defs wp_rules)
qed

subsection \<open>The invariant of uploads\<close>

definition store_inv :: "env \<Rightarrow> world \<Rightarrow> bool" where
  "store_inv env w \<longleftrightarrow> content_addressed env (game_files w) \<and> published_ok env (software_db w) (game_files w) \<and> listing_inv w"

text \<open>A session that has started holds a proper file list and an item that is on record.\<close>

definition session_inv :: "world \<Rightarrow> (software_info \<times> item) option \<Rightarrow> bool" where
  "session_inv w info \<longleftrightarrow> (case info of None \<Rightarrow> True | Some (si, item) \<Rightarrow>
    files_ok (si_files si) \<and> software_db w (it_id item) \<noteq> None)"

lemma session_inv_cong: "software_db w' = software_db w \<Longrightarrow> session_inv w' = session_inv w"
  by (simp add: session_inv_def fun_eq_iff split: option.split)

lemma store_inv_quiet: "quiet w w' \<Longrightarrow> store_inv env w \<Longrightarrow> store_inv env w' \<and> (session_inv w info \<longrightarrow> session_inv w' info)"
  using quiet_keeps [of w w'] session_inv_cong [of w' w] by (simp add: store_inv_def listing_inv_def)

lemma published_ok_mono:
  "published_ok env items files \<Longrightarrow> dom files \<subseteq> dom files' \<Longrightarrow> published_ok env items files'"
  unfolding published_ok_def by fast

lemma store_inv_grow: "files_grow env w w' \<Longrightarrow> store_inv env w \<Longrightarrow> store_inv env w' \<and> (session_inv w info \<longrightarrow> session_inv w' info)"
  using files_grow_keeps [of env w w'] published_ok_mono [of env "software_db w" "game_files w" "game_files w'"]
    session_inv_cong [of w' w]
  by (simp add: store_inv_def listing_inv_def files_grow_def)

lemma store_inv_published:
  assumes "published env si item w w'" "store_inv env w" "session_inv w (Some (si, item))"
  shows "store_inv env w' \<and> session_inv w' (Some (si, item))"
proof -
  from assms(1) obtain w1 fs where w1: "files_grow env w w1"
    and all: "\<forall>h \<in> dom (si_files si). game_files w1 (ev_hex_encode env h) \<noteq> None"
    and w': "w' = w1\<lparr>sled_faults := fs, software_db := (software_db w)(it_id item \<mapsto>
      item\<lparr>it_files := si_files si, it_creation_time := Some (of_int (clock w))\<rparr>)\<rparr>"
    by (auto simp: published_def)
  have inv1: "store_inv env w1" "files_ok (si_files si)" "software_db w (it_id item) \<noteq> None"
    using store_inv_grow [OF w1 assms(2)] assms(3) by (auto simp: session_inv_def)
  with w' all files_grow_keeps [OF w1] have "published_ok env (software_db w') (game_files w')"
    by (auto simp: store_inv_def published_ok_def)
  moreover from inv1 w' files_grow_keeps [OF w1] assms(2) have "listing_inv w'"
    by (auto simp: store_inv_def listing_inv_def listing_ok_def)
  ultimately show ?thesis using inv1 w' by (simp add: store_inv_def session_inv_def)
qed

text \<open>A message after the first one changes nothing that matters, or publishes.\<close>

lemma calm_run: "wp m (\<lambda>_. calm u) (calm u) u \<Longrightarrow> m u = (r, u') \<Longrightarrow> calm u u'"
  by (auto simp: wp_def split: outcome.splits)

lemma message_calm:
  assumes "up_software_info u = Some (si, item)" "upload_message env file_order msg u = Some (r, u')"
  shows "calm u u' \<or> (r, u') = on_server (publish env file_order si item) u"
proof (cases "up_num_chunks u = si_num_chunks si")
  case chunks: True
  show ?thesis
  proof (cases "up_uploaded_image u")
    case True
    with chunks assms show ?thesis by (simp add: upload_message_def)
  next
    case False
    show ?thesis
    proof (cases "up_image_hash_info u")
      case None
      with chunks False assms have "open_image env msg u = (r, u')" by (simp add: upload_message_def)
      then show ?thesis using calm_run [OF open_image_calm] by blast
    next
      case (Some info)
      obtain h f where info: "info = (h, f)" by (cases info)
      from chunks False Some assms info have "(case image_loop msg (si_compressed_image_len si) u of None \<Rightarrow> None
          | Some (Panic, u') \<Rightarrow> Some (Panic, u') | Some (Done _, u') \<Rightarrow> Some (check_image env h u')) = Some (r, u')"
        by (simp add: upload_message_def)
      then obtain r1 u1 where loop: "image_loop msg (si_compressed_image_len si) u = Some (r1, u1)"
        and rest: "(case r1 of Panic \<Rightarrow> (Panic, u1) | Done _ \<Rightarrow> check_image env h u1) = (r, u')"
        by (auto split: option.splits prod.splits outcome.splits)
      from image_loop_calm [OF loop] rest calm_run [OF check_image_calm, of env h u1 r u'] show ?thesis
        by (auto split: outcome.splits intro: calm_trans)
    qed
  qed
next
  case False
  show ?thesis
  proof (cases "up_chunk_info u")
    case None
    with False assms have "announce_chunk msg u = (r, u')" by (simp add: upload_message_def)
    then show ?thesis using calm_run [OF announce_calm] by blast
  next
    case (Some ci)
    with False assms have "receive_chunk env item ci msg u = (r, u')" by (simp add: upload_message_def)
    then show ?thesis using calm_run [OF receive_calm] by blast
  qed
qed

lemma first_message:
  assumes "up_software_info u = None" "upload_message env file_order msg u = Some (r, u')"
  shows "calm u u' \<or> r = Done True \<and> quiet (cn_world u) (cn_world u') \<and> (\<exists>si item. up_software_info u' = Some (si, item) \<and>
    started (cn_world u) (si, item) \<and> si_files si \<in> range (\<lambda>bs. parse_files env bs Map.empty))"
proof -
  from assms have "start_upload env msg u = (r, u')" by (simp add: upload_message_def)
  with start_upload_wp [of env msg u] show ?thesis
    by (cases r) (auto simp: wp_def split: if_splits)
qed

text \<open>One message keeps the invariant, whatever it is and however its handling ends.\<close>

definition upload_inv :: "env \<Rightarrow> uploading \<Rightarrow> bool" where
  "upload_inv env u \<longleftrightarrow> store_inv env (cn_world u) \<and> session_inv (cn_world u) (up_software_info u)"

lemma upload_inv_calm: "calm u u' \<Longrightarrow> upload_inv env u \<Longrightarrow> upload_inv env u'"
  using store_inv_quiet [of "cn_world u" "cn_world u'" env] by (auto simp: calm_def upload_inv_def)

lemma publish_inv:
  assumes "reads_whole env" "iterates_all file_order" "upload_inv env u" "up_software_info u = Some (si, item)"
    and run: "(r, u') = on_server (publish env file_order si item) u"
  shows "upload_inv env u'"
proof -
  have inv: "store_inv env (cn_world u)" "session_inv (cn_world u) (Some (si, item))"
    using assms(3,4) by (simp_all add: upload_inv_def)
  have "finite (dom (si_files si))" using inv(2) by (simp add: session_inv_def files_ok_def)
  from publish_wp [OF assms(1,2) this, of item "cn_world u"] obtain r0 w' where
    w': "publish env file_order si item (cn_world u) = (r0, w')"
    "published env si item (cn_world u) w' \<or> files_grow env (cn_world u) w'"
    by (auto simp: wp_def split: prod.splits outcome.splits)
  then have "store_inv env w' \<and> session_inv w' (Some (si, item))"
    using store_inv_published [OF _ inv] store_inv_grow [OF _ inv(1)] inv(2) by blast
  moreover have "u' = u\<lparr>cn_world := w'\<rparr>" using run w'(1) by (simp add: on_server_def)
  ultimately show ?thesis using assms(4) by (simp add: upload_inv_def)
qed

lemma message_inv:
  assumes laws: "reads_whole env" "lossy_ok env" "iterates_all file_order" and inv: "upload_inv env u"
    and run: "upload_message env file_order msg u = Some (r, u')"
  shows "upload_inv env u'"
proof (cases "up_software_info u")
  case None
  from first_message [OF this run] show ?thesis
  proof
    assume "r = Done True \<and> quiet (cn_world u) (cn_world u') \<and> (\<exists>si item. up_software_info u' = Some (si, item) \<and>
      started (cn_world u) (si, item) \<and> si_files si \<in> range (\<lambda>bs. parse_files env bs Map.empty))"
    then obtain si item where q: "quiet (cn_world u) (cn_world u')" and info: "up_software_info u' = Some (si, item)"
      and st: "started (cn_world u) (si, item)" and "si_files si \<in> range (\<lambda>bs. parse_files env bs Map.empty)" by blast
    then obtain bs where files: "si_files si = parse_files env bs Map.empty" by (elim rangeE)
    from st obtain i where "software_db (cn_world u) i = Some item" unfolding started_def prod.case by (elim conjE exE)
    note new = info this files
    have "files_ok Map.empty" by (simp add: files_ok_def)
    from parse_files_ok [OF laws(2) this] have "files_ok (si_files si)" by (simp add: files)
    moreover have "it_id item = i" using inv listing_invD(1) [OF _ new(2)] by (simp add: store_inv_def upload_inv_def)
    ultimately show ?thesis using store_inv_quiet [OF q] inv quiet_keeps(1) [OF q] new
      by (simp add: session_inv_def upload_inv_def)
  qed (rule upload_inv_calm [OF _ inv])
next
  case (Some info)
  obtain si item where info: "info = (si, item)" by (cases info)
  from message_calm [OF Some [unfolded info] run] show ?thesis
    using upload_inv_calm [OF _ inv] publish_inv [OF laws(1,3) inv Some [unfolded info]] by blast
qed

lemma session_keeps_inv:
  assumes laws: "reads_whole env" "lossy_ok env" "iterates_all file_order"
  shows "upload_inv env u \<Longrightarrow> upload_software env file_order ms u = Some (r, u') \<Longrightarrow> upload_inv env u'"
proof (induction ms arbitrary: u)
  case (Cons m ms)
  show ?case
  proof (cases m)
    case (Inr msg)
    from Cons.prems(2) Inr obtain r1 u1 where msg: "upload_message env file_order msg u = Some (r1, u1)"
      by (auto split: option.splits)
    from Cons msg Inr message_inv [OF laws Cons.prems(1) msg] show ?thesis
      by (auto split: outcome.splits if_splits)
  qed (use Cons in simp)
qed simp


text \<open>
  Whatever a client sends, an upload session keeps the server's games in order: if the server starts
  with all files of \<open>.game_files\<close> named by the hash of their content, all published items having their
  files there, and all ids in order, then all of this holds when the session ends, also when it ends with
  a panic or a broken connection.
\<close>

lemma uploads_keep_store:
  assumes "reads_whole env" "lossy_ok env" "iterates_all file_order" "store_inv env w"
    and "upload_software env file_order ms (fresh_upload w) = Some (r, u')"
  shows "store_inv env (cn_world u')"
proof -
  have "upload_inv env (fresh_upload w)"
    using assms(4) by (simp add: upload_inv_def fresh_upload_def session_inv_def)
  from session_keeps_inv [OF assms(1-3) this assms(5)] show ?thesis by (simp add: upload_inv_def)
qed

text \<open>
  A published item can be downloaded: in a server whose games are in order, every file of a published
  item has a hash of 32 bytes, a name without zero bytes and a stored content, which is what the download
  handler needs to send it; and if the hexadecimal form determines the hash, its blake3 hash is the hash in the item.
\<close>

lemma stored_is_servable:
  assumes "store_inv env w" "software_db w i = Some item" "it_creation_time item \<noteq> None"
    and "it_files item h = Some name" "\<forall>content \<in> ran (game_files w). length content < 2 ^ 64"
    and "inj (ev_hex_encode env)"
  shows "servable env w (h, name) \<and> (\<exists>content. original env w (h, name) = (h, as_bytes name, content) \<and> ev_blake3 env content = h)"
proof -
  from assms(1-4) obtain content where c: "game_files w (ev_hex_encode env h) = Some content"
    and ok: "length h = 32" "0 \<notin> set (as_bytes name)"
    unfolding store_inv_def published_ok_def files_ok_def by blast
  from c assms(1) have "ev_hex_encode env h = ev_hex_encode env (ev_blake3 env content)"
    unfolding store_inv_def content_addressed_def by blast
  then have "ev_blake3 env content = h" using assms(6) by (simp add: inj_def)
  moreover have "length content < 2 ^ 64" using assms(5) c by (auto simp: ran_def)
  ultimately show ?thesis using c ok by (simp add: servable_def original_def)
qed

subsection \<open>What publishing checks\<close>

text \<open>The state while an upload is published, the files of the hashes \<open>hs\<close> being done: each of them has gone from
  \<open>.cached_files\<close> to \<open>.game_files\<close>, with a content that has the hash; nothing else has moved there, and the items are as
  they were.\<close>

definition moved :: "env \<Rightarrow> bytes set \<Rightarrow> world \<Rightarrow> world \<Rightarrow> bool" where
  "moved env hs w w' \<longleftrightarrow> software_db w' = software_db w \<and> clock w' = clock w \<and>
    (\<forall>h \<in> hs. \<exists>content. cached_files w (ev_hex_encode env h) = Some content \<and> ev_blake3 env content = h \<and>
      game_files w' (ev_hex_encode env h) = Some content \<and> cached_files w' (ev_hex_encode env h) = None) \<and>
    (\<forall>path. path \<notin> ev_hex_encode env ` hs \<longrightarrow> game_files w' path = game_files w path \<and> cached_files w' path = cached_files w path)"

text \<open>A panic leaves the items as they were, and in \<open>.game_files\<close> only files that were there or have the right content.\<close>

definition stopped :: "env \<Rightarrow> world \<Rightarrow> world \<Rightarrow> bool" where
  "stopped env w w' \<longleftrightarrow> software_db w' = software_db w \<and> (\<forall>path. game_files w' path = game_files w path \<or>
    (\<exists>content. game_files w' path = Some content \<and> path = ev_hex_encode env (ev_blake3 env content)))"

lemma moved_simps [simp]:
  "moved env hs w (w'\<lparr>io_faults := io\<rparr>) = moved env hs w w'" "moved env hs w (w'\<lparr>sled_faults := fs\<rparr>) = moved env hs w w'"
  "stopped env w (w'\<lparr>io_faults := io\<rparr>) = stopped env w w'" "stopped env w (w'\<lparr>sled_faults := fs\<rparr>) = stopped env w w'"
  "stopped env w (w'\<lparr>cached_files := c\<rparr>) = stopped env w w'"
  by (simp_all add: moved_def stopped_def)







text \<open>
  Only a logged-in user with a known upload id can start an upload, with an image of 4 bytes to 1 MiB
  and at most 1280 chunks announced; any other first message changes nothing.
\<close>

lemma upload_start_checked:
  assumes "up_software_info u = None" "upload_message env file_order msg u = Some (r, u')"
  shows "quiet (cn_world u) (cn_world u') \<and>
    (up_software_info u' \<noteq> None \<longrightarrow> started (cn_world u) (the (up_software_info u')))"
  using first_message [OF assms] assms(1) by (auto simp: calm_def)

subsection \<open>Chunks that come in pieces\<close>

lemma receive_part:
  assumes "up_amt_written_to_buffer u = 0" "length m \<le> CHUNK_BUFFER_LEN"
    and "up_total_size u + of_nat (length m) \<le> it_compressed_size item" "of_nat (length m) \<noteq> ci_len ci"
  shows "wp (receive_chunk env item ci m) (\<lambda>go_on u'. go_on \<and> up_amt_written_to_buffer u' = length m \<and>
    up_software_info u' = up_software_info u \<and> up_num_chunks u' = up_num_chunks u \<and> up_chunk_info u' = up_chunk_info u)
    (\<lambda>_. False) u"
  using assms by (auto simp: receive_chunk_def copy_to_buffer_def wp_rules)

lemma receive_on_top:
  assumes "up_amt_written_to_buffer u \<noteq> 0"
  shows "receive_chunk env item ci m u = (Panic, u)"
  using assms by (simp add: receive_chunk_def copy_to_buffer_def and_then_def gets_def panic_def)

text \<open>
  A chunk has to come in one websocket message: after a non-empty message that is shorter or longer
  than announced (within the size of the item and of the buffer), the next message, whatever it is, makes
  the session panic, since the copy into the buffer needs source and destination of the same length.
\<close>

lemma split_chunk_panics:
  assumes "up_software_info u = Some (si, item)" "up_num_chunks u \<noteq> si_num_chunks si" "up_chunk_info u = Some ci"
    and "up_amt_written_to_buffer u = 0" "m \<noteq> []" "length m \<le> CHUNK_BUFFER_LEN"
    and "up_total_size u + of_nat (length m) \<le> it_compressed_size item" "of_nat (length m) \<noteq> ci_len ci"
  shows "\<exists>u'. upload_software env file_order (Inr m # Inr m2 # rest) u = Some (Panic, u')"
proof -
  from receive_part [OF assms(4,6-8), of env] obtain u1 where "receive_chunk env item ci m u = (Done True, u1)"
    and u1: "up_amt_written_to_buffer u1 = length m" "up_software_info u1 = up_software_info u"
      "up_num_chunks u1 = up_num_chunks u" "up_chunk_info u1 = up_chunk_info u"
    by (auto simp: wp_def split: prod.splits outcome.splits)
  moreover have "receive_chunk env item ci m2 u1 = (Panic, u1)"
    using u1(1) assms(5) by (intro receive_on_top) simp
  ultimately show ?thesis using assms(1-3) u1 by (simp add: upload_message_def)
qed

subsection \<open>The loop over an image message\<close>

text \<open>
  C38: An empty message where image data is expected hangs the session: the loop waits for the total size
  to grow, handles the same message again and again, and never returns.
\<close>

theorem empty_image_message_hangs:
  assumes "up_total_image_size u < limit" "io_faults (cn_world u) = []"
  shows "image_loop [] limit u = None"
proof -
  have round: "fst (image_round [] u) = Done () \<and> up_total_image_size (snd (image_round [] u)) = up_total_image_size u \<and>
      io_faults (cn_world (snd (image_round [] u))) = []" if "io_faults (cn_world u) = []" for u
  proof -
    have "wp (image_round []) (\<lambda>_ u'. up_total_image_size u' = up_total_image_size u \<and> io_faults (cn_world u') = [])
        (\<lambda>_. False) u"
      using that by (auto simp: image_round_def wp_rules split: option.splits)
    then show ?thesis by (auto simp: wp_def split: prod.splits outcome.splits)
  qed
  have "\<not> (msg = [] \<and> up_total_image_size u < limit \<and> io_faults (cn_world u) = [])"
    if ret: "image_loop msg limit u = Some x" for msg u x
  proof (rule image_loop.raw_induct [where
      P = "\<lambda>msg limit u x. \<not> (msg = [] \<and> up_total_image_size u < limit \<and> io_faults (cn_world u) = [])", OF _ ret])
    fix f :: "bytes \<Rightarrow> u32 \<Rightarrow> uploading \<Rightarrow> (unit outcome \<times> uploading) option" and msg limit u x
    assume IH: "\<And>msg limit u x. f msg limit u = Some x \<Longrightarrow>
        \<not> (msg = [] \<and> up_total_image_size u < limit \<and> io_faults (cn_world u) = [])"
      and eq: "(if up_total_image_size u < limit then
          (case image_round msg u of (Done _, u') \<Rightarrow> f msg limit u' | (Panic, u') \<Rightarrow> Some (Panic, u'))
        else Some (Done (), u)) = Some x"
    show "\<not> (msg = [] \<and> up_total_image_size u < limit \<and> io_faults (cn_world u) = [])"
    proof
      assume a: "msg = [] \<and> up_total_image_size u < limit \<and> io_faults (cn_world u) = []"
      with round [of u] have r: "image_round [] u = (Done (), snd (image_round [] u))"
        by (cases "image_round [] u") simp
      from a have m: "msg = []" and lt: "up_total_image_size u < limit" by simp_all
      from eq lt have "(case image_round msg u of (Done _, u') \<Rightarrow> f msg limit u' | (Panic, u') \<Rightarrow> Some (Panic, u')) = Some x"
        by simp
      with r have "f [] limit (snd (image_round [] u)) = Some x"
        unfolding m by (cases "image_round [] u") simp
      from IH [OF this] a round [of u] show False by simp
    qed
  qed
  with assms show ?thesis by (cases "image_loop [] limit u") auto
qed

text \<open>\<open>k\<close> rounds over an image message, with an open image file at its end.\<close>

definition image_open :: "bytes \<Rightarrow> string \<Rightarrow> bytes \<Rightarrow> uploading \<Rightarrow> bool" where
  "image_open h path stored u \<longleftrightarrow> faultless u \<and> up_image_hash_info u = Some (h, Some (path, length stored)) \<and>
    game_images (cn_world u) path = Some stored"

definition image_written :: "bytes \<Rightarrow> nat \<Rightarrow> uploading \<Rightarrow> uploading \<Rightarrow> bool" where
  "image_written msg k u u' \<longleftrightarrow> calm u u' \<and> up_image_hasher u' = up_image_hasher u @ concat (replicate k msg) \<and>
    unat (up_total_image_size u') = unat (up_total_image_size u) + k * length msg \<and>
    up_num_chunks u' = up_num_chunks u \<and> up_uploaded_image u' = up_uploaded_image u \<and>
    cached_files (cn_world u') = cached_files (cn_world u)"

lemma image_written_0: "image_written msg 0 u u"
  by (simp add: image_written_def)

lemma image_written_Suc: "image_written msg 1 u u1 \<Longrightarrow> image_written msg k u1 u' \<Longrightarrow> image_written msg (Suc k) u u'"
  by (auto simp: image_written_def intro: calm_trans)

lemma write_at_end: "write_at (length old) new old = old @ new"
  by (simp add: write_at_def)

lemma image_round_runs:
  assumes "image_open h path stored u" "unat (up_total_image_size u) + length msg < 2 ^ 32"
  shows "\<exists>u'. image_round msg u = (Done (), u') \<and> image_open h path (stored @ msg) u' \<and> image_written msg 1 u u'"
proof -
  have fits: "length msg < 2 ^ 32" using assms(2) by simp
  then have "unat (of_nat (length msg) :: u32) = length msg" by (simp add: unsigned_of_nat take_bit_nat_eq_self)
  then have total: "unat (up_total_image_size u + of_nat (length msg)) = unat (up_total_image_size u) + length msg"
    using assms(2) by (simp add: unat_add_exact)
  have "wp (image_round msg) (\<lambda>_ u'. image_open h path (stored @ msg) u' \<and> image_written msg 1 u u') (\<lambda>_. False) u"
    using assms(1) fits total
    by (auto simp: image_round_def wp_rules image_open_def image_written_def faultless_def calm_def write_at_end)
  then show ?thesis by (auto simp: wp_def split: prod.splits outcome.splits)
qed

lemma image_loop_runs:
  assumes "image_open h path stored u" "msg \<noteq> []" "length msg < 2 ^ 31" "unat limit < 2 ^ 31"
  shows "\<exists>k u'. image_loop msg limit u = Some (Done (), u') \<and> image_open h path (stored @ concat (replicate k msg)) u' \<and>
    image_written msg k u u' \<and> unat limit \<le> unat (up_total_image_size u) + k * length msg \<and>
    (0 < k \<longrightarrow> unat (up_total_image_size u) + (k - 1) * length msg < unat limit)"
  using assms(1)
proof (induction "unat limit - unat (up_total_image_size u)" arbitrary: u stored rule: less_induct)
  case less
  show ?case
  proof (cases "up_total_image_size u < limit")
    case False
    then have "image_loop msg limit u = Some (Done (), u)" by (simp add: image_loop.simps)
    with False less.prems image_written_0 [of msg u] show ?thesis
      by (intro exI [of _ 0] exI [of _ u]) (simp add: word_less_nat_alt)
  next
    case True
    then have lt: "unat (up_total_image_size u) < unat limit" by (simp add: word_less_nat_alt)
    have "unat (up_total_image_size u) + length msg < 2 ^ 32" using lt assms(3,4) by simp
    from image_round_runs [OF less.prems this] obtain u1 where u1: "image_round msg u = (Done (), u1)"
      "image_open h path (stored @ msg) u1" "image_written msg 1 u u1" by blast
    then have total: "unat (up_total_image_size u1) = unat (up_total_image_size u) + length msg"
      by (simp add: image_written_def)
    have "unat limit - unat (up_total_image_size u1) < unat limit - unat (up_total_image_size u)"
      using lt assms(2) total by (cases msg) auto
    from less.hyps [OF this u1(2)] obtain k u' where k: "image_loop msg limit u1 = Some (Done (), u')"
      "image_open h path ((stored @ msg) @ concat (replicate k msg)) u'" "image_written msg k u1 u'"
      "unat limit \<le> unat (up_total_image_size u1) + k * length msg"
      "0 < k \<longrightarrow> unat (up_total_image_size u1) + (k - 1) * length msg < unat limit" by blast
    have "image_loop msg limit u = Some (Done (), u')"
      using True u1(1) k(1) by (simp add: image_loop.simps [of msg limit u])
    moreover have "unat (up_total_image_size u) + (Suc k - 1) * length msg < unat limit"
      using lt k(5) total by (cases k) auto
    ultimately show ?thesis using k total image_written_Suc [OF u1(3) k(3)]
      by (intro exI [of _ "Suc k"] exI [of _ u']) simp
  qed
qed

text \<open>
  The handling of a non-empty image message always ends, but it repeats the message until the announced
  image length is reached: the new image file and the data that is hashed get as many copies of it as are
  needed. So a title image is stored as sent exactly when it comes in one message; its first half alone
  would be written twice.
\<close>

lemma image_message_repeated:
  assumes "image_open h path [] u" "up_total_image_size u = 0" "up_image_hasher u = []"
    and "msg \<noteq> []" "length msg < 2 ^ 31" "0 < limit" "unat limit < 2 ^ 31"
  shows "\<exists>k u'. image_loop msg limit u = Some (Done (), u') \<and> up_image_hasher u' = concat (replicate k msg) \<and>
    game_images (cn_world u') path = Some (concat (replicate k msg)) \<and>
    (k - 1) * length msg < unat limit \<and> unat limit \<le> k * length msg"
proof -
  from image_loop_runs [OF assms(1,4,5,7)] obtain k u' where k: "image_loop msg limit u = Some (Done (), u')"
    "image_open h path ([] @ concat (replicate k msg)) u'" "image_written msg k u u'"
    "unat limit \<le> unat (up_total_image_size u) + k * length msg"
    "0 < k \<longrightarrow> unat (up_total_image_size u) + (k - 1) * length msg < unat limit" by blast
  moreover have "0 < k" using k(4) assms(2,6) by (cases k) (auto simp: word_less_nat_alt)
  ultimately show ?thesis using assms(2,3)
    by (intro exI [of _ k] exI [of _ u']) (auto simp: image_open_def image_written_def)
qed


subsection \<open>An honest upload\<close>

text \<open>
  The messages of a client that uploads one file in chunks: the first message, for every chunk its
  announcement and its content, the hash of the title image, the image, and one more message.
\<close>

record offer =
  of_user :: string
  of_cookie :: string
  of_upload_id :: bytes
  of_name :: string
  of_chunks :: "bytes list"
  of_image :: bytes

definition offer_hash :: "env \<Rightarrow> offer \<Rightarrow> bytes" where
  "offer_hash env f = ev_blake3 env (concat (of_chunks f))"

definition upload_request :: "env \<Rightarrow> offer \<Rightarrow> bytes" where
  "upload_request env f = to_le_bytes 8 (of_nat (length (of_chunks f)) :: u64) @ as_bytes (of_user f) @ [0] @
    as_bytes (of_cookie f) @ [0] @ of_upload_id f @ to_le_bytes 4 (of_nat (length (of_image f)) :: u32) @
    offer_hash env f @ as_bytes (of_name f) @ [0]"

fun chunk_messages :: "bytes \<Rightarrow> bytes list \<Rightarrow> ws_item list" where
  "chunk_messages h [] = []"
| "chunk_messages h (c # cs) =
     Inr (to_le_bytes 8 (of_nat (length c) :: u64) @ h) # Inr c # chunk_messages h cs"

definition honest_messages :: "env \<Rightarrow> offer \<Rightarrow> ws_item list" where
  "honest_messages env f = Inr (upload_request env f) # chunk_messages (offer_hash env f) (of_chunks f) @
    [Inr (ev_blake3 env (of_image f)), Inr (of_image f), Inr []]"

lemma upload_step:
  "upload_message env file_order m u = Some (Done True, u') \<Longrightarrow>
    upload_software env file_order (Inr m # ms) u = upload_software env file_order ms u'"
  by simp

lemma from_le_bytes_u32 [simp]: "from_le_bytes (to_le_bytes 4 x) = (x :: u32)"
  by (simp add: from_le_bytes_to_le_bytes take_bit_word_eq_self)

lemma wp_run: "wp m Q (\<lambda>_. False) s \<Longrightarrow> \<exists>x s'. m s = (Done x, s') \<and> Q x s'"
  by (auto simp: wp_def split: prod.splits outcome.splits)

text \<open>Between chunks: \<open>n\<close> chunks of \<open>total\<close> bytes are stored.\<close>

definition between_chunks :: "env \<Rightarrow> software_info \<times> item \<Rightarrow> bytes \<Rightarrow> bytes list \<Rightarrow> uploading \<Rightarrow> bool" where
  "between_chunks env info h cs u \<longleftrightarrow> faultless u \<and> up_software_info u = Some info \<and> up_chunk_info u = None \<and>
    up_amt_written_to_buffer u = 0 \<and> up_num_chunks u = of_nat (length cs) \<and>
    up_total_size u = of_nat (length (concat cs)) \<and>
    cached_files (cn_world u) (ev_hex_encode env h) = (if cs = [] then None else Some (concat cs)) \<and>
    up_file_hashes_seen u = (if cs = [] then {} else {h}) \<and> \<not> up_uploaded_image u \<and> up_image_hash_info u = None \<and>
    up_image_hasher u = [] \<and> up_total_image_size u = 0"

text \<open>Chunks do not touch the images.\<close>

definition only_cached :: "world \<Rightarrow> world \<Rightarrow> bool" where
  "only_cached w w' \<longleftrightarrow> quiet w w' \<and> game_images w' = game_images w"

lemma only_cached_refl [simp]: "only_cached w w"
  by (simp add: only_cached_def)

lemma only_cached_trans: "only_cached w w' \<Longrightarrow> only_cached w' w'' \<Longrightarrow> only_cached w w''"
  by (auto simp: only_cached_def intro: quiet_trans)

lemma announce_runs:
  assumes "between_chunks env info h cs u" "length h = 32"
  shows "\<exists>u'. announce_chunk (to_le_bytes 8 n @ h) u = (Done True, u') \<and>
    between_chunks env info h cs (u'\<lparr>up_chunk_info := None\<rparr>) \<and>
    up_chunk_info u' = Some \<lparr>ci_len = n, ci_file = h\<rparr> \<and> only_cached (cn_world u) (cn_world u')"
proof -
  have "slice (to_le_bytes 8 n @ h) 0 8 = Some (to_le_bytes 8 n)" "slice (to_le_bytes 8 n @ h) 8 40 = Some h"
    using assms(2) by (simp_all add: slice_def)
  with assms(1) show ?thesis
    by (simp add: announce_chunk_def and_then_def modify_def ret_def between_chunks_def faultless_def only_cached_def)
qed

lemma wp_copy_to_buffer:
  assumes "up_amt_written_to_buffer u = 0" "length m \<le> CHUNK_BUFFER_LEN"
    and "Q () (u\<lparr>up_chunk_buffer := m @ drop (length m) (up_chunk_buffer u), up_amt_written_to_buffer := length m\<rparr>)"
  shows "wp (copy_to_buffer m) Q E u"
  using assms by (simp add: copy_to_buffer_def wp_rules)

lemma wp_append_cached:
  assumes "io_faults w = []"
    and "Q () (w\<lparr>cached_files := (cached_files w)(path \<mapsto>
      (case cached_files w path of None \<Rightarrow> [] | Some old \<Rightarrow> old) @ chunk), io_faults := []\<rparr>)"
  shows "wp (append_cached path chunk) Q E w"
  using assms by (simp add: append_cached_def wp_rules)

lemma wp_store_chunk:
  assumes "io_faults (cn_world u) = []" "h \<in> up_file_hashes_seen u \<or> ev_is_zst env chunk"
    and "take (up_amt_written_to_buffer u) (up_chunk_buffer u) = chunk"
    and "\<And>w. w = (cn_world u)\<lparr>cached_files := (cached_files (cn_world u))(ev_hex_encode env h \<mapsto>
        (case cached_files (cn_world u) (ev_hex_encode env h) of None \<Rightarrow> [] | Some old \<Rightarrow> old) @ chunk), io_faults := []\<rparr> \<Longrightarrow>
      Q () (u\<lparr>cn_world := w, up_file_hashes_seen := insert h (up_file_hashes_seen u), up_amt_written_to_buffer := 0,
        up_chunk_info := None, up_num_chunks := up_num_chunks u + 1\<rparr>)"
  shows "wp (store_chunk env h) Q E u"
  using assms by (auto simp: store_chunk_def Let_def wp_rules intro!: wp_append_cached)

lemma receive_runs:
  assumes "between_chunks env info h cs (u\<lparr>up_chunk_info := None\<rparr>)" "snd info = item"
    and "length c \<le> CHUNK_BUFFER_LEN" "cs = [] \<longrightarrow> ev_is_zst env c"
    and size: "of_nat (length (concat (cs @ [c]))) \<le> it_compressed_size item"
  shows "\<exists>u'. receive_chunk env item \<lparr>ci_len = of_nat (length c), ci_file = h\<rparr> c u = (Done True, u') \<and>
    between_chunks env info h (cs @ [c]) u' \<and> only_cached (cn_world u) (cn_world u')"
proof -
  have b: "faultless u" "up_amt_written_to_buffer u = 0" "up_total_size u = of_nat (length (concat cs))"
    "up_file_hashes_seen u = (if cs = [] then {} else {h})"
    using assms(1) by (simp_all add: between_chunks_def faultless_def)
  have total: "up_total_size u + of_nat (length c) = of_nat (length (concat (cs @ [c])))" by (simp add: b(3))
  let ?u = "u\<lparr>up_chunk_buffer := c @ drop (length c) (up_chunk_buffer u), up_amt_written_to_buffer := length c,
    up_total_size := of_nat (length (concat (cs @ [c])))\<rparr>"
  have cached: "(case cached_files (cn_world u) (ev_hex_encode env h) of None \<Rightarrow> [] | Some old \<Rightarrow> old) = concat cs"
    using assms(1) by (simp add: between_chunks_def)
  have "wp (store_chunk env h) (\<lambda>_ u'. between_chunks env info h (cs @ [c]) u' \<and> only_cached (cn_world u) (cn_world u'))
      (\<lambda>_. False) ?u"
  proof (rule wp_store_chunk [where chunk = c])
    show "h \<in> up_file_hashes_seen ?u \<or> ev_is_zst env c" using assms(4) b(4) by auto
  qed (use assms(1) b cached in \<open>simp_all add: between_chunks_def faultless_def only_cached_def\<close>)
  then have "wp (receive_chunk env item \<lparr>ci_len = of_nat (length c), ci_file = h\<rparr> c)
      (\<lambda>go_on u'. go_on \<and> between_chunks env info h (cs @ [c]) u' \<and> only_cached (cn_world u) (cn_world u')) (\<lambda>_. False) u"
    unfolding receive_chunk_def wp_and_then
    using total size
    by (intro wp_copy_to_buffer [OF b(2) assms(3)]) (simp add: wp_modify wp_gets wp_if wp_and_then ext [OF wp_ret] not_less)
  from wp_run [OF this] show ?thesis by auto
qed

lemma chunk_runs:
  assumes "between_chunks env (si, item) h cs u" "length h = 32" "length (cs @ [c]) \<le> unat (si_num_chunks si)"
    and "length c \<le> CHUNK_BUFFER_LEN" "cs = [] \<longrightarrow> ev_is_zst env c"
    and "of_nat (length (concat (cs @ [c]))) \<le> it_compressed_size item"
  shows "\<exists>u'. upload_software env file_order (chunk_messages h [c] @ ms) u = upload_software env file_order ms u' \<and>
    between_chunks env (si, item) h (cs @ [c]) u' \<and> only_cached (cn_world u) (cn_world u')"
proof -
  from announce_runs [OF assms(1,2)] obtain u1 where u1:
    "announce_chunk (to_le_bytes 8 (of_nat (length c) :: u64) @ h) u = (Done True, u1)"
    "between_chunks env (si, item) h cs (u1\<lparr>up_chunk_info := None\<rparr>)"
    "up_chunk_info u1 = Some \<lparr>ci_len = of_nat (length c), ci_file = h\<rparr>" "only_cached (cn_world u) (cn_world u1)" by blast
  from receive_runs [OF u1(2) _ assms(4-6)] obtain u2 where u2:
    "receive_chunk env item \<lparr>ci_len = of_nat (length c), ci_file = h\<rparr> c u1 = (Done True, u2)"
    "between_chunks env (si, item) h (cs @ [c]) u2" "only_cached (cn_world u1) (cn_world u2)" by auto
  have more: "(of_nat (length cs) :: u64) \<noteq> si_num_chunks si"
  proof
    assume "(of_nat (length cs) :: u64) = si_num_chunks si"
    from unat_of_nat_le [of "length cs", where ?'a = 64, unfolded this] have "unat (si_num_chunks si) \<le> length cs" .
    with assms(3) show False by simp
  qed
  have "upload_message env file_order (to_le_bytes 8 (of_nat (length c) :: u64) @ h) u = Some (Done True, u1)"
    using assms(1) u1(1) more by (simp add: upload_message_def between_chunks_def)
  moreover have "upload_message env file_order c u1 = Some (Done True, u2)"
    using u1(2,3) u2(1) more by (simp add: upload_message_def between_chunks_def)
  ultimately show ?thesis using u2(2,3) u1(4) only_cached_trans [of "cn_world u" "cn_world u1" "cn_world u2"] by auto
qed

lemma chunks_run:
  assumes "between_chunks env (si, item) h cs u" "length h = 32" "length (cs @ ds) \<le> unat (si_num_chunks si)"
    and "\<forall>d \<in> set ds. length d \<le> CHUNK_BUFFER_LEN" "cs @ ds \<noteq> [] \<longrightarrow> ev_is_zst env (hd (cs @ ds))"
    and "length (concat (cs @ ds)) \<le> unat (it_compressed_size item)"
  shows "\<exists>u'. upload_software env file_order (chunk_messages h ds @ ms) u = upload_software env file_order ms u' \<and>
    between_chunks env (si, item) h (cs @ ds) u' \<and> only_cached (cn_world u) (cn_world u')"
  using assms
proof (induction ds arbitrary: cs u)
  case Nil
  then show ?case by auto
next
  case (Cons d ds)
  have "(of_nat (length (concat (cs @ [d]))) :: u64) \<le> it_compressed_size item"
  proof -
    have "length (concat (cs @ [d])) \<le> unat (it_compressed_size item)" using Cons.prems(6) by simp
    then show ?thesis by (rule of_nat_leI)
  qed
  from chunk_runs [OF Cons.prems(1,2) _ _ _ this, of file_order "chunk_messages h ds @ ms"] obtain u1 where u1:
    "upload_software env file_order (chunk_messages h [d] @ chunk_messages h ds @ ms) u =
      upload_software env file_order (chunk_messages h ds @ ms) u1"
    "between_chunks env (si, item) h (cs @ [d]) u1" "only_cached (cn_world u) (cn_world u1)"
    using Cons.prems by (cases cs) auto
  from Cons.IH [OF u1(2)] Cons.prems obtain u2 where
    "upload_software env file_order (chunk_messages h ds @ ms) u1 = upload_software env file_order ms u2"
    "between_chunks env (si, item) h (cs @ d # ds) u2" "only_cached (cn_world u1) (cn_world u2)" by auto
  with u1 show ?case using only_cached_trans [of "cn_world u" "cn_world u1" "cn_world u2"] by auto
qed

text \<open>What makes an offer honest, for an item \<open>i\<close> of a server in state \<open>w\<close>.\<close>

definition honest :: "env \<Rightarrow> offer \<Rightarrow> world \<Rightarrow> u64 \<Rightarrow> item \<Rightarrow> bool" where
  "honest env f w i item \<longleftrightarrow>
    has_session w (of_user f) (of_cookie f) \<and> upload_id_db w (of_upload_id f) = Some i \<and> software_db w i = Some item \<and>
    0 \<notin> set (as_bytes (of_user f)) \<and> 0 \<notin> set (as_bytes (of_cookie f)) \<and> 0 \<notin> set (as_bytes (of_name f)) \<and>
    ev_from_utf8 env (as_bytes (of_user f)) = Some (of_user f) \<and> ev_from_utf8 env (as_bytes (of_cookie f)) = Some (of_cookie f) \<and>
    ev_from_utf8_lossy env (as_bytes (of_name f)) = of_name f \<and>
    length (of_upload_id f) = 32 \<and> length (offer_hash env f) = 32 \<and> length (ev_blake3 env (of_image f)) = 32 \<and>
    of_chunks f \<noteq> [] \<and> length (of_chunks f) \<le> 1280 \<and> (\<forall>c \<in> set (of_chunks f). length c \<le> CHUNK_BUFFER_LEN) \<and>
    ev_is_zst env (hd (of_chunks f)) \<and> length (concat (of_chunks f)) \<le> unat (it_compressed_size item) \<and>
    4 \<le> length (of_image f) \<and> length (of_image f) \<le> 1048576"

text \<open>Nothing is left of earlier uploads: uploads that do not end leave their file in \<open>.cached_files\<close>, and a later upload under
  the same hash appends to it.\<close>

definition nothing_left :: "env \<Rightarrow> offer \<Rightarrow> world \<Rightarrow> bool" where
  "nothing_left env f w \<longleftrightarrow> cached_files w (ev_hex_encode env (offer_hash env f)) = None \<and>
    game_images w (ev_hex_encode env (ev_blake3 env (of_image f))) = None"

definition offer_info :: "env \<Rightarrow> offer \<Rightarrow> software_info" where
  "offer_info env f = \<lparr>si_username = of_user f, si_auth_cookie = of_cookie f, si_upload_id = of_upload_id f,
    si_num_chunks = of_nat (length (of_chunks f)), si_compressed_image_len = of_nat (length (of_image f)),
    si_files = [offer_hash env f \<mapsto> of_name f]\<rparr>"

lemma parse_one_file:
  assumes "length h = 32" "0 \<notin> set name"
  shows "parse_files env (h @ name @ [0]) Map.empty = [h \<mapsto> ev_from_utf8_lossy env name]"
proof -
  obtain b bs where h: "h = b # bs" "length bs = 31" using assms(1) by (cases h) auto
  have "takeWhile (\<lambda>b. b \<noteq> 0) (name @ [0]) = name" using assms(2) by (subst takeWhile_append2) auto
  with h show ?thesis by simp
qed

lemma upload_request_parts:
  assumes "honest env f w i item"
  shows "slice (upload_request env f) 0 8 = Some (to_le_bytes 8 (of_nat (length (of_chunks f)) :: u64))"
    and "position0 (drop 8 (upload_request env f)) = Some (length (of_user f))"
    and "take (length (of_user f)) (drop 8 (upload_request env f)) = as_bytes (of_user f)"
    and "position0 (drop (9 + length (of_user f)) (upload_request env f)) = Some (length (of_cookie f))"
    and "take (length (of_cookie f)) (drop (9 + length (of_user f)) (upload_request env f)) = as_bytes (of_cookie f)"
    and "slice (upload_request env f) (10 + (length (of_cookie f) + length (of_user f))) (42 + (length (of_cookie f) + length (of_user f))) =
      Some (of_upload_id f)"
    and "slice (upload_request env f) (42 + (length (of_cookie f) + length (of_user f))) (46 + (length (of_cookie f) + length (of_user f))) =
      Some (to_le_bytes 4 (of_nat (length (of_image f)) :: u32))"
    and "drop (46 + (length (of_cookie f) + length (of_user f))) (upload_request env f) =
      offer_hash env f @ as_bytes (of_name f) @ [0]"
  using assms by (simp_all add: upload_request_def honest_def slice_def drop_Cons')

lemma start_runs:
  assumes "honest env f w i item" "sled_faults w = []" "io_faults w = []" "0 \<le> clock w"
  shows "start_upload env (upload_request env f) (fresh_upload w) =
    (Done True, (fresh_upload w)\<lparr>up_software_info := Some (offer_info env f, item)\<rparr>)"
proof -
  have chunks: "(of_nat (length (of_chunks f)) :: u64) \<le> MAX_NUM_CHUNKS"
    using assms(1) by (intro of_nat_leI) (simp add: honest_def MAX_NUM_CHUNKS_def)
  have image: "(of_nat (length (of_image f)) :: u32) \<le> MAX_IMAGE_LEN" "4 \<le> (of_nat (length (of_image f)) :: u32)"
  proof -
    have "unat (of_nat (length (of_image f)) :: u32) = length (of_image f)"
      using assms(1) by (simp add: honest_def unsigned_of_nat take_bit_nat_eq_self)
    then show "(of_nat (length (of_image f)) :: u32) \<le> MAX_IMAGE_LEN" "4 \<le> (of_nat (length (of_image f)) :: u32)"
      using assms(1) by (simp_all add: honest_def MAX_IMAGE_LEN_def word_le_nat_alt)
  qed
  have files: "parse_files env (offer_hash env f @ as_bytes (of_name f) @ [0]) Map.empty = [offer_hash env f \<mapsto> of_name f]"
    using assms(1) parse_one_file [of "offer_hash env f" "as_bytes (of_name f)" env] by (simp add: honest_def)
  have same: "w\<lparr>sled_faults := []\<rparr> = w" using assms(2) by (cases w) simp
  have session: "(case cookie_db w (of_user f) of Some ck \<Rightarrow> ac_cookie ck = of_cookie f | None \<Rightarrow> False)"
    using assms(1) by (simp add: honest_def has_session_def)
  have "wp (start_upload env (upload_request env f)) (\<lambda>go_on u'. go_on \<and>
      u' = (fresh_upload w)\<lparr>up_software_info := Some (offer_info env f, item)\<rparr>) (\<lambda>_. False) (fresh_upload w)"
    using assms chunks image files same session upload_request_parts [OF assms(1)]
    by (simp add: start_upload_def ws_control wp_modify Let_def wp_unwrap_opt wp_on_server wp_verify_auth_cookie
      auth_defs(5-) wp_rules honest_def fresh_upload_def offer_info_def not_less)
  from wp_run [OF this] show ?thesis by auto
qed

lemma open_image_runs:
  assumes "between_chunks env info h cs u" "length ih = 32" "game_images (cn_world u) (ev_hex_encode env ih) = None"
  shows "\<exists>u'. open_image env ih u = (Done True, u') \<and> image_open ih (ev_hex_encode env ih) [] u' \<and>
    up_software_info u' = Some info \<and> up_num_chunks u' = of_nat (length cs) \<and> \<not> up_uploaded_image u' \<and>
    up_total_image_size u' = 0 \<and> up_image_hasher u' = [] \<and> quiet (cn_world u) (cn_world u') \<and>
    cached_files (cn_world u') = cached_files (cn_world u)"
proof -
  have "slice ih 0 32 = Some ih" using assms(2) by (simp add: slice_def)
  then have "wp (open_image env ih) (\<lambda>go_on u'. go_on \<and> image_open ih (ev_hex_encode env ih) [] u' \<and>
    up_software_info u' = Some info \<and> up_num_chunks u' = of_nat (length cs) \<and> \<not> up_uploaded_image u' \<and>
    up_total_image_size u' = 0 \<and> up_image_hasher u' = [] \<and> quiet (cn_world u) (cn_world u') \<and>
    cached_files (cn_world u') = cached_files (cn_world u)) (\<lambda>_. False) u"
    using assms by (simp add: open_image_def Let_def wp_rules between_chunks_def image_open_def faultless_def)
  from wp_run [OF this] show ?thesis by auto
qed

lemma check_image_runs:
  assumes "ev_blake3 env (up_image_hasher u) = h"
  shows "check_image env h u = (Done True, u\<lparr>up_uploaded_image := True\<rparr>)"
  using assms by (simp add: check_image_def and_then_def gets_def modify_def ret_def)

text \<open>What a session that nothing fails in leaves alone.\<close>

definition only_published :: "world \<Rightarrow> world \<Rightarrow> bool" where
  "only_published w w' \<longleftrightarrow> game_images w' = game_images w \<and> cookie_db w' = cookie_db w \<and> clock w' = clock w \<and>
    sled_faults w' = [] \<and> io_faults w' = []"

lemma publish_runs:
  assumes "sled_faults w = []" "io_faults w = []" "0 \<le> clock w" "reads_whole env"
    and "cached_files w (ev_hex_encode env h) = Some content" "ev_blake3 env content = h"
    and "si_files si = [h \<mapsto> name]" "file_order [h \<mapsto> name] = [h]"
  shows "\<exists>w'. publish env file_order si item w = (Done False, w') \<and> game_files w' = (game_files w)(ev_hex_encode env h \<mapsto> content) \<and>
    only_published w w' \<and> software_db w' = (software_db w)(it_id item \<mapsto>
      item\<lparr>it_files := [h \<mapsto> name], it_creation_time := Some (of_int (clock w))\<rparr>)"
proof -
  have pieces: "wp (read_pieces ps) Q (\<lambda>_. False) w" if "io_faults w = []" "Q (concat ps) w" for ps Q and w :: world
  proof -
    have "read_pieces ps w = (Done (concat ps), w)"
      using that(1) by (induction ps) (simp_all add: io_call_run ret_run and_then_def)
    with that(2) show ?thesis by (simp add: wp_def)
  qed
  have "wp (publish env file_order si item) (\<lambda>go_on w'. \<not> go_on \<and> game_files w' = (game_files w)(ev_hex_encode env h \<mapsto> content) \<and>
    only_published w w' \<and> software_db w' = (software_db w)(it_id item \<mapsto>
      item\<lparr>it_files := [h \<mapsto> name], it_creation_time := Some (of_int (clock w))\<rparr>)) (\<lambda>_. False) w"
    using assms reads_concat [OF assms(4), of content]
    by (auto simp: only_published_def publish_def publish_file_def remove_cached_def Let_def wp_rules auth_defs(5-) ext [OF wp_ret] intro!: pieces)
  from wp_run [OF this] show ?thesis by auto
qed

lemma honest_run:
  assumes "honest env f w i item" "it_id item = i" "sled_faults w = []" "io_faults w = []" "0 \<le> clock w"
    and "reads_whole env" "file_order [offer_hash env f \<mapsto> of_name f] = [offer_hash env f]" "nothing_left env f w"
  shows "\<exists>u'. upload_software env file_order (honest_messages env f) (fresh_upload w) = Some (Done (), u') \<and>
    software_db (cn_world u') = (software_db w)(i \<mapsto> item\<lparr>it_files := [offer_hash env f \<mapsto> of_name f],
      it_creation_time := Some (of_int (clock w))\<rparr>) \<and>
    game_files (cn_world u') = (game_files w)(ev_hex_encode env (offer_hash env f) \<mapsto> concat (of_chunks f)) \<and>
    game_images (cn_world u') (ev_hex_encode env (ev_blake3 env (of_image f))) = Some (of_image f) \<and>
    cookie_db (cn_world u') = cookie_db w \<and> clock (cn_world u') = clock w \<and> sled_faults (cn_world u') = [] \<and>
    io_faults (cn_world u') = []"
proof -
  let ?h = "offer_hash env f" and ?ih = "ev_blake3 env (of_image f)" and ?si = "offer_info env f" and ?cs = "of_chunks f"
  let ?path = "ev_hex_encode env ?ih" and ?img = "of_image f" and ?run = "upload_software env file_order"
  let ?u0 = "(fresh_upload w)\<lparr>up_software_info := Some (?si, item)\<rparr>"
  note H = assms(1) [unfolded honest_def] assms(8) [unfolded nothing_left_def]
  have nchunks: "unat (si_num_chunks ?si) = length ?cs" and limit: "unat (si_compressed_image_len ?si) = length ?img"
    using H by (simp_all add: offer_info_def unsigned_of_nat take_bit_nat_eq_self)
  have "between_chunks env (?si, item) ?h [] ?u0"
    using assms(3-5) H by (simp add: between_chunks_def fresh_upload_def faultless_def)
  from chunks_run [OF this, of ?cs file_order "[Inr ?ih, Inr ?img, Inr []]"] obtain u1 where u1:
    "?run (chunk_messages ?h ?cs @ [Inr ?ih, Inr ?img, Inr []]) ?u0 = ?run [Inr ?ih, Inr ?img, Inr []] u1"
    "between_chunks env (?si, item) ?h ?cs u1" "quiet (cn_world ?u0) (cn_world u1)"
    "game_images (cn_world u1) = game_images (cn_world ?u0)"
    using H nchunks by (auto simp: only_cached_def)
  have start: "upload_message env file_order (upload_request env f) (fresh_upload w) = Some (Done True, ?u0)"
    using start_runs [OF assms(1,3-5)] by (simp add: upload_message_def fresh_upload_def)
  have images: "game_images (cn_world u1) ?path = None"
    using u1(4) H by (simp add: fresh_upload_def)
  from open_image_runs [OF u1(2) _ images] H obtain u2 where u2: "open_image env ?ih u1 = (Done True, u2)"
    "image_open ?ih ?path [] u2" "up_software_info u2 = Some (?si, item)" "up_num_chunks u2 = of_nat (length ?cs)"
    "\<not> up_uploaded_image u2" "up_total_image_size u2 = 0" "up_image_hasher u2 = []" "quiet (cn_world u1) (cn_world u2)"
    "cached_files (cn_world u2) = cached_files (cn_world u1)" by auto
  have n: "up_num_chunks u1 = si_num_chunks ?si" "up_num_chunks u2 = si_num_chunks ?si"
    using u1(2) u2(4) by (simp_all add: between_chunks_def offer_info_def)
  have msg1: "upload_message env file_order ?ih u1 = Some (Done True, u2)"
    using u1(2) u2(1) n by (simp add: upload_message_def between_chunks_def)
  have img: "?img \<noteq> []" "length ?img < 2 ^ 31" using H by auto
  from image_loop_runs [OF u2(2) img, of "si_compressed_image_len ?si"] limit H obtain k u3 where
    k: "image_loop ?img (si_compressed_image_len ?si) u2 = Some (Done (), u3)"
    and u3: "image_open ?ih ?path ([] @ concat (replicate k ?img)) u3" "image_written ?img k u2 u3"
    and bounds: "length ?img \<le> k * length ?img" "0 < k \<longrightarrow> (k - 1) * length ?img < length ?img"
    using u2(6) by auto
  have "k = 1"
  proof -
    have "0 < k" using bounds(1) img(1) by (cases k) auto
    then have "k - 1 < 1" using bounds(2) img(1) by (metis mult_1 mult_less_cancel2)
    with \<open>0 < k\<close> show ?thesis by simp
  qed
  then have hashed: "up_image_hasher u3 = ?img" using u3(2) u2(7) by (simp add: image_written_def)
  let ?u4 = "u3\<lparr>up_uploaded_image := True\<rparr>"
  have "check_image env ?ih u3 = (Done True, ?u4)" using hashed by (intro check_image_runs) simp
  with k n(2) u2(2,3,5) have msg2: "upload_message env file_order ?img u2 = Some (Done True, ?u4)"
    by (simp add: upload_message_def image_open_def)
  have world: "quiet w (cn_world u3)" "cached_files (cn_world u3) = cached_files (cn_world u1)"
    using u1(3) u2(8,9) u3(2) quiet_trans [of w "cn_world u1" "cn_world u2"] quiet_trans [of w "cn_world u2" "cn_world u3"]
    by (simp_all add: image_written_def calm_def fresh_upload_def)
  have "cached_files (cn_world u3) (ev_hex_encode env ?h) = Some (concat ?cs)"
    using world(2) u1(2) H by (simp add: between_chunks_def)
  from publish_runs [OF _ _ _ assms(6) this, of ?si "of_name f" file_order item] u3(1) assms(7)
  obtain w' where w': "publish env file_order ?si item (cn_world u3) = (Done False, w')"
    "game_files w' = (game_files (cn_world u3))(ev_hex_encode env ?h \<mapsto> concat ?cs)" "only_published (cn_world u3) w'"
    "software_db w' = (software_db (cn_world u3))(it_id item \<mapsto>
      item\<lparr>it_files := [?h \<mapsto> of_name f], it_creation_time := Some (of_int (clock (cn_world u3)))\<rparr>)"
    by (auto simp: offer_hash_def offer_info_def image_open_def faultless_def)
  have "up_software_info u3 = Some (?si, item)" "up_num_chunks u3 = si_num_chunks ?si"
    using u3(2) u2(3) n(2) by (simp_all add: image_written_def calm_def)
  with w'(1) have msg3: "upload_message env file_order [] ?u4 = Some (Done False, ?u4\<lparr>cn_world := w'\<rparr>)"
    by (simp add: upload_message_def on_server_def)
  have "?run (honest_messages env f) (fresh_upload w) = Some (Done (), ?u4\<lparr>cn_world := w'\<rparr>)"
    using start u1(1) msg1 msg2 msg3 by (simp add: honest_messages_def)
  moreover have "game_images w' ?path = Some ?img"
    using u3(1) w'(3) \<open>k = 1\<close> by (simp add: image_open_def only_published_def)
  ultimately show ?thesis
    using w' quiet_keeps [OF world(1)] assms(2) by (simp add: only_published_def)
qed


text \<open>A user who can ask for a download: logged in, with a cookie of 50 characters.\<close>

definition reader :: "env \<Rightarrow> world \<Rightarrow> string \<Rightarrow> string \<Rightarrow> bool" where
  "reader env w u k \<longleftrightarrow> has_session w u k \<and> 0 \<notin> set (as_bytes u) \<and> length k = 50 \<and>
    ev_from_utf8 env (as_bytes u) = Some u \<and> ev_from_utf8 env (as_bytes k) = Some k"

text \<open>
  C10: An honest upload gets published, and can be downloaded as it was. If no call fails, if no other session is active on the
  file, and if nothing is left of earlier uploads (no file under its hash in \<open>.cached_files\<close>, where uploads that broke off
  leave theirs, and no title image under the image's hash), a logged-in client with an upload id who sends one file in
  chunks (at most 1280 of them, each in one message of at most 65535 bytes, which is what the code accepts although a
  comment says 8192; in total at most the size of the item, which a comment wants to be met exactly; the first one
  recognised as zst), the title image of 4 bytes to 1 MiB in one message, and one message more, ends with the item published
  under its id with exactly this file, the file's content stored under its hash and the image under its own; the image hash
  of the item stays what it was. A user with a session who then asks for the item is answered, and puts together from the
  frames exactly this file: its hash, its name and its content.
\<close>

theorem honest_upload_publishes:
  assumes "honest env f w i item" "it_id item = i" "sled_faults w = []" "io_faults w = []" "0 \<le> clock w"
    and "reads_whole env" "file_order [offer_hash env f \<mapsto> of_name f] = [offer_hash env f]" "nothing_left env f w"
    and "reader env w v k"
  shows "\<exists>u' c'. upload_software env file_order (honest_messages env f) (fresh_upload w) = Some (Done (), u') \<and>
    software_db (cn_world u') = (software_db w)(i \<mapsto> item\<lparr>it_files := [offer_hash env f \<mapsto> of_name f],
      it_creation_time := Some (of_int (clock w))\<rparr>) \<and>
    game_files (cn_world u') = (game_files w)(ev_hex_encode env (offer_hash env f) \<mapsto> concat (of_chunks f)) \<and>
    game_images (cn_world u') (ev_hex_encode env (ev_blake3 env (of_image f))) = Some (of_image f) \<and>
    download_message env file_order (download_request v k i) (connected (cn_world u')) = (Done True, c') \<and>
    rebuild (cn_sent c') = [(offer_hash env f, as_bytes (of_name f), concat (of_chunks f))]"
proof -
  let ?h = "offer_hash env f"
  from honest_run [where file_order = file_order, OF assms(1-8)] obtain u' where
    run: "upload_software env file_order (honest_messages env f) (fresh_upload w) = Some (Done (), u')" and
    db: "software_db (cn_world u') = (software_db w)(i \<mapsto> item\<lparr>it_files := [?h \<mapsto> of_name f],
      it_creation_time := Some (of_int (clock w))\<rparr>)" and
    files: "game_files (cn_world u') = (game_files w)(ev_hex_encode env ?h \<mapsto> concat (of_chunks f))" and
    image: "game_images (cn_world u') (ev_hex_encode env (ev_blake3 env (of_image f))) = Some (of_image f)" and
    rest: "cookie_db (cn_world u') = cookie_db w" "clock (cn_world u') = clock w" "sled_faults (cn_world u') = []"
      "io_faults (cn_world u') = []" by blast
  have "length (concat (of_chunks f)) \<le> unat (it_compressed_size item)" using assms(1) by (simp add: honest_def)
  also have "\<dots> < 2 ^ 64" using unsigned_less [of "it_compressed_size item", where ?'a = nat] by simp
  finally have servable: "servable env (cn_world u') (?h, of_name f)"
    using assms(1) files by (simp add: servable_def honest_def)
  have r: "0 \<notin> set (as_bytes v)" "length k = 50" "ev_from_utf8 env (as_bytes v) = Some v" "ev_from_utf8 env (as_bytes k) = Some k"
    "has_session (cn_world u') v k" using assms(9) rest(1) by (simp_all add: reader_def has_session_def)
  have c: "faultless (connected (cn_world u'))" "cn_sent (connected (cn_world u')) = []" "cn_world (connected (cn_world u')) = cn_world u'"
    using assms(5) rest by (simp_all add: connected_def faultless_def)
  let ?it = "item\<lparr>it_files := [?h \<mapsto> of_name f], it_creation_time := Some (of_int (clock w) :: u64)\<rparr>"
  have it: "software_db (cn_world (connected (cn_world u'))) i = Some ?it" by (simp add: c(3) db)
  have entry: "entries (file_order (it_files ?it)) (it_files ?it) = [(?h, of_name f)]" using assms(7) by simp
  have session: "has_session (cn_world (connected (cn_world u'))) v k" using r(5) by (simp add: c(3))
  have all: "\<forall>x \<in> set (entries (file_order (it_files ?it)) (it_files ?it)). servable env (cn_world (connected (cn_world u'))) x"
    unfolding entry c(3) using servable by simp
  from download_rebuilds [where file_order = file_order, OF c(1,2) assms(6) r(1-4) session it all]
  obtain c' where "download_message env file_order (download_request v k i) (connected (cn_world u')) = (Done True, c')"
    "rebuild (cn_sent c') = [original env (cn_world u') (?h, of_name f)]" unfolding entry c(3) by auto
  with run db files image show ?thesis by (auto simp: original_def)
qed

subsection \<open>An example\<close>

text \<open>Alice uploads a game of two chunks for the unpublished item 5.\<close>

definition alice_offer :: offer where
  "alice_offer = \<lparr>of_user = ''alice'', of_cookie = alice_cookie, of_upload_id = replicate 32 9, of_name = ''a.zst'',
    of_chunks = [[40, 1], [2, 3]], of_image = [1, 2, 3, 4]\<rparr>"

definition unpublished :: item where
  "unpublished = example_item 5 ''chess''\<lparr>it_creation_time := None\<rparr>"

definition offer_world :: world where
  "offer_world = game_world\<lparr>software_db := [5 \<mapsto> unpublished], upload_id_db := [replicate 32 9 \<mapsto> 5],
    current_software_id := 6, game_files := Map.empty\<rparr>"

text \<open>Files in the order of their hashes.\<close>

definition by_hash :: "(bytes \<rightharpoonup> string) \<Rightarrow> bytes list" where
  "by_hash m = sorted_list_of_set (dom m)"

lemma by_hash_all: "iterates_all by_hash"
  by (simp add: iterates_all_def by_hash_def)

lemma by_hash_one [simp]: "by_hash [h \<mapsto> n] = [h]"
  by (simp add: by_hash_def)

lemma lossy_example [simp]: "ev_from_utf8_lossy example_env (as_bytes s) = s"
  by (simp add: example_env_def as_bytes_def of_char_u8 o_def)

lemma as_bytes_example: "as_bytes (ev_from_utf8_lossy example_env b) = b"
proof -
  have "(of_char (char_of (unat x) :: char) :: u8) = x" for x :: u8
  proof -
    have "unat x < 2 ^ LENGTH(8)" by (rule unsigned_less)
    then have "unat x < 256" by simp
    then have "unat (of_char (char_of (unat x) :: char) :: u8) = unat x" by (simp add: of_char_u8 of_char_of)
    then show ?thesis by (rule unsigned_word_eqI)
  qed
  then show ?thesis by (simp add: example_env_def as_bytes_def o_def)
qed

lemma lossy_ok_example: "lossy_ok example_env"
  by (simp add: lossy_ok_def as_bytes_example)

lemma inj_hex_example: "inj (ev_hex_encode example_env)"
proof (rule injI)
  fix a b assume "ev_hex_encode example_env a = ev_hex_encode example_env b"
  then have "ev_from_utf8_lossy example_env (a @ a) = ev_from_utf8_lossy example_env (b @ b)"
    by (simp add: example_env_def)
  then have "a @ a = b @ b" by (metis as_bytes_example)
  then show "a = b" by (metis append_eq_append_conv_if append_take_drop_id length_append mult_2 mult_left_cancel
    zero_neq_numeral append_eq_append_conv)
qed

lemma alice_hash: "offer_hash example_env alice_offer = [40, 1, 2, 3] @ replicate 28 0"
  by (simp add: offer_hash_def alice_offer_def example_env_def numeral_eq_Suc)

lemma alice_image_hash: "ev_blake3 example_env [1, 2, 3, 4] = [1, 2, 3, 4] @ replicate 28 0"
  by (simp add: example_env_def numeral_eq_Suc)

lemma alice_first_zst: "ev_is_zst example_env [40, 1]"
  by (simp add: example_env_def)

lemma alice_honest: "honest example_env alice_offer offer_world 5 unpublished"
  using game_world_facts(2) alice_first_zst alice_image_hash unfolding honest_def alice_hash
  by (simp add: alice_offer_def offer_world_def game_world_def as_bytes_zero alice_cookie_def has_session_def
      CHUNK_BUFFER_LEN_def unpublished_def example_item_def catalogue_def empty_world_def)

lemma alice_finds_nothing: "nothing_left example_env alice_offer offer_world" "reader example_env offer_world ''alice'' alice_cookie"
  using game_world_facts(2)
  by (simp_all add: nothing_left_def reader_def offer_world_def game_world_def catalogue_def empty_world_def has_session_def
      as_bytes_zero alice_cookie_def)

lemma offer_world_clean: "sled_faults offer_world = []" "io_faults offer_world = []" "0 \<le> clock offer_world"
  "it_id unpublished = 5"
  by (simp_all add: offer_world_def game_world_def catalogue_def empty_world_def unpublished_def example_item_def)

theorem honest_upload_publishes_witness:
  "\<exists>u' c'. upload_software example_env by_hash (honest_messages example_env alice_offer) (fresh_upload offer_world) =
      Some (Done (), u') \<and>
    game_files (cn_world u') (ev_hex_encode example_env (offer_hash example_env alice_offer)) = Some [40, 1, 2, 3] \<and>
    download_message example_env by_hash (download_request ''alice'' alice_cookie 5) (connected (cn_world u')) = (Done True, c') \<and>
    rebuild (cn_sent c') = [(offer_hash example_env alice_offer, as_bytes ''a.zst'', [40, 1, 2, 3])]"
  using honest_upload_publishes [where file_order = by_hash, OF alice_honest offer_world_clean(4,1-3) example_reads_whole _ alice_finds_nothing]
  by (fastforce simp: alice_offer_def)

lemma offer_world_inv: "store_inv example_env offer_world"
  by (simp add: store_inv_def content_addressed_def published_ok_def listing_inv_def listing_ok_def offer_world_def
      unpublished_def example_item_def)

lemma uploads_keep_store_example:
  "\<exists>r u'. upload_software example_env by_hash (honest_messages example_env alice_offer) (fresh_upload offer_world) =
    Some (r, u') \<and> store_inv example_env (cn_world u')"
proof -
  obtain u' where "upload_software example_env by_hash (honest_messages example_env alice_offer) (fresh_upload offer_world) =
      Some (Done (), u')"
    using honest_run [where file_order = by_hash, OF alice_honest offer_world_clean(4,1-3) example_reads_whole _ alice_finds_nothing(1)] by auto
  from uploads_keep_store [OF example_reads_whole lossy_ok_example by_hash_all offer_world_inv this] this
  show ?thesis by blast
qed

definition shelf_world :: world where
  "shelf_world = offer_world\<lparr>
    software_db := [5 \<mapsto> unpublished\<lparr>it_files := [offer_hash example_env alice_offer \<mapsto> ''a.zst''], it_creation_time := Some 9\<rparr>],
    game_files := [ev_hex_encode example_env (offer_hash example_env alice_offer) \<mapsto> [40, 1, 2, 3]]\<rparr>"

lemma shelf_world_inv: "store_inv example_env shelf_world"
proof -
  have "ev_blake3 example_env [40, 1, 2, 3] = offer_hash example_env alice_offer"
    by (simp add: offer_hash_def alice_offer_def)
  moreover have "length (offer_hash example_env alice_offer) = 32" by (simp add: alice_hash)
  ultimately show ?thesis
    by (simp add: store_inv_def content_addressed_def published_ok_def listing_inv_def listing_ok_def shelf_world_def
      offer_world_def unpublished_def example_item_def files_ok_def as_bytes_zero)
qed

lemma stored_is_servable_example:
  "servable example_env shelf_world (offer_hash example_env alice_offer, ''a.zst'')"
  using stored_is_servable [OF shelf_world_inv, of 5 _ "offer_hash example_env alice_offer" "''a.zst''"] inj_hex_example
  by (simp add: shelf_world_def)


lemma upload_start_checked_example:
  "started offer_world (offer_info example_env alice_offer, unpublished)"
  using upload_start_checked [of "fresh_upload offer_world" example_env by_hash "upload_request example_env alice_offer"]
    start_runs [OF alice_honest offer_world_clean(1-3)]
  by (simp add: upload_message_def fresh_upload_def)

definition mid_chunk :: uploading where
  "mid_chunk = (fresh_upload offer_world)\<lparr>up_software_info := Some (offer_info example_env alice_offer, unpublished),
    up_chunk_info := Some \<lparr>ci_len = 4, ci_file = game_hash\<rparr>\<rparr>"

lemma split_chunk_panics_example:
  "\<exists>u'. upload_software example_env by_hash [Inr [40, 1], Inr [2, 3]] mid_chunk = Some (Panic, u')"
  by (rule split_chunk_panics [of _ "offer_info example_env alice_offer" unpublished "\<lparr>ci_len = 4, ci_file = game_hash\<rparr>"])
    (simp_all add: mid_chunk_def fresh_upload_def offer_info_def alice_offer_def CHUNK_BUFFER_LEN_def unpublished_def
      example_item_def)

theorem empty_image_message_hangs_witness: "image_loop [] 10 (fresh_upload empty_world) = None"
  by (rule empty_image_message_hangs) (simp_all add: fresh_upload_def empty_world_def)

definition image_expected :: uploading where
  "image_expected = (fresh_upload (empty_world\<lparr>game_images := [''i'' \<mapsto> []]\<rparr>))\<lparr>up_image_hash_info := Some ([], Some (''i'', 0))\<rparr>"

lemma image_message_repeated_example:
  "\<exists>k u'. image_loop [7, 8] 4 image_expected = Some (Done (), u') \<and> up_image_hasher u' = concat (replicate k [7, 8]) \<and>
    (k - 1) * 2 < 4 \<and> 4 \<le> k * 2"
proof -
  have "image_open [] ''i'' [] image_expected"
    by (simp add: image_open_def image_expected_def fresh_upload_def faultless_def empty_world_def)
  from image_message_repeated [OF this, of "[7, 8]" 4] show ?thesis
    by (fastforce simp: image_expected_def fresh_upload_def)
qed

end
