(* ===== verification/Routes.thy ===== *)
theory Routes
  imports Captcha Money_Handlers Software Search
begin

section \<open>The routes of the server: the filters of src/main.rs\<close>

text \<open>
  Which handler a request reaches, and with what. A filter of warp either takes a request, yielding what
  the handler is called with, or does not. The primitive filters of warp, and the decoding of the JSON
  bodies, are the record \<open>warp\<close>; the composed filters and their order are those of \<open>main\<close>.
\<close>

subsection \<open>Requests\<close>

text \<open>A request that reached a handler, by its route, with the body or the path parameter.\<close>

datatype http_request =
    Post_signup auth_request
  | Post_login auth_request
  | Post_deposit_req authorized_req
  | Post_attach_xmr_address attach_xmr_address_req
  | Post_get_balance authorized_req
  | Post_withdraw_xmr withdraw_monero_req
  | Post_server_profits authorized_req
  | Post_new_software create_software_req
  | Post_search_software search_software_req
  | Get_create_captcha
  | Get_view_captcha string
  | Get_view_software_image string

text \<open>What is outside of the server when it runs a handler: the random salt, cookie and bytes, the captcha drawn,
  an error of the file system, and the orders in which sled visits users and items.\<close>

record draws =
  dr_salt :: bytes
  dr_cookie :: string
  dr_random_bytes :: bytes
  dr_captcha :: "(string \<times> bytes) option"
  dr_open_error :: "string option"
  dr_users :: "string list"
  dr_items :: "u64 list"

text \<open>The handler of a route; the status it answers with.\<close>

fun serve ::
    "env \<Rightarrow> ('v, 'h, 'b, 'tx) wallet \<Rightarrow> draws \<Rightarrow> ip_addr option \<Rightarrow> http_request \<Rightarrow> (world, status) eff" where
  "serve env wallet d ip (Post_signup r) =
     and_then (register env wallet (dr_salt d) (dr_cookie d) r ip) (\<lambda>resp. ret (rs_status resp))"
| "serve env wallet d ip (Post_login r) =
     and_then (login env (dr_cookie d) r ip) (\<lambda>resp. ret (rs_status resp))"
| "serve env wallet d ip (Post_deposit_req r) =
     and_then (deposit_req env wallet ip r) (\<lambda>resp. ret (rs_status resp))"
| "serve env wallet d ip (Post_attach_xmr_address r) =
     and_then (attach_xmr_address env ip r) (\<lambda>resp. ret (rs_status resp))"
| "serve env wallet d ip (Post_get_balance r) =
     and_then (get_balance ip r) (\<lambda>resp. ret (rs_status resp))"
| "serve env wallet d ip (Post_withdraw_xmr r) =
     and_then (withdraw_monero wallet ip r) (\<lambda>resp. ret (rs_status resp))"
| "serve env wallet d ip (Post_server_profits r) =
     and_then (server_profits wallet (dr_users d) r) (\<lambda>_. ret OK)"
| "serve env wallet d ip (Post_new_software r) =
     and_then (new_software env (dr_random_bytes d) r) (\<lambda>resp. ret (rs_status resp))"
| "serve env wallet d ip (Post_search_software r) =
     and_then (search_software env (dr_items d) r) (\<lambda>resp. ret (rs_status resp))"
| "serve env wallet d ip Get_create_captcha =
     and_then (create_captcha env (dr_captcha d)) (\<lambda>resp. ret (rs_status resp))"
| "serve env wallet d ip (Get_view_captcha h) =
     and_then (view_captcha env h) (\<lambda>resp. ret (ir_status resp))"
| "serve env wallet d ip (Get_view_software_image p) =
     and_then (view_software_image env (dr_open_error d) p ip) (\<lambda>resp. ret (rs_status resp))"

subsection \<open>Filters\<close>

type_synonym ('h, 'a) filter = "'h \<Rightarrow> 'a option"

text \<open>The primitive filters: \<open>warp::post\<close>, \<open>get\<close> and \<open>ws\<close>, \<open>path(..)\<close>, \<open>path!(.. / String)\<close>,
  \<open>body::content_length_limit\<close>, and \<open>body::json\<close> at the six request types.\<close>

record 'h warp =
  wa_post :: "('h, unit) filter"
  wa_get :: "('h, unit) filter"
  wa_ws :: "('h, unit) filter"
  wa_path :: "string \<Rightarrow> ('h, unit) filter"
  wa_path_string :: "string \<Rightarrow> ('h, string) filter"
  wa_content_length_limit :: "nat \<Rightarrow> ('h, unit) filter"
  wa_json_auth :: "('h, auth_request) filter"
  wa_json_authorized :: "('h, authorized_req) filter"
  wa_json_attach :: "('h, attach_xmr_address_req) filter"
  wa_json_withdraw :: "('h, withdraw_monero_req) filter"
  wa_json_software :: "('h, create_software_req) filter"
  wa_json_search :: "('h, search_software_req) filter"

text \<open>\<open>and\<close> after a filter that yields nothing, \<open>or\<close>, and \<open>map\<close>.\<close>

definition filter_and :: "('h, unit) filter \<Rightarrow> ('h, 'a) filter \<Rightarrow> ('h, 'a) filter" where
  "filter_and f g = (\<lambda>h. case f h of None \<Rightarrow> None | Some _ \<Rightarrow> g h)"

definition filter_or :: "('h, 'a) filter \<Rightarrow> ('h, 'a) filter \<Rightarrow> ('h, 'a) filter" where
  "filter_or f g = (\<lambda>h. case f h of None \<Rightarrow> g h | Some a \<Rightarrow> Some a)"

definition filter_map :: "('a \<Rightarrow> 'b) \<Rightarrow> ('h, 'a) filter \<Rightarrow> ('h, 'b) filter" where
  "filter_map k f = (\<lambda>h. map_option k (f h))"

text \<open>A route with a JSON body of at most 2048 bytes.\<close>

definition body_route :: "'h warp \<Rightarrow> string \<Rightarrow> ('h, 'a) filter \<Rightarrow> ('a \<Rightarrow> http_request) \<Rightarrow> ('h, http_request) filter" where
  "body_route W name json handler = filter_map handler
     (filter_and (wa_path W name) (filter_and (wa_content_length_limit W 2048) json))"

definition post_routes :: "'h warp \<Rightarrow> ('h, http_request) filter" where
  "post_routes W =
     (let register = body_route W ''signup'' (wa_json_auth W) Post_signup;
          login = body_route W ''login'' (wa_json_auth W) Post_login;
          deposit_req = body_route W ''deposit_req'' (wa_json_authorized W) Post_deposit_req;
          get_balance = body_route W ''get_balance'' (wa_json_authorized W) Post_get_balance;
          server_profits = body_route W ''server_profits'' (wa_json_authorized W) Post_server_profits;
          attach_xmr_address = body_route W ''attach_xmr_address'' (wa_json_attach W) Post_attach_xmr_address;
          withdraw_monero = body_route W ''withdraw_xmr'' (wa_json_withdraw W) Post_withdraw_xmr;
          new_software = body_route W ''new_software'' (wa_json_software W) Post_new_software;
          search_software = body_route W ''search_software'' (wa_json_search W) Post_search_software
      in filter_and (wa_post W)
        (filter_or (filter_or (filter_or (filter_or (filter_or (filter_or (filter_or (filter_or register
           login) deposit_req) attach_xmr_address) get_balance) withdraw_monero) server_profits) new_software)
           search_software))"

definition get_routes :: "'h warp \<Rightarrow> ('h, http_request) filter" where
  "get_routes W =
     (let create_captcha = filter_map (\<lambda>_. Get_create_captcha) (wa_path W ''create_captcha'');
          view_captcha = filter_map Get_view_captcha (wa_path_string W ''view_captcha'');
          view_software_image = filter_map Get_view_software_image (wa_path_string W ''view_software_image'')
      in filter_and (wa_get W) (filter_or (filter_or create_captcha view_captcha) view_software_image))"

text \<open>The two websocket routes have no filter on the method of their own.\<close>

datatype route_match = Handle http_request | Upload_session | Download_session

definition ws_route :: "'h warp \<Rightarrow> string \<Rightarrow> route_match \<Rightarrow> ('h, route_match) filter" where
  "ws_route W name session = filter_map (\<lambda>_. session) (filter_and (wa_path W name) (wa_ws W))"

definition routes :: "'h warp \<Rightarrow> ('h, route_match) filter" where
  "routes W = filter_or (filter_or (filter_or (filter_map Handle (post_routes W))
     (ws_route W ''upload_software'' Upload_session)) (ws_route W ''download_software'' Download_session))
     (filter_map Handle (get_routes W))"

text \<open>A request no route takes is answered by \<open>handle_rejection\<close>, with what warp says about it.\<close>

definition answer_to :: "'h warp \<Rightarrow> ('h \<Rightarrow> rejection) \<Rightarrow> 'h \<Rightarrow> route_match + error_message \<times> status" where
  "answer_to W reject h = (case routes W h of Some a \<Rightarrow> Inl a | None \<Rightarrow> Inr (handle_rejection (reject h)))"

subsection \<open>The order of the routes does not matter\<close>

definition takes :: "('h, 'a) filter \<Rightarrow> 'h \<Rightarrow> bool" where
  "takes f h \<longleftrightarrow> f h \<noteq> None"

text \<open>Documented behaviour of the primitive filters: a request has one method and one first path segment,
  and a websocket is opened by a GET request.\<close>

definition warp_ok :: "'h warp \<Rightarrow> bool" where
  "warp_ok W \<longleftrightarrow> (\<exists>first_segment. (\<forall>h n. takes (wa_path W n) h \<longrightarrow> first_segment h = Some n) \<and>
    (\<forall>h n. takes (wa_path_string W n) h \<longrightarrow> first_segment h = Some n)) \<and>
    (\<forall>h. \<not> (takes (wa_post W) h \<and> takes (wa_get W) h)) \<and> (\<forall>h. takes (wa_ws W) h \<longrightarrow> takes (wa_get W) h)"

text \<open>Which route a request belongs to, each on its own: the method, the path, and the size of the body.\<close>

definition small_post :: "'h warp \<Rightarrow> string \<Rightarrow> ('h, 'a) filter \<Rightarrow> 'h \<Rightarrow> 'a \<Rightarrow> bool" where
  "small_post W name json h r \<longleftrightarrow> takes (wa_post W) h \<and> takes (wa_path W name) h \<and>
    takes (wa_content_length_limit W 2048) h \<and> json h = Some r"

fun belongs :: "'h warp \<Rightarrow> 'h \<Rightarrow> route_match \<Rightarrow> bool" where
  "belongs W h (Handle (Post_signup r)) = small_post W ''signup'' (wa_json_auth W) h r"
| "belongs W h (Handle (Post_login r)) = small_post W ''login'' (wa_json_auth W) h r"
| "belongs W h (Handle (Post_deposit_req r)) = small_post W ''deposit_req'' (wa_json_authorized W) h r"
| "belongs W h (Handle (Post_attach_xmr_address r)) = small_post W ''attach_xmr_address'' (wa_json_attach W) h r"
| "belongs W h (Handle (Post_get_balance r)) = small_post W ''get_balance'' (wa_json_authorized W) h r"
| "belongs W h (Handle (Post_withdraw_xmr r)) = small_post W ''withdraw_xmr'' (wa_json_withdraw W) h r"
| "belongs W h (Handle (Post_server_profits r)) = small_post W ''server_profits'' (wa_json_authorized W) h r"
| "belongs W h (Handle (Post_new_software r)) = small_post W ''new_software'' (wa_json_software W) h r"
| "belongs W h (Handle (Post_search_software r)) = small_post W ''search_software'' (wa_json_search W) h r"
| "belongs W h (Handle Get_create_captcha) = (takes (wa_get W) h \<and> takes (wa_path W ''create_captcha'') h)"
| "belongs W h (Handle (Get_view_captcha p)) = (takes (wa_get W) h \<and> wa_path_string W ''view_captcha'' h = Some p)"
| "belongs W h (Handle (Get_view_software_image p)) =
     (takes (wa_get W) h \<and> wa_path_string W ''view_software_image'' h = Some p)"
| "belongs W h Upload_session = (takes (wa_ws W) h \<and> takes (wa_path W ''upload_software'') h)"
| "belongs W h Download_session = (takes (wa_ws W) h \<and> takes (wa_path W ''download_software'') h)"

lemma takes_simps [simp]:
  "takes (filter_or f g) h \<longleftrightarrow> takes f h \<or> takes g h"
  "takes (filter_and p f) h \<longleftrightarrow> takes p h \<and> takes f h"
  "takes (filter_map k f) h \<longleftrightarrow> takes f h"
  by (auto simp: takes_def filter_or_def filter_and_def filter_map_def split: option.split)

lemma takes_Some: "f h = Some a \<Longrightarrow> takes f h"
  by (simp add: takes_def)

text \<open>What a composed filter yields comes from one of its parts.\<close>

lemma filter_yields:
  "filter_or f g h = Some a \<Longrightarrow> f h = Some a \<or> g h = Some a"
  "filter_and p f h = Some a \<Longrightarrow> takes p h \<and> f h = Some a"
  "filter_map k f h = Some b \<Longrightarrow> \<exists>a. f h = Some a \<and> b = k a"
  by (auto simp: takes_def filter_or_def filter_and_def filter_map_def split: option.splits)

text \<open>The first path segment of each route.\<close>

fun segment :: "route_match \<Rightarrow> string" where
  "segment (Handle (Post_signup r)) = ''signup''"
| "segment (Handle (Post_login r)) = ''login''"
| "segment (Handle (Post_deposit_req r)) = ''deposit_req''"
| "segment (Handle (Post_attach_xmr_address r)) = ''attach_xmr_address''"
| "segment (Handle (Post_get_balance r)) = ''get_balance''"
| "segment (Handle (Post_withdraw_xmr r)) = ''withdraw_xmr''"
| "segment (Handle (Post_server_profits r)) = ''server_profits''"
| "segment (Handle (Post_new_software r)) = ''new_software''"
| "segment (Handle (Post_search_software r)) = ''search_software''"
| "segment (Handle Get_create_captcha) = ''create_captcha''"
| "segment (Handle (Get_view_captcha p)) = ''view_captcha''"
| "segment (Handle (Get_view_software_image p)) = ''view_software_image''"
| "segment Upload_session = ''upload_software''"
| "segment Download_session = ''download_software''"

lemma belongs_segment:
  assumes "\<forall>h n. takes (wa_path W n) h \<longrightarrow> first_segment h = Some n"
    "\<forall>h n. takes (wa_path_string W n) h \<longrightarrow> first_segment h = Some n"
    and "belongs W h a"
  shows "first_segment h = Some (segment a)"
  using assms by (cases a rule: segment.cases) (simp_all add: small_post_def takes_Some)

lemma belongs_functional:
  "segment a = segment b \<Longrightarrow> belongs W h a \<Longrightarrow> belongs W h b \<Longrightarrow> a = b"
  by (cases a rule: segment.cases; cases b rule: segment.cases) (simp_all add: small_post_def)

lemma belongs_unique:
  assumes "warp_ok W" "belongs W h a" "belongs W h b"
  shows "a = b"
proof -
  obtain first_segment where "\<forall>h n. takes (wa_path W n) h \<longrightarrow> first_segment h = Some n"
    "\<forall>h n. takes (wa_path_string W n) h \<longrightarrow> first_segment h = Some n"
    using assms(1) by (auto simp: warp_ok_def)
  from belongs_segment [OF this assms(2)] belongs_segment [OF this assms(3)] have "segment a = segment b" by simp
  then show ?thesis using assms(2,3) by (rule belongs_functional)
qed

lemmas route_defs = routes_def post_routes_def get_routes_def ws_route_def body_route_def Let_def

lemma body_route_yields:
  "body_route W n json k h = Some q \<Longrightarrow> takes (wa_post W) h \<Longrightarrow> \<exists>r. q = k r \<and> small_post W n json h r"
  unfolding body_route_def small_post_def by (auto dest!: filter_yields)

lemma post_routes_sound:
  assumes "post_routes W h = Some q"
  shows "belongs W h (Handle q)"
proof -
  note yields = filter_yields(2) [OF assms [unfolded post_routes_def Let_def]]
  then have post: "takes (wa_post W) h" by blast
  from yields [THEN conjunct2] show ?thesis
    by (auto dest!: filter_yields(1) body_route_yields [OF _ post])
qed

lemma get_routes_sound: "get_routes W h = Some q \<Longrightarrow> belongs W h (Handle q)"
  unfolding get_routes_def Let_def by (auto dest!: filter_yields simp: takes_def)

lemma routes_sound: "routes W h = Some a \<Longrightarrow> belongs W h a"
  unfolding routes_def ws_route_def
  by (auto dest!: filter_yields intro: post_routes_sound get_routes_sound simp: takes_Some)

lemma small_post_taken:
  assumes "small_post W n json h r"
  shows "takes (wa_post W) h" "takes (body_route W n json k) h"
  using assms by (simp_all add: small_post_def body_route_def takes_def filter_and_def filter_map_def)

lemma routes_complete:
  assumes "belongs W h a"
  shows "takes (routes W) h"
proof (cases a)
  case (Handle q)
  have "takes (post_routes W) h \<or> takes (get_routes W) h"
    using assms unfolding Handle post_routes_def get_routes_def Let_def takes_simps
    by (cases q) (auto dest: small_post_taken takes_Some)
  then show ?thesis by (auto simp: routes_def)
qed (use assms in \<open>auto simp: routes_def ws_route_def\<close>)

text \<open>
  C31: The routes are unambiguous: for every way warp's primitive filters may behave in which a request has one method
  and one first path segment, the composed filters of the server, tried in their order, take a request for
  a handler exactly if it belongs to that handler's route on its own (its method, its path, a body of at
  most 2048 bytes that decodes). So the order of the routes does not matter, and no route hides another.
\<close>

theorem routes_decide:
  assumes "warp_ok W"
  shows "routes W h = Some a \<longleftrightarrow> belongs W h a"
proof
  assume a: "belongs W h a"
  obtain b where b: "routes W h = Some b"
    using routes_complete [OF a] by (auto simp: takes_def)
  show "routes W h = Some a"
    using b belongs_unique [OF assms a routes_sound [OF b]] by simp
qed (rule routes_sound)

text \<open>A toy warp: a request is its method, its path segments and the length of its body.\<close>

definition example_warp :: "(string \<times> string list \<times> nat) warp" where
  "example_warp = \<lparr>
    wa_post = (\<lambda>(m, p, n). if m = ''POST'' then Some () else None),
    wa_get = (\<lambda>(m, p, n). if m = ''GET'' then Some () else None),
    wa_ws = (\<lambda>(m, p, n). if m = ''GET'' \<and> n = 0 then Some () else None),
    wa_path = (\<lambda>name (m, p, n). if p \<noteq> [] \<and> hd p = name then Some () else None),
    wa_path_string = (\<lambda>name (m, p, n). if length p = 2 \<and> hd p = name then Some (last p) else None),
    wa_content_length_limit = (\<lambda>k (m, p, n). if n \<le> k then Some () else None),
    wa_json_auth = (\<lambda>_. None),
    wa_json_authorized = (\<lambda>_. Some \<lparr>az_username = ''alice'', az_auth_cookie = ''cookie''\<rparr>),
    wa_json_attach = (\<lambda>_. None), wa_json_withdraw = (\<lambda>_. None), wa_json_software = (\<lambda>_. None),
    wa_json_search = (\<lambda>_. None)\<rparr>"

theorem routes_decide_witness:
  "routes example_warp (''POST'', [''get_balance''], 60) =
      Some (Handle (Post_get_balance \<lparr>az_username = ''alice'', az_auth_cookie = ''cookie''\<rparr>))"
proof -
  have "warp_ok example_warp"
    unfolding warp_ok_def by (intro conjI exI [of _ "\<lambda>(m, p, n). if p = [] then None else Some (hd p)"])
      (auto simp: example_warp_def takes_def)
  then show ?thesis
    by (rule routes_decide [THEN iffD2]) (simp add: small_post_def takes_def example_warp_def)
qed

text \<open>
  A body over 2048 bytes reaches no handler, and the client is told of a server error: no POST route takes the
  request, and unless warp reports it as not found, undecodable or of the wrong method, the answer is 500.
\<close>

lemma large_body_server_error:
  assumes "wa_content_length_limit W 2048 h = None" "wa_get W h = None" "wa_ws W h = None"
    and "\<not> rj_not_found (reject h)" "rj_body_error (reject h) = None" "\<not> rj_method_not_allowed (reject h)"
  shows "\<exists>msg. answer_to W reject h = Inr (msg, INTERNAL_SERVER_ERROR)"
proof -
  have "\<not> belongs W h a" for a
    using assms(1-3) by (cases a rule: segment.cases) (simp_all add: small_post_def takes_def)
  then have "routes W h = None" using routes_sound [of W h] by (cases "routes W h") auto
  with assms(4-6) show ?thesis by (simp add: answer_to_def handle_rejection_def)
qed

lemma large_body_server_error_example:
  "\<exists>msg. answer_to example_warp (\<lambda>_. \<lparr>rj_not_found = False, rj_body_error = None, rj_method_not_allowed = False\<rparr>)
    (''POST'', [''get_balance''], 4000) = Inr (msg, INTERNAL_SERVER_ERROR)"
  by (rule large_body_server_error) (simp_all add: example_warp_def)

end
