(* ===== verification/Events.thy ===== *)
theory Events
  imports Upload Money_Tasks
begin

section \<open>What the events of the server leave alone\<close>

text \<open>
  The contracts the running server rests on: which handlers and background rounds leave the shelf of games
  and the register of users and accounts alone, or only let them grow, and which send withdrawals on their way.
  Every handler and round is an interpretation of such a contract.
\<close>

subsection \<open>Contracts\<close>

text \<open>The shelf: the items, their upload ids, the id counter and the game files.\<close>

definition same_shelf :: "world \<Rightarrow> world \<Rightarrow> bool" where
  "same_shelf w w' \<longleftrightarrow> software_db w' = software_db w \<and> upload_id_db w' = upload_id_db w \<and>
    current_software_id w' = current_software_id w \<and> game_files w' = game_files w"

text \<open>The register: the users, their sessions, and the deposit addresses of the accounts.\<close>

definition deposit_addrs :: "(string \<rightharpoonup> financial_info) \<Rightarrow> (string \<rightharpoonup> address)" where
  "deposit_addrs accounts = (\<lambda>u. map_option fi_deposit_addr (accounts u))"

definition same_register :: "world \<Rightarrow> world \<Rightarrow> bool" where
  "same_register w w' \<longleftrightarrow> auth_db w' = auth_db w \<and> cookie_db w' = cookie_db w \<and>
    deposit_addrs (money_db w') = deposit_addrs (money_db w)"

text \<open>A session belongs to the user it is stored under; sessions and accounts belong to registered users.\<close>

definition register_ok :: "(string \<rightharpoonup> user) \<Rightarrow> (string \<rightharpoonup> auth_cookie) \<Rightarrow> (string \<rightharpoonup> financial_info) \<Rightarrow> bool" where
  "register_ok users cookies accounts \<longleftrightarrow>
    (\<forall>u ck. cookies u = Some ck \<longrightarrow> ac_username ck = u \<and> users u \<noteq> None) \<and>
    (\<forall>u. users u = None \<longrightarrow> deposit_addrs accounts u = None)"

abbreviation register_inv :: "world \<Rightarrow> bool" where
  "register_inv w \<equiv> register_ok (auth_db w) (cookie_db w) (money_db w)"

text \<open>Users stay as they are, accounts stay and keep their deposit address.\<close>

definition kept :: "(string \<rightharpoonup> user) \<Rightarrow> (string \<rightharpoonup> financial_info) \<Rightarrow> (string \<rightharpoonup> user) \<Rightarrow> (string \<rightharpoonup> financial_info) \<Rightarrow> bool" where
  "kept users accounts users' accounts' \<longleftrightarrow>
    users \<subseteq>\<^sub>m users' \<and> deposit_addrs accounts \<subseteq>\<^sub>m deposit_addrs accounts'"

abbreviation accounts_kept :: "world \<Rightarrow> world \<Rightarrow> bool" where
  "accounts_kept w w' \<equiv> kept (auth_db w) (money_db w) (auth_db w') (money_db w')"

definition register_grows :: "world \<Rightarrow> world \<Rightarrow> bool" where
  "register_grows w w' \<longleftrightarrow> (register_inv w \<longrightarrow> register_inv w' \<and> accounts_kept w w')"

lemma deposit_addrs_upd: "deposit_addrs (m(u \<mapsto> f)) = (deposit_addrs m)(u \<mapsto> fi_deposit_addr f)"
  by (simp add: deposit_addrs_def fun_eq_iff)

lemma deposit_addrs_same:
  assumes "m u = Some f" "fi_deposit_addr g = fi_deposit_addr f"
  shows "deposit_addrs (m(u \<mapsto> g)) = deposit_addrs m"
  using assms by (auto simp: deposit_addrs_def fun_eq_iff)

lemma kept_refl [simp]: "kept a m a m"
  by (simp add: kept_def)

lemma kept_trans: "kept a m a' m' \<Longrightarrow> kept a' m' a'' m'' \<Longrightarrow> kept a m a'' m''"
  by (auto simp: kept_def intro: map_le_trans)

text \<open>Ending sessions, a fresh session for a registered user, a new user and their account.\<close>

lemma register_ok_upd:
  "register_ok a c m \<Longrightarrow> register_ok a (c(u := None)) m"
  "register_ok a c m \<Longrightarrow> a u \<noteq> None \<Longrightarrow> register_ok a (c(u \<mapsto> fresh_cookie u k t)) m"
  "register_ok a c m \<Longrightarrow> register_ok (a(u \<mapsto> v)) c m"
  "register_ok a c m \<Longrightarrow> register_ok (a(u \<mapsto> v)) c (m(u \<mapsto> f))"
  "register_ok a c m \<Longrightarrow> register_ok (a(u \<mapsto> v)) (c(u \<mapsto> fresh_cookie u k t)) (m(u \<mapsto> f))"
  by (auto simp: register_ok_def fresh_cookie_def deposit_addrs_upd)

lemma kept_upd:
  "a u = None \<Longrightarrow> kept a m (a(u \<mapsto> v)) m"
  "register_ok a c m \<Longrightarrow> a u = None \<Longrightarrow> kept a m (a(u \<mapsto> v)) (m(u \<mapsto> f))"
  by (auto simp: kept_def register_ok_def deposit_addrs_upd intro!: map_le_upd_fresh)

lemma same_register_grows: "same_register w w' \<Longrightarrow> register_grows w w'"
  by (simp add: same_register_def register_grows_def register_ok_def kept_def)

locale shelf_keeper =
  fixes run :: "(world, 'a) eff"
  assumes shelf_law: "wp run (\<lambda>_. same_shelf w) (same_shelf w) w"
begin

lemma keeps_shelf: "same_shelf w (snd (run w))"
  by (rule wp_final [OF shelf_law])

end

locale register_keeper =
  fixes run :: "(world, 'a) eff"
  assumes register_law: "wp run (\<lambda>_. register_grows w) (register_grows w) w"
begin

lemma keeps_register: "register_grows w (snd (run w))"
  by (rule wp_final [OF register_law])

end

text \<open>
  The withdrawals on their way: in the channel to the receiving task, or waiting for the sending task. One may be
  queued for the holder of an account who is logged in, and goes to the address attached to the account.
\<close>

definition queued :: "world \<Rightarrow> transfer_req set" where
  "queued w = set (monero_tx w) \<union> set (pending_requests w)"

definition drains :: "world \<Rightarrow> world \<Rightarrow> bool" where
  "drains w w' \<longleftrightarrow> queued w' \<subseteq> queued w"

definition entitled :: "world \<Rightarrow> transfer_req \<Rightarrow> bool" where
  "entitled w req \<longleftrightarrow> (\<exists>c. authorised w (tq_username req) c) \<and>
    (\<exists>f. money_db w (tq_username req) = Some f \<and> fi_xmr_addr f = Some (tq_dst req) \<and>
      tq_addr_index req = ts_addr_index (fi_transfers f))"

definition pays :: "world \<Rightarrow> world \<Rightarrow> bool" where
  "pays w w' \<longleftrightarrow> (\<forall>req \<in> queued w'. req \<in> queued w \<or> entitled w req)"

lemma drains_pays: "drains w w' \<Longrightarrow> pays w w'"
  by (auto simp: drains_def pays_def)

locale queue_keeper =
  fixes run :: "(world, 'a) eff"
  assumes queue_law: "wp run (\<lambda>_. pays w) (pays w) w"
begin

lemma keeps_queue: "pays w (snd (run w))"
  by (rule wp_final [OF queue_law])

end

text \<open>Most handlers and tasks change nothing of all this, other than that withdrawals leave the queue.\<close>

abbreviation outside :: "world \<Rightarrow> world \<Rightarrow> bool" where
  "outside w w' \<equiv> same_shelf w w' \<and> same_register w w' \<and> drains w w'"

lemmas outside_defs = same_shelf_def same_register_def drains_def queued_def

lemma outside_refl [simp]: "same_shelf w w" "same_register w w" "drains w w"
  by (simp_all add: outside_defs)

lemma outside_trans: "outside w w' \<Longrightarrow> outside w' w'' \<Longrightarrow> outside w w''"
  by (simp add: same_shelf_def same_register_def) (auto simp: drains_def)

lemma outside_data:
  assumes "data w' = data w"
  shows "outside w w'"
  using data_eqD [OF assms] by (simp add: outside_defs)

text \<open>Changes to other parts of the state do not matter.\<close>

lemma outside_upd [simp]:
  "same_shelf w (w'\<lparr>sled_faults := x1\<rparr>) = same_shelf w w'" "same_register w (w'\<lparr>sled_faults := x1\<rparr>) = same_register w w'"
  "same_shelf w (w'\<lparr>log_queue := x2\<rparr>) = same_shelf w w'" "same_register w (w'\<lparr>log_queue := x2\<rparr>) = same_register w w'"
  "same_shelf w (w'\<lparr>captcha_db := x3\<rparr>) = same_shelf w w'" "same_register w (w'\<lparr>captcha_db := x3\<rparr>) = same_register w w'"
  "same_shelf w (w'\<lparr>monero_tx := x4\<rparr>) = same_shelf w w'" "same_register w (w'\<lparr>monero_tx := x4\<rparr>) = same_register w w'"
  "same_shelf w (w'\<lparr>pending_requests := x5\<rparr>) = same_shelf w w'" "same_register w (w'\<lparr>pending_requests := x5\<rparr>) = same_register w w'"
  "same_shelf w (w'\<lparr>all_transfers := x6\<rparr>) = same_shelf w w'" "same_register w (w'\<lparr>all_transfers := x6\<rparr>) = same_register w w'"
  "same_shelf w (w'\<lparr>download_count_db := x7\<rparr>) = same_shelf w w'" "same_register w (w'\<lparr>download_count_db := x7\<rparr>) = same_register w w'"
  "same_shelf w (w'\<lparr>software_ownership_db := x8\<rparr>) = same_shelf w w'" "same_register w (w'\<lparr>software_ownership_db := x8\<rparr>) = same_register w w'"
  "same_shelf w (w'\<lparr>io_faults := x9\<rparr>) = same_shelf w w'" "same_register w (w'\<lparr>io_faults := x9\<rparr>) = same_register w w'"
  "same_shelf w (w'\<lparr>monero_tx_open := x10\<rparr>) = same_shelf w w'" "same_register w (w'\<lparr>monero_tx_open := x10\<rparr>) = same_register w w'"
  "same_shelf w (w'\<lparr>shared_fee := x11\<rparr>) = same_shelf w w'" "same_register w (w'\<lparr>shared_fee := x11\<rparr>) = same_register w w'"
  "same_shelf w (w'\<lparr>money_db := x12\<rparr>) = same_shelf w w'" "same_shelf w (w'\<lparr>auth_db := x14\<rparr>) = same_shelf w w'"
  "same_shelf w (w'\<lparr>cookie_db := x13\<rparr>) = same_shelf w w'" "same_register w (w'\<lparr>software_db := x15\<rparr>) = same_register w w'"
  "same_register w (w'\<lparr>upload_id_db := x16\<rparr>) = same_register w w'"
  "same_register w (w'\<lparr>current_software_id := x17\<rparr>) = same_register w w'"
  by (simp_all add: outside_defs)

lemma drains_upd [simp]:
  "drains w (w'\<lparr>sled_faults := y1\<rparr>) = drains w w'"
  "drains w (w'\<lparr>log_queue := y2\<rparr>) = drains w w'"
  "drains w (w'\<lparr>captcha_db := y3\<rparr>) = drains w w'"
  "drains w (w'\<lparr>all_transfers := y4\<rparr>) = drains w w'"
  "drains w (w'\<lparr>download_count_db := y5\<rparr>) = drains w w'"
  "drains w (w'\<lparr>software_ownership_db := y6\<rparr>) = drains w w'"
  "drains w (w'\<lparr>io_faults := y7\<rparr>) = drains w w'"
  "drains w (w'\<lparr>monero_tx_open := y8\<rparr>) = drains w w'"
  "drains w (w'\<lparr>shared_fee := y9\<rparr>) = drains w w'"
  "drains w (w'\<lparr>money_db := y10\<rparr>) = drains w w'"
  "drains w (w'\<lparr>auth_db := y11\<rparr>) = drains w w'"
  "drains w (w'\<lparr>cookie_db := y12\<rparr>) = drains w w'"
  "drains w (w'\<lparr>software_db := y13\<rparr>) = drains w w'"
  "drains w (w'\<lparr>upload_id_db := y14\<rparr>) = drains w w'"
  "drains w (w'\<lparr>current_software_id := y15\<rparr>) = drains w w'"
  by (simp_all add: drains_def queued_def)

lemma same_register_account [simp]:
  "m u = Some f \<Longrightarrow> fi_deposit_addr g = fi_deposit_addr f \<Longrightarrow> money_db w' = m \<Longrightarrow>
    same_register w (w'\<lparr>money_db := m(u \<mapsto> g)\<rparr>) = same_register w w'"
  by (simp add: same_register_def deposit_addrs_same)

text \<open>A handler made of outsiders is one.\<close>

definition stays_out :: "world \<Rightarrow> (world, 'a) eff \<Rightarrow> bool" where
  "stays_out w m \<longleftrightarrow> (\<forall>w'. outside w w' \<longrightarrow> wp m (\<lambda>_. outside w) (outside w) w')"

named_theorems stays \<open>handlers made of parts that change neither the shelf nor the register\<close>

lemma stays_ret [stays]: "stays_out w (ret x)"
  by (simp add: stays_out_def wp_ret)

lemma stays_panic [stays]: "stays_out w panic"
  by (simp add: stays_out_def wp_panic)

lemma stays_and_then [stays]:
  assumes "stays_out w m" "\<And>x. stays_out w (f x)"
  shows "stays_out w (and_then m f)"
  using assms by (auto simp: stays_out_def wp_and_then elim!: wp_conseq)

lemma stays_unwrap [stays]: "stays_out w (unwrap_opt x)" "stays_out w (unwrap_res y)"
  by (auto simp: stays_out_def wp_rules split: option.splits sum.splits)

lemma stays_lift [stays]: "stays_out w (lift_outcome r)"
  by (auto simp: stays_out_def wp_rules split: outcome.splits)

lemma stays_gets [stays]: "stays_out w (gets f)"
  by (simp add: stays_out_def wp_rules)

lemma stays_step:
  assumes "\<And>w'. wp m (\<lambda>_. outside w') (outside w') w'"
  shows "stays_out w m"
  unfolding stays_out_def
proof (intro allI impI)
  fix w' assume out: "outside w w'"
  show "wp m (\<lambda>_. outside w) (outside w) w'"
    by (rule wp_conseq [OF assms]) (erule outside_trans [OF out])+
qed

lemma stays_data:
  assumes "\<And>w'. wp m (\<lambda>_ w''. data w'' = data w') (\<lambda>w''. data w'' = data w') w'"
  shows "stays_out w m"
  by (rule stays_step, rule wp_conseq [OF assms]) (erule outside_data)+

locale outsider =
  fixes run :: "(world, 'a) eff"
  assumes outside_law: "wp run (\<lambda>_. outside w) (outside w) w"
begin

lemma stays: "stays_out w run"
  by (rule stays_step) (rule outside_law)

end

lemma outsiderI: "(\<And>w. stays_out w m) \<Longrightarrow> outsider m"
  by unfold_locales (simp add: stays_out_def)

sublocale outsider \<subseteq> shelf_keeper run
  by unfold_locales (rule wp_conseq [OF outside_law], simp_all)

sublocale outsider \<subseteq> queue_keeper run
  by unfold_locales (rule wp_conseq [OF outside_law], simp_all add: drains_pays)

sublocale outsider \<subseteq> register_keeper run
  by unfold_locales (rule wp_conseq [OF outside_law], simp_all add: same_register_grows)

interpretation deposit_req: outsider "deposit_req env wallet a req" for env wallet a req
  by unfold_locales (auto simp: deposit_req_def wp_control wp_gets Let_def intro!: money_steps auth_steps
    split: option.splits sum.splits outcome.splits)

interpretation get_balance: outsider "get_balance a req" for a req
  by unfold_locales (auto simp: get_balance_def wp_control Let_def intro!: money_steps auth_steps
    split: option.splits sum.splits outcome.splits)

interpretation attach: outsider "attach_xmr_address env a req" for env a req
  by unfold_locales (auto simp: attach_xmr_address_def wp_control Let_def intro!: money_steps auth_steps
    split: option.splits sum.splits outcome.splits)

text \<open>A withdrawal queues one request, for the account of a user who is logged in.\<close>

lemma pays_queue [simp]: "pays w (w'\<lparr>log_queue := q\<rparr>) = pays w w'" "pays w (w'\<lparr>sled_faults := fs\<rparr>) = pays w w'"
  by (simp_all add: pays_def queued_def)

lemma pays_entitled:
  assumes "authorised w u c" "money_db w u = Some f" "fi_xmr_addr f = Some a"
    and "monero_tx w' = monero_tx w" "pending_requests w' = pending_requests w"
  shows "pays w (w'\<lparr>monero_tx := monero_tx w @ [\<lparr>tq_username = u, tq_dst = a, tq_priority = p, tq_amt = n,
    tq_addr_index = ts_addr_index (fi_transfers f)\<rparr>]\<rparr>)"
  using assms by (auto simp: pays_def queued_def entitled_def)

lemma pays_refl [simp]: "pays w w"
  by (simp add: pays_def)

lemma withdraw_same:
  "wp (withdraw_monero wallet a req) (\<lambda>_ w'. same_shelf w w' \<and> same_register w w')
    (\<lambda>w'. same_shelf w w' \<and> same_register w w') w"
  by (auto simp: withdraw_defs wp_control Let_def intro!: money_steps auth_steps
    split: option.splits sum.splits outcome.splits)

interpretation withdraw: shelf_keeper "withdraw_monero wallet a req" for wallet a req
  by unfold_locales (rule wp_conseq [OF withdraw_same], simp_all)

interpretation withdraw: register_keeper "withdraw_monero wallet a req" for wallet a req
  by unfold_locales (rule wp_conseq [OF withdraw_same], simp_all add: same_register_grows)

interpretation withdraw: queue_keeper "withdraw_monero wallet a req" for wallet a req
  by unfold_locales (auto simp: withdraw_defs wp_control Let_def intro!: money_steps auth_steps
    split: option.splits sum.splits outcome.splits, (rule pays_entitled, assumption+, simp_all)+)

interpretation profits: outsider "server_profits wallet ks req" for wallet ks req
  by unfold_locales (auto simp: server_profits_def wp_rules Let_def split: outcome.splits sum.splits)

interpretation create_captcha: outsider "create_captcha env generated" for env generated
  by unfold_locales (auto simp: captcha_defs wp_rules Let_def split: option.splits)

interpretation view_captcha: outsider "view_captcha env hash" for env hash
  by unfold_locales (auto simp: captcha_defs wp_rules Let_def split: option.splits)

interpretation image: outsider "view_software_image env open_error path a" for env open_error path a
  by unfold_locales (auto simp: view_software_image_def wp_rules log_new_def split: option.splits)

interpretation captcha_sweeper: outsider "destroy_expired_captchas ks" for ks
proof
  show "wp (destroy_expired_captchas ks) (\<lambda>_. outside w) (outside w) w" for w
    by (auto simp: destroy_expired_captchas_def sweep_captcha_def db_remove_def wp_rules store_defs intro!: wp_each
      split: sum.splits option.splits)
qed

interpretation cookie_sweeper: shelf_keeper "destroy_expired_auth_cookies ks" for ks
  by unfold_locales
    (auto simp: destroy_expired_auth_cookies_def sweep_cookie_def db_remove_def wp_rules store_defs intro!: wp_each
      split: sum.splits option.splits)

interpretation login: shelf_keeper "login env cookie req a" for env cookie req a
  by unfold_locales (auto simp: login_def wp_control Let_def intro!: auth_steps split: option.splits sum.splits outcome.splits)

interpretation register: shelf_keeper "register env wallet salt cookie req a" for env wallet salt cookie req a
  by unfold_locales (auto simp: register_def wp_control Let_def intro!: auth_steps split: option.splits sum.splits outcome.splits)

interpretation cookie_sweeper: register_keeper "destroy_expired_auth_cookies ks" for ks
proof
  have visit: "wp (sweep_cookie t x) (\<lambda>_. register_grows w) (register_grows w) s" if "register_grows w s" for w s t x
    using that by (auto simp: sweep_cookie_def db_remove_def wp_rules store_defs register_grows_def register_ok_upd
      split: sum.splits option.splits)
  show "wp (destroy_expired_auth_cookies ks) (\<lambda>_. register_grows w) (register_grows w) w" for w
    by (auto simp: destroy_expired_auth_cookies_def wp_rules store_defs register_grows_def [of w w]
      register_grows_def [of w "w\<lparr>sled_faults := _\<rparr>"] intro!: wp_each visit)
qed

interpretation login: register_keeper "login env cookie req a" for env cookie req a
  by unfold_locales (auto simp: login_def wp_control Let_def register_grows_def register_ok_upd intro!: auth_steps
    split: option.splits sum.splits outcome.splits)

interpretation register: register_keeper "register env wallet salt cookie req a" for env wallet salt cookie req a
  by unfold_locales (auto simp: register_def wp_control Let_def register_grows_def register_ok_upd kept_upd
    intro!: auth_steps
    split: option.splits sum.splits outcome.splits)

interpretation cookie_sweeper: queue_keeper "destroy_expired_auth_cookies ks" for ks
proof
  have "wp (destroy_expired_auth_cookies ks) (\<lambda>_. drains w) (drains w) w" for w
    by (auto simp: destroy_expired_auth_cookies_def sweep_cookie_def db_remove_def wp_rules store_defs intro!: wp_each
      split: sum.splits option.splits)
  then show "wp (destroy_expired_auth_cookies ks) (\<lambda>_. pays w) (pays w) w" for w
    by (rule wp_conseq) (simp_all add: drains_pays)
qed

interpretation login: queue_keeper "login env cookie req a" for env cookie req a
  by unfold_locales (auto simp: login_def wp_control Let_def intro!: auth_steps drains_pays
    split: option.splits sum.splits outcome.splits)

interpretation register: queue_keeper "register env wallet salt cookie req a" for env wallet salt cookie req a
  by unfold_locales (auto simp: register_def wp_control Let_def intro!: auth_steps drains_pays
    split: option.splits sum.splits outcome.splits)

subsection \<open>Searches, downloads and the background rounds\<close>

lemma stays_sled:
  "stays_out w (unwrapped (db_get_or_insert DownloadCountDB i v))"
  "stays_out w (unwrapped (db_get_or_insert SoftwareOwnershipDB u l))"
  "stays_out w (unwrapped (db_insert DownloadCountDB i v'))"
  "stays_out w (unwrapped (db_insert SoftwareOwnershipDB u l'))"
  "stays_out w (unwrapped (db_get DownloadCountDB i))" "stays_out w (unwrapped (db_get MoneyDB u))"
  by (rule stays_step, auto simp: db_get_or_insert_def auth_defs wp_rules split: option.splits)+

declare stays_sled [stays]

lemma stays_downloads_of [stays]: "stays_out w (downloads_of i)"
  by (simp add: downloads_of_def stays)

definition stays_alg :: "world \<Rightarrow> (item \<Rightarrow> item \<Rightarrow> (world, ordering) eff) \<Rightarrow> bool" where
  "stays_alg w alg \<longleftrightarrow> (\<forall>a b. stays_out w (alg a b))"

lemma stays_algs: "stays_alg w newest_item" "stays_alg w oldest_item" "stays_alg w most_downloaded_item"
    "stays_alg w least_downloaded_item"
  by (simp_all add: stays_alg_def newest_item_def oldest_item_def most_downloaded_item_def least_downloaded_item_def stays)

lemma stays_reduce_worst: "stays_alg w alg \<Longrightarrow> stays_out w (reduce_worst alg results i js)"
  by (induction js arbitrary: i) (auto simp: stays_alg_def intro!: stays split: ordering.splits)

lemma stays_replace_worst: "stays_alg w alg \<Longrightarrow> stays_out w (replace_worst alg item results)"
  by (auto simp: replace_worst_def stays_alg_def stays_reduce_worst intro!: stays split: list.splits)

lemma stays_consider_item [stays]: "stays_out w (consider_item env req n item results)"
  by (cases "sq_sort_by req")
    (simp_all add: consider_item_def stays stays_replace_worst stays_algs)

lemma stays_consider_items [stays]: "stays_out w (consider_items env req n items results)"
  by (induction items arbitrary: results) (auto intro!: stays split: prod.splits)

lemma stays_from_items [stays]: "stays_out w (from_items items)"
  by (induction items) (auto simp: from_item_def intro!: stays)

lemma stays_iter [stays]:
  "stays_out w (db_iter SoftwareDB is)" "stays_out w (db_len SoftwareDB is)" "stays_out w (db_iter MoneyDB ks)"
  by (rule stays_step, simp add: wp_rules db_len_def store_defs)+

interpretation search: outsider "search_software env ks req" for env ks req
  by (rule outsiderI) (simp add: search_software_def Let_def stays)

text \<open>The rounds of the money tasks; that of the balances is in two halves.\<close>

lemma stays_account_indices [stays]: "stays_out w (account_indices ks)"
  by (rule stays_step) (simp add: account_indices_wp Let_def)

lemma stays_transfers [stays]: "stays_out w (modify (\<lambda>w. w\<lparr>all_transfers := t\<rparr>))"
  by (rule stays_step) (simp add: wp_rules)

lemma stays_pending: "set reqs \<subseteq> queued w \<Longrightarrow> stays_out w (modify (\<lambda>w. w\<lparr>pending_requests := reqs\<rparr>))"
  by (auto simp: stays_out_def wp_rules outside_defs)

interpretation transfers: outsider "update_transfers wallet ks" for wallet ks
  by (rule outsiderI) (auto simp: update_transfers_def intro!: stays split: sum.splits)

interpretation balances_read: outsider "acc_balances_batch wallet ks" for wallet ks
  by (rule outsiderI, rule stays_data, rule wp_conseq [OF acc_balances_batch_wp]) simp_all

interpretation receiver: outsider receive_request
proof
  show "wp receive_request (\<lambda>_. outside w) (outside w) w" for w
  proof (cases "monero_tx w")
    case Nil
    then show ?thesis by (simp add: wp_def receive_request_def)
  next
    case (Cons req rest)
    have "wp (queue_request req) (\<lambda>_. outside w) (outside w) (w\<lparr>monero_tx := rest\<rparr>)"
      using Cons by (auto simp: queue_request_def wp_rules auth_defs outside_defs split: option.splits)
    with Cons show ?thesis
      by (auto simp: wp_def receive_request_def split: prod.splits outcome.splits)
  qed
qed

lemma stays_settle [stays]: "stays_out w (settle req out)"
proof (rule stays_step)
  show "wp (settle req out) (\<lambda>_. outside w') (outside w') w'" for w'
    by (auto simp: settle_def auth_defs wp_rules Let_def split: option.splits)
qed

lemma stays_send_from: "set pending \<subseteq> queued w \<Longrightarrow> stays_out w (send_from wallets call i pending)"
proof (induction wallets call i pending rule: send_from.induct)
  case (1 wallets call i pending)
  have keep: "set (take i pending @ drop (Suc i) pending) \<subseteq> queued w"
    using 1(3) set_take_subset [of i pending] set_drop_subset [of "Suc i" pending] by auto
  with 1 show ?case
    by (subst send_from.simps) (auto simp: Let_def intro!: stays stays_pending [OF keep] split: sum.splits)
qed

interpretation sender: outsider "send_pending wallets" for wallets
proof (rule outsiderI, unfold stays_out_def, intro allI impI)
  fix w w' assume out: "outside w w'"
  then have "set (pending_requests w') \<subseteq> queued w" by (auto simp: drains_def queued_def)
  with stays_send_from [OF this] out show "wp (send_pending wallets) (\<lambda>_. outside w) (outside w) w'"
    by (auto simp: send_pending_def wp_rules stays_out_def)
qed

text \<open>A download changes counts and ownership, through the connection.\<close>

abbreviation conn_outside :: "connection \<Rightarrow> connection \<Rightarrow> bool" where
  "conn_outside c c' \<equiv> outside (cn_world c) (cn_world c')"

lemma stays_now [stays]: "stays_out w now_u64"
  by (rule stays_step) (simp add: wp_rules)

lemma stays_count_download [stays]: "stays_out w (count_download u i)"
  by (auto simp: count_download_def add_to_download_count_def now_utc_def Let_def intro!: stays
    split: option.splits)

lemma download_outside: "wp (download_message env file_order msg) (\<lambda>_. conn_outside c) (conn_outside c) c"
proof -
  have files: "wp (each (send_file env) fs) (\<lambda>_. wp (and_then (on_server (count_download u i)) (\<lambda>_. ret True))
      (\<lambda>_. conn_outside c) (conn_outside c)) (conn_outside c) c1" if "conn_outside c c1" for c1 fs u i
  proof (rule wp_conseq [OF wp_send_files])
    fix c2 assume "sent_all c1 (concat (map (file_frames env (cn_world c1)) fs)) c2"
    then have "conn_outside c c2"
      using outside_trans [OF that] outside_data [of "cn_world c2" "cn_world c1"] by (auto simp: sent_all_def)
    then have "wp (count_download u i) (\<lambda>_. outside (cn_world c)) (outside (cn_world c)) (cn_world c2)"
      using stays_count_download [of "cn_world c" u i] by (simp add: stays_out_def)
    then show "wp (and_then (on_server (count_download u i)) (\<lambda>_. ret True)) (\<lambda>_. conn_outside c) (conn_outside c) c2"
      by (simp add: wp_rules)
  next
    fix c2 assume "sent_some c1 (concat (map (file_frames env (cn_world c1)) fs)) c2"
    then show "conn_outside c c2"
      using outside_trans [OF that] outside_data [of "cn_world c2" "cn_world c1"] by (auto simp: sent_some_def)
  qed
  show ?thesis
    by (auto simp: download_message_def ws_control Let_def intro!: download_steps files split: option.split)
qed

subsection \<open>Listing software and writing the balances\<close>

text \<open>A listing adds at most one item, which is not published, and touches no file.\<close>

definition lists :: "world \<Rightarrow> world \<Rightarrow> bool" where
  "lists w w' \<longleftrightarrow> game_files w' = game_files w \<and> (\<forall>i. software_db w' i = software_db w i \<or>
    i = current_software_id w \<and> (\<exists>it. software_db w' i = Some it \<and> it_creation_time it = None))"

lemma spend_money_addr: "spend_money n f = (r, g) \<Longrightarrow> fi_deposit_addr g = fi_deposit_addr f"
  by (auto simp: spend_money_def Let_def split: option.splits)

lemma new_software_lists:
  "wp (new_software env random_bytes req) (\<lambda>_ w'. lists w w' \<and> same_register w w' \<and> drains w w')
    (\<lambda>w'. lists w w' \<and> same_register w w' \<and> drains w w') w"
  by (auto simp: new_software_def wp_control wp_fetch_add Let_def lists_def
    intro!: software_steps dest!: spend_money_addr
    split: option.splits sum.splits if_splits)

interpretation new_software: register_keeper "new_software env random_bytes req" for env random_bytes req
  by unfold_locales (rule wp_conseq [OF new_software_lists], simp_all add: same_register_grows)

interpretation new_software: queue_keeper "new_software env random_bytes req" for env random_bytes req
  by unfold_locales (rule wp_conseq [OF new_software_lists], simp_all add: drains_pays)

text \<open>The second half of the round of the balances: the batch holds accounts that still have their deposit
  addresses.\<close>

definition batch_ok :: "world \<Rightarrow> (string \<times> financial_info) list \<Rightarrow> bool" where
  "batch_ok w batch \<longleftrightarrow> (\<forall>(u, f) \<in> set batch. deposit_addrs (money_db w) u = Some (fi_deposit_addr f))"

lemma batch_ok_kept: "accounts_kept w w' \<Longrightarrow> batch_ok w batch \<Longrightarrow> batch_ok w' batch"
  by (fastforce simp: batch_ok_def kept_def map_le_def dom_def)

lemma balances_read_ok: "wp (acc_balances_batch wallet ks) (\<lambda>batch w'. batch_ok w' batch) (\<lambda>_. True) w"
proof (rule wp_conseq [OF acc_balances_batch_wp])
  fix batch w' assume *: "data w' = data w \<and> (\<exists>b fb. \<forall>(u, f') \<in> set batch. u \<in> set ks \<and>
      (\<exists>f. money_db w u = Some f \<and> f' = refreshed (all_transfers w) b fb f))"
  then have "money_db w' = money_db w" using data_eqD(3) by blast
  with * show "batch_ok w' batch" by (fastforce simp: batch_ok_def deposit_addrs_def refreshed_keeps)
qed simp

lemma balances_write_outside:
  assumes "batch_ok w batch"
  shows "wp (unwrapped (db_apply_batch MoneyDB batch)) (\<lambda>_. outside w) (outside w) w"
proof -
  have "deposit_addrs (money_db w ++ map_of (rev batch)) = deposit_addrs (money_db w)"
  proof
    fix u
    show "deposit_addrs (money_db w ++ map_of (rev batch)) u = deposit_addrs (money_db w) u"
    proof (cases "map_of (rev batch) u")
      case (Some f)
      then have "(u, f) \<in> set batch" by (auto dest: map_of_SomeD)
      with assms have "deposit_addrs (money_db w) u = Some (fi_deposit_addr f)" by (auto simp: batch_ok_def)
      with Some show ?thesis by (auto simp: deposit_addrs_def map_add_def)
    qed (simp add: deposit_addrs_def map_add_def)
  qed
  then show ?thesis
    by (intro wp_apply_batch) (simp_all add: outside_defs)
qed

end
