(* ===== verification/System.thy ===== *)
theory System
  imports Routes Events
begin

section \<open>The running server: start-up, events and reachable states\<close>

text \<open>
  What \<open>main\<close> of src/main.rs puts together: the first software id, the settings of the wallet, and the
  server as a state machine whose steps are the requests, the websocket messages and the rounds of the
  background tasks. A step is atomic here; the handlers run in parallel on the tokio runtime, and only the
  reads and writes of sled are atomic there. The round of \<open>update_acc_balances\<close>, which is known to be split by
  other handlers, is two steps.
\<close>

subsection \<open>Starting up\<close>

text \<open>\<open>software_db.iter().map(|item| item.unwrap().0).max()\<close>, plus one; the sum wraps around.\<close>

fun item_ids :: "(sled_error + u64 \<times> item) list \<Rightarrow> (world, u64 list) eff" where
  "item_ids [] = ret []"
| "item_ids (i # is) = and_then (unwrap_res i) (\<lambda>(id, _). and_then (item_ids is) (\<lambda>ids. ret (id # ids)))"

definition init_software_id :: "u64 list \<Rightarrow> (world, unit) eff" where
  "init_software_id ks =
     and_then (db_iter SoftwareDB ks) (\<lambda>items.
     and_then (item_ids items) (\<lambda>ids.
     modify (\<lambda>w. w\<lparr>current_software_id := (if ids = [] then 0 else Max (set ids) + 1)\<rparr>)))"

definition DAEMON_ADDR :: string where
  "DAEMON_ADDR = ''http://127.0.0.1:18081''"

definition WALLET_RPC_ADDR :: string where
  "WALLET_RPC_ADDR = ''http://127.0.0.1:19000''"

text \<open>\<open>fn wallet()\<close>, with the HTTP clients as arguments: one for each call that waits for the address, and those
  of the wallet that comes out.\<close>

definition server_wallet ::
    "(nat \<Rightarrow> string \<Rightarrow> string \<Rightarrow> nat \<Rightarrow> 'v attempt) \<Rightarrow> (string \<Rightarrow> string \<Rightarrow> nat \<Rightarrow> 'v attempt) \<Rightarrow>
     (string \<Rightarrow> string \<Rightarrow> nat \<Rightarrow> 'v attempt) \<Rightarrow> 'v json_api \<Rightarrow> addr_api \<Rightarrow> ('v, 'h, 'b, 'tx) daemon_rpc \<Rightarrow>
     ('v, 'h, 'b, 'tx) wallet outcome option" where
  "server_wallet clients client long_client json addr daemon = wallet_new
     (\<lambda>i. wallet_rpc_new (clients i) long_client json addr WALLET_RPC_ADDR)
     (wallet_rpc_new client long_client json addr WALLET_RPC_ADDR) (daemon\<lparr>dr_url := DAEMON_ADDR\<rparr>)"

text \<open>\<open>try_join!(set_daemon(..), set_refresh_time(60)).is_ok()\<close>: the wallet's answers to one try.\<close>

definition try_settings :: "('v, 'h, 'b, 'tx) wallet \<Rightarrow> bool outcome" where
  "try_settings wallet =
     (case (wallet_set_daemon wallet DAEMON_ADDR (sublist ''127.0.0.1'' DAEMON_ADDR), wallet_set_refresh_time wallet 60) of
        (Done d, Done t) \<Rightarrow> Done (\<not> isl d \<and> \<not> isl t)
      | _ \<Rightarrow> Panic)"

text \<open>The task that configures the wallet: the \<open>n\<close>-th try and all later ones, until one succeeds.\<close>

partial_function (option) set_settings :: "(nat \<Rightarrow> ('v, 'h, 'b, 'tx) wallet) \<Rightarrow> nat \<Rightarrow> unit outcome option" where
  "set_settings wallets n = (case try_settings (wallets n) of
      Panic \<Rightarrow> Some Panic
    | Done ok \<Rightarrow> if ok then Some (Done ()) else set_settings wallets (Suc n))"

text \<open>What lives in memory only is new after a start: the channels, the transfers and the cached fee.\<close>

definition fresh_memory :: "world \<Rightarrow> world" where
  "fresh_memory w = w\<lparr>shared_fee := cached_fee_new, all_transfers := [], monero_tx := [], monero_tx_open := True,
    pending_requests := [], log_queue := [], log_open := True\<rparr>"

definition boot :: "u64 list \<Rightarrow> (world, unit) eff" where
  "boot ks = and_then (modify fresh_memory) (\<lambda>_. init_software_id ks)"

subsection \<open>Events\<close>

record system =
  sy_world :: world
  sy_uploads :: "nat \<rightharpoonup> uploading"                         \<comment> \<open>the open upload sessions\<close>
  sy_batch :: "(string \<times> financial_info) list option"   \<comment> \<open>a batch of balances not yet written\<close>

definition in_world :: "(world, 'a) eff \<Rightarrow> system \<Rightarrow> system" where
  "in_world m s = s\<lparr>sy_world := snd (m (sy_world s))\<rparr>"

text \<open>The world between two events: time passes, logs are taken, and the next calls of sled, the file system and
  the log channel may fail or not.\<close>

definition surroundings :: "world \<Rightarrow> world \<Rightarrow> bool" where
  "surroundings w w' \<longleftrightarrow> (\<exists>t fs io q opn. clock w \<le> t \<and>
    w' = w\<lparr>clock := t, sled_faults := fs, io_faults := io, log_queue := q, log_open := opn\<rparr>)"

text \<open>
  One step of the server. \<open>wallets\<close> are the behaviours the wallet may show. Listing is possible as long
  as the 64-bit id counter does not wrap around. A message whose handling does not end gives no step.
\<close>

inductive sys_step ::
    "env \<Rightarrow> ((bytes \<rightharpoonup> string) \<Rightarrow> bytes list) \<Rightarrow> ('v, 'h, 'b, 'tx) wallet set \<Rightarrow> system \<Rightarrow> system \<Rightarrow> bool"
  for env file_order wallets where
  request: "wallet \<in> wallets \<Longrightarrow> ((\<exists>r. req = Post_new_software r) \<longrightarrow> current_software_id (sy_world s) + 1 \<noteq> 0) \<Longrightarrow>
    sys_step env file_order wallets s (in_world (serve env wallet d ip req) s)"
| open_upload: "sy_uploads s n = None \<Longrightarrow>
    sys_step env file_order wallets s (s\<lparr>sy_uploads := (sy_uploads s)(n \<mapsto> fresh_upload (sy_world s))\<rparr>)"
| upload: "sy_uploads s n = Some u \<Longrightarrow> upload_message env file_order msg (u\<lparr>cn_world := sy_world s\<rparr>) = Some (r, u') \<Longrightarrow>
    sys_step env file_order wallets s (s\<lparr>sy_world := cn_world u',
      sy_uploads := (sy_uploads s)(n := if r = Done True then Some u' else None)\<rparr>)"
| close_upload: "sys_step env file_order wallets s (s\<lparr>sy_uploads := (sy_uploads s)(n := None)\<rparr>)"
| download: "download_message env file_order msg \<lparr>cn_world = sy_world s, cn_sent = sent, cn_send_faults = fs\<rparr> = (r, c) \<Longrightarrow>
    sys_step env file_order wallets s (s\<lparr>sy_world := cn_world c\<rparr>)"
| transfers: "wallet \<in> wallets \<Longrightarrow> sys_step env file_order wallets s (in_world (update_transfers wallet ks) s)"
| read_balances: "wallet \<in> wallets \<Longrightarrow> acc_balances_batch wallet ks (sy_world s) = (Done batch, w) \<Longrightarrow>
    sys_step env file_order wallets s (s\<lparr>sy_world := w, sy_batch := Some batch\<rparr>)"
| write_balances: "sy_batch s = Some batch \<Longrightarrow>
    sys_step env file_order wallets s ((in_world (unwrapped (db_apply_batch MoneyDB batch)) s)\<lparr>sy_batch := None\<rparr>)"
| cached_fee: "wallet \<in> wallets \<Longrightarrow> update_cached_fee wallet (shared_fee (sy_world s)) = Done fee \<Longrightarrow>
    sys_step env file_order wallets s (s\<lparr>sy_world := (sy_world s)\<lparr>shared_fee := fee\<rparr>\<rparr>)"
| receive: "sys_step env file_order wallets s (in_world receive_request s)"
| send: "range ws \<subseteq> wallets \<Longrightarrow> sys_step env file_order wallets s (in_world (send_pending ws) s)"
| sweep_cookies: "sys_step env file_order wallets s (in_world (destroy_expired_auth_cookies ks) s)"
| sweep_captchas: "sys_step env file_order wallets s (in_world (destroy_expired_captchas cs) s)"
| environment: "surroundings (sy_world s) w \<Longrightarrow> sys_step env file_order wallets s (s\<lparr>sy_world := w\<rparr>)"
| restart: "enumerates ids (software_db (sy_world s)) \<Longrightarrow> boot ids (sy_world s) = (Done (), w) \<Longrightarrow>
    sys_step env file_order wallets s \<lparr>sy_world = w, sy_uploads = Map.empty, sy_batch = None\<rparr>"

text \<open>A server with an empty database, before its first start.\<close>

definition blank :: "world \<Rightarrow> bool" where
  "blank w \<longleftrightarrow> auth_db w = Map.empty \<and> cookie_db w = Map.empty \<and> money_db w = Map.empty \<and> software_db w = Map.empty \<and>
    upload_id_db w = Map.empty \<and> game_files w = Map.empty"

inductive reachable ::
    "env \<Rightarrow> ((bytes \<rightharpoonup> string) \<Rightarrow> bytes list) \<Rightarrow> ('v, 'h, 'b, 'tx) wallet set \<Rightarrow> system \<Rightarrow> bool"
  for env file_order wallets where
  installed: "blank w \<Longrightarrow> boot [] w = (Done (), w') \<Longrightarrow>
    reachable env file_order wallets \<lparr>sy_world = w', sy_uploads = Map.empty, sy_batch = None\<rparr>"
| step: "reachable env file_order wallets s \<Longrightarrow> sys_step env file_order wallets s s' \<Longrightarrow> reachable env file_order wallets s'"

subsection \<open>The invariant of the running server\<close>

text \<open>What an upload never changes of an item.\<close>

definition product :: "item \<Rightarrow> item" where
  "product it = it\<lparr>it_files := Map.empty, it_creation_time := None\<rparr>"

text \<open>Items stay, with what was listed, and published items stay published.\<close>

definition shelf_grows :: "world \<Rightarrow> world \<Rightarrow> bool" where
  "shelf_grows w w' \<longleftrightarrow> (\<forall>i it. software_db w i = Some it \<longrightarrow> (\<exists>it'. software_db w' i = Some it' \<and>
    product it' = product it \<and> (it_creation_time it \<noteq> None \<longrightarrow> it_creation_time it' \<noteq> None)))"

text \<open>A session holds a copy of an item, up to what uploads change.\<close>

definition session_item :: "world \<Rightarrow> (software_info \<times> item) option \<Rightarrow> bool" where
  "session_item w info \<longleftrightarrow> (case info of None \<Rightarrow> True | Some (si, item) \<Rightarrow>
    \<exists>it. software_db w (it_id item) = Some it \<and> product it = product item)"

definition sys_inv :: "env \<Rightarrow> system \<Rightarrow> bool" where
  "sys_inv env s \<longleftrightarrow> store_inv env (sy_world s) \<and> register_inv (sy_world s) \<and>
    (\<forall>n u. sy_uploads s n = Some u \<longrightarrow> session_inv (sy_world s) (up_software_info u) \<and>
      session_item (sy_world s) (up_software_info u)) \<and>
    (\<forall>batch. sy_batch s = Some batch \<longrightarrow> batch_ok (sy_world s) batch)"

text \<open>The world after an event that keeps the two stores in order, loses nothing, and lets out no withdrawal
  its user is not entitled to.\<close>

definition moves_on :: "env \<Rightarrow> world \<Rightarrow> world \<Rightarrow> bool" where
  "moves_on env w w' \<longleftrightarrow> store_inv env w' \<and> register_inv w' \<and> accounts_kept w w' \<and> shelf_grows w w' \<and>
    pays w w'"

abbreviation in_order :: "env \<Rightarrow> world \<Rightarrow> bool" where
  "in_order env w \<equiv> store_inv env w \<and> register_inv w"

lemma shelf_grows_refl [simp]: "shelf_grows w w"
  by (auto simp: shelf_grows_def)

lemma shelf_grows_trans: "shelf_grows w w' \<Longrightarrow> shelf_grows w' w'' \<Longrightarrow> shelf_grows w w''"
  unfolding shelf_grows_def by metis

lemma shelf_grows_same: "software_db w' = software_db w \<Longrightarrow> shelf_grows w w'"
  by (auto simp: shelf_grows_def)

lemma session_kept:
  assumes "shelf_grows w w'"
  shows "session_inv w info \<Longrightarrow> session_inv w' info" "session_item w info \<Longrightarrow> session_item w' info"
  using assms by (fastforce simp: session_inv_def session_item_def shelf_grows_def split: option.splits)+

lemma moves_on_refl: "in_order env w \<Longrightarrow> moves_on env w w"
  by (simp add: moves_on_def)

text \<open>Keeping the shelf and letting the register grow is moving on.\<close>

lemma moves_on_keepers:
  assumes "same_shelf w w'" "register_grows w w'" "pays w w'" "in_order env w"
  shows "moves_on env w w'"
  using assms shelf_grows_same [of w' w]
  by (auto simp: moves_on_def same_shelf_def register_grows_def store_inv_def listing_inv_def)

lemma moves_on_outside: "outside w w' \<Longrightarrow> in_order env w \<Longrightarrow> moves_on env w w'"
  by (auto intro: moves_on_keepers same_register_grows drains_pays)

lemma outsider_moves_on: "(\<And>w. stays_out w m) \<Longrightarrow> in_order env w \<Longrightarrow> moves_on env w (snd (m w))"
  by (rule moves_on_outside, rule wp_final) (simp_all add: stays_out_def)

lemma moves_on_lists:
  assumes "lists w w'" "same_register w w'" "drains w w'" "listing_inv w'" "in_order env w"
  shows "moves_on env w w'"
proof -
  note same = same_register_grows [OF assms(2)]
  have files: "game_files w' = game_files w" using assms(1) by (simp add: lists_def)
  have new: "software_db w' i = software_db w i \<or> i = current_software_id w \<and>
      (\<exists>it. software_db w' i = Some it \<and> it_creation_time it = None)" for i
    using assms(1) by (simp add: lists_def)
  have "published_ok env (software_db w') (game_files w')"
    unfolding published_ok_def
  proof (intro allI impI)
    fix i item assume i: "software_db w' i = Some item" "it_creation_time item \<noteq> None"
    with new [of i] have "software_db w i = Some item" by auto
    with i assms(5) files show "files_ok (it_files item) \<and> (\<forall>h \<in> dom (it_files item). game_files w' (ev_hex_encode env h) \<noteq> None)"
      unfolding store_inv_def published_ok_def by metis
  qed
  moreover have "software_db w (current_software_id w) = None"
    using assms(5) listing_invD(1) [of w "current_software_id w"] by (cases "software_db w (current_software_id w)") (auto simp: store_inv_def)
  then have "shelf_grows w w'" using new unfolding shelf_grows_def by (metis option.distinct(1))
  ultimately show ?thesis
    using assms files same drains_pays [OF assms(3)] by (auto simp: moves_on_def store_inv_def register_grows_def)
qed

text \<open>Requests.\<close>

lemma snd_reply: "snd (and_then m (\<lambda>r. ret (f r)) w) = snd (m w)"
  by (simp add: and_then_def ret_def split: prod.split outcome.split)

lemma request_moves_on:
  assumes "in_order env w" "(\<exists>r. req = Post_new_software r) \<longrightarrow> current_software_id w + 1 \<noteq> 0"
  shows "moves_on env w (snd (serve env wallet d ip req w))"
proof (cases req)
  case (Post_signup r)
  then show ?thesis unfolding Post_signup serve.simps snd_reply
    by (intro moves_on_keepers register.keeps_shelf register.keeps_register register.keeps_queue assms(1))
next
  case (Post_login r)
  then show ?thesis unfolding Post_login serve.simps snd_reply
    by (intro moves_on_keepers login.keeps_shelf login.keeps_register login.keeps_queue assms(1))
next
  case (Post_new_software r)
  have "wp (new_software env (dr_random_bytes d) r) (\<lambda>_ w'. lists w w' \<and> same_register w w' \<and> drains w w')
      (\<lambda>w'. lists w w' \<and> same_register w w' \<and> drains w w') w" by (rule new_software_lists)
  from wp_final [OF this] new_software_listing [of w env "dr_random_bytes d" r] assms
  show ?thesis unfolding Post_new_software serve.simps snd_reply
    by (intro moves_on_lists) (auto simp: Post_new_software store_inv_def)
next
  case (Post_withdraw_xmr r)
  then show ?thesis unfolding Post_withdraw_xmr serve.simps snd_reply
    by (intro moves_on_keepers withdraw.keeps_shelf withdraw.keeps_register withdraw.keeps_queue assms(1))
qed (use assms(1) in \<open>simp_all only: serve.simps snd_reply,
  auto intro!: outsider_moves_on deposit_req.stays attach.stays get_balance.stays profits.stays
    search.stays create_captcha.stays view_captcha.stays image.stays\<close>)

text \<open>Upload messages.\<close>

lemma settled_queues: "queued (settled w) = queued w" "queued (w\<lparr>game_files := g\<rparr>) = queued w"
  by (simp_all add: settled_def queued_def)

lemma quiet_outside: "quiet w w' \<Longrightarrow> outside w w'"
  using settled_queues(1) [of w] settled_queues(1) [of w']
  by (simp add: same_shelf_def same_register_def drains_def quiet_keeps) (simp add: quiet_def)

lemma files_grow_drains: "files_grow env w w' \<Longrightarrow> drains w w'"
  unfolding files_grow_def drains_def by (metis settled_queues subset_refl)

lemma upload_moves_on:
  assumes laws: "reads_whole env" "lossy_ok env" "iterates_all file_order"
    and order: "in_order env (cn_world u)"
    and session: "session_inv (cn_world u) (up_software_info u)" "session_item (cn_world u) (up_software_info u)"
    and run: "upload_message env file_order msg u = Some (r, u')"
  shows "moves_on env (cn_world u) (cn_world u') \<and> session_inv (cn_world u') (up_software_info u') \<and>
    session_item (cn_world u') (up_software_info u')"
proof -
  have inv: "upload_inv env u" using order session(1) by (simp add: upload_inv_def)
  have inv': "store_inv env (cn_world u')" "session_inv (cn_world u') (up_software_info u')"
    using message_inv [OF laws inv run] by (simp_all add: upload_inv_def)
  have calm: ?thesis if "calm u u'"
  proof -
    from that have q: "quiet (cn_world u) (cn_world u')" and same: "up_software_info u' = up_software_info u"
      by (simp_all add: calm_def)
    from moves_on_outside [OF quiet_outside [OF q] order] have "moves_on env (cn_world u) (cn_world u')" .
    with session_kept(2) [of "cn_world u" "cn_world u'"] session(2) inv'(2) same show ?thesis
      by (auto simp: moves_on_def)
  qed
  show ?thesis
  proof (cases "up_software_info u")
    case None
    from first_message [OF None run] show ?thesis
    proof
      assume *: "r = Done True \<and> quiet (cn_world u) (cn_world u') \<and> (\<exists>si item. up_software_info u' = Some (si, item) \<and>
        started (cn_world u) (si, item) \<and> si_files si \<in> range (\<lambda>bs. parse_files env bs Map.empty))"
      then obtain si item where q: "quiet (cn_world u) (cn_world u')" and info: "up_software_info u' = Some (si, item)"
        and "started (cn_world u) (si, item)" by blast
      then obtain i where i: "software_db (cn_world u) i = Some item" unfolding started_def prod.case by blast
      with order have "it_id item = i" using listing_invD(1) [OF _ i] by (simp add: store_inv_def)
      with i info quiet_keeps(1) [OF q] have "session_item (cn_world u') (up_software_info u')"
        by (simp add: session_item_def)
      with moves_on_outside [OF quiet_outside [OF q] order] inv'(2) show ?thesis by simp
    qed (rule calm)
  next
    case (Some info)
    obtain si item where info: "info = (si, item)" by (cases info)
    note Some = Some [unfolded info]
    from message_calm [OF Some run] show ?thesis
    proof
      assume pub: "(r, u') = on_server (publish env file_order si item) u"
      have "finite (dom (si_files si))" using session(1) Some by (simp add: session_inv_def files_ok_def)
      from publish_wp [OF laws(1,3) this, of item "cn_world u"] obtain r0 w' where
        w': "publish env file_order si item (cn_world u) = (r0, w')"
        "published env si item (cn_world u) w' \<or> files_grow env (cn_world u) w'"
        by (auto simp: wp_def split: prod.splits outcome.splits)
      then have u': "u' = u\<lparr>cn_world := w'\<rparr>" using pub by (simp add: on_server_def)
      obtain it where it: "software_db (cn_world u) (it_id item) = Some it" "product it = product item"
        using session(2) Some by (auto simp: session_item_def)
      from w'(2) have grows: "shelf_grows (cn_world u) w' \<and> same_register (cn_world u) w' \<and> drains (cn_world u) w'"
      proof
        assume "files_grow env (cn_world u) w'"
        then show ?thesis by (simp add: shelf_grows_same files_grow_keeps files_grow_drains same_register_def)
      next
        assume "published env si item (cn_world u) w'"
        then obtain w1 fs where w1: "files_grow env (cn_world u) w1"
          and w'': "w' = w1\<lparr>sled_faults := fs, software_db := (software_db (cn_world u))(it_id item \<mapsto>
            item\<lparr>it_files := si_files si, it_creation_time := Some (of_int (clock (cn_world u)))\<rparr>)\<rparr>"
          by (auto simp: published_def)
        have "product (item\<lparr>it_files := f, it_creation_time := t\<rparr>) = product item" for f t
          by (simp add: product_def)
        with it have "shelf_grows (cn_world u) w'" by (auto simp: shelf_grows_def w'')
        with files_grow_keeps [OF w1] files_grow_drains [OF w1] show ?thesis by (simp add: w'' same_register_def)
      qed
      with order drains_pays [of "cn_world u" w'] same_register_grows [of "cn_world u" w'] inv' session_kept(2) [of "cn_world u" w'] session(2)
      show ?thesis by (auto simp: u' moves_on_def register_grows_def)
    qed (rule calm)
  qed
qed

text \<open>A start: the first id is above all ids in use.\<close>

lemma wp_item_ids:
  assumes "\<And>es. items = map Inr es \<Longrightarrow> Q (map fst es) w" "E w"
  shows "wp (item_ids items) Q E w"
  using assms
proof (induction items arbitrary: Q)
  case Nil
  then show ?case by (simp add: wp_ret)
next
  case (Cons i items)
  show ?case
  proof (cases i)
    case (Inr x)
    have "Q (fst x # map fst es) w" if "items = map Inr es" for es
      using Cons.prems(1) [of "x # es"] that Inr by simp
    with Cons Inr show ?thesis by (auto simp: wp_rules split: prod.split)
  qed (use Cons in \<open>simp add: wp_rules\<close>)
qed

lemma faulty_items_all: "faulty_items fs xs = map Inr es \<Longrightarrow> es = xs"
  by (induction fs xs arbitrary: es rule: faulty_items.induct) (auto split: if_splits simp: Cons_eq_map_conv)

definition next_id :: "u64 list \<Rightarrow> u64" where
  "next_id ids = (if ids = [] then 0 else Max (set ids) + 1)"

lemma init_software_id_wp:
  assumes "enumerates ks (software_db w)"
  shows "wp (init_software_id ks) (\<lambda>_ w'. \<exists>fs. w' = w\<lparr>sled_faults := fs, current_software_id := next_id ks\<rparr>) (\<lambda>_. True) w"
proof -
  have "map fst (entries ks (software_db w)) = ks"
    using assms by (simp add: map_fst_entries enumerates_def)
  then show ?thesis
    by (auto simp: init_software_id_def wp_rules store_defs next_id_def fun_eq_iff
      intro!: wp_item_ids dest!: faulty_items_all) (rule exI [of _ "sled_faults w"], simp)
qed

lemma word_less_next: "(a :: 'a::len word) < b \<Longrightarrow> a < a + 1"
proof (rule word_less_succ(2))
  assume "a < b"
  moreover have "\<not> - 1 < b" by (simp add: not_less)
  ultimately show "a + 1 \<noteq> 0" by (auto simp: eq_neg_iff_add_eq_0 [symmetric])
qed

lemma next_id_above:
  assumes "\<forall>j \<in> set ids. j < n" "i \<in> set ids"
  shows "i < next_id ids"
proof -
  have "Max (set ids) \<in> set ids" using assms(2) by (intro Max_in) auto
  with assms have "Max (set ids) < n" "i \<le> Max (set ids)" by auto
  with word_less_next [of "Max (set ids)" n] assms(2) show ?thesis
    by (auto simp: next_id_def)
qed

lemma boot_moves_on:
  assumes "in_order env w" "enumerates ids (software_db w)" "boot ids w = (Done (), w')"
  shows "moves_on env w w'"
proof -
  have "init_software_id ids (fresh_memory w) = (Done (), w')"
    using assms(3) by (simp add: boot_def and_then_def modify_def)
  moreover have "enumerates ids (software_db (fresh_memory w))" using assms(2) by (simp add: fresh_memory_def)
  ultimately obtain fs where w': "w' = (fresh_memory w)\<lparr>sled_faults := fs, current_software_id := next_id ids\<rparr>"
    using wp_done [OF init_software_id_wp] by blast
  have ids: "set ids = dom (software_db w)" using assms(2) by (simp add: enumerates_def)
  have "\<forall>j \<in> set ids. j < current_software_id w"
    using assms(1) listing_invD(1) [of w] unfolding ids store_inv_def by blast
  with next_id_above [of ids] have "i < next_id ids" if "software_db w i = Some it" for i it
    using that ids by blast
  then have "listing_inv w'"
    using assms(1) by (simp add: w' fresh_memory_def store_inv_def listing_inv_def listing_ok_def)
  with assms(1) shelf_grows_same [of w' w] show ?thesis
    by (simp add: moves_on_def store_inv_def w' fresh_memory_def pays_def queued_def)
qed

subsection \<open>Every step keeps the server in order\<close>

lemma sys_inv_moves_on:
  assumes "moves_on env (sy_world s) w" "sys_inv env s"
    and "sy_world s' = w" "sy_uploads s' \<subseteq>\<^sub>m sy_uploads s" "sy_batch s' = sy_batch s \<or> sy_batch s' = None"
  shows "sys_inv env s'"
proof -
  from assms(1) have g: "store_inv env w" "register_inv w" "accounts_kept (sy_world s) w" "shelf_grows (sy_world s) w"
    by (simp_all add: moves_on_def)
  have "session_inv w (up_software_info u) \<and> session_item w (up_software_info u)" if "sy_uploads s' n = Some u" for n u
  proof -
    have "sy_uploads s n = Some u" using assms(4) that by (metis domI map_le_def)
    with assms(2) session_kept [OF g(4)] show ?thesis by (auto simp: sys_inv_def)
  qed
  moreover have "batch_ok w batch" if "sy_batch s' = Some batch" for batch
    using assms(2,5) that batch_ok_kept [OF g(3)] by (auto simp: sys_inv_def)
  ultimately show ?thesis using g assms(3) by (auto simp: sys_inv_def)
qed

definition goes_on :: "env \<Rightarrow> system \<Rightarrow> system \<Rightarrow> bool" where
  "goes_on env s s' \<longleftrightarrow> sys_inv env s' \<and> moves_on env (sy_world s) (sy_world s')"

lemma goes_on_world:
  assumes "sys_inv env s" "moves_on env (sy_world s) w"
  shows "goes_on env s (s\<lparr>sy_world := w\<rparr>)"
  using assms sys_inv_moves_on [OF assms(2,1), of "s\<lparr>sy_world := w\<rparr>"] by (simp add: goes_on_def)

lemma goes_on_stays:
  assumes "sys_inv env s" "\<And>w. stays_out w m"
  shows "goes_on env s (in_world m s)"
  unfolding in_world_def
  by (rule goes_on_world [OF assms(1)], rule outsider_moves_on [OF assms(2)]) (use assms(1) in \<open>simp add: sys_inv_def\<close>)

lemma surroundings_outside: "surroundings w w' \<Longrightarrow> outside w w'"
  by (auto simp: surroundings_def same_shelf_def same_register_def drains_def queued_def)

lemma step_goes_on:
  assumes laws: "reads_whole env" "lossy_ok env" "iterates_all file_order"
    and inv: "sys_inv env s" and step: "sys_step env file_order wallets s s'"
  shows "goes_on env s s'"
proof -
  have order: "in_order env (sy_world s)" using inv by (simp add: sys_inv_def)
  from step show ?thesis
  proof cases
    case (request wallet req d ip)
    then show ?thesis
      using goes_on_world [OF inv request_moves_on [OF order, of req wallet d ip]] by (simp add: in_world_def)
  next
    case (open_upload n)
    then show ?thesis using inv moves_on_refl [OF order]
      by (auto simp: goes_on_def sys_inv_def fresh_upload_def session_inv_def session_item_def)
  next
    case (upload n u msg r u')
    have "session_inv (cn_world (u\<lparr>cn_world := sy_world s\<rparr>)) (up_software_info (u\<lparr>cn_world := sy_world s\<rparr>))"
      "session_item (cn_world (u\<lparr>cn_world := sy_world s\<rparr>)) (up_software_info (u\<lparr>cn_world := sy_world s\<rparr>))"
      using upload(2) inv by (auto simp: sys_inv_def)
    from upload_moves_on [OF laws _ this upload(3)] order
    have m: "moves_on env (sy_world s) (cn_world u')" and
      u': "session_inv (cn_world u') (up_software_info u')" "session_item (cn_world u') (up_software_info u')" by auto
    from sys_inv_moves_on [OF m inv, of "s\<lparr>sy_world := cn_world u'\<rparr>"]
    have "sys_inv env (s\<lparr>sy_world := cn_world u'\<rparr>)" by simp
    then have "sys_inv env s'" using u' by (auto simp: upload(1) sys_inv_def)
    with m show ?thesis by (simp add: upload(1) goes_on_def)
  next
    case (close_upload n)
    have "sys_inv env s'"
      by (rule sys_inv_moves_on [OF moves_on_refl [OF order] inv]) (auto simp: close_upload map_le_def)
    with moves_on_refl [OF order] show ?thesis by (simp add: goes_on_def close_upload)
  next
    case (download msg sent fs r c)
    let ?c = "\<lparr>cn_world = sy_world s, cn_sent = sent, cn_send_faults = fs\<rparr>"
    from wp_final [OF download_outside, of ?c env file_order msg] download(2)
    have "outside (sy_world s) (cn_world c)" by simp
    with goes_on_world [OF inv moves_on_outside [OF _ order]] show ?thesis by (simp add: download(1))
  next
    case (read_balances wallet ks batch w)
    have "outside (sy_world s) w"
      using wp_final [OF balances_read.outside_law, of "sy_world s" wallet ks] read_balances by simp
    moreover have "batch_ok w batch" using wp_done [OF balances_read_ok read_balances(3)] .
    ultimately show ?thesis
      using goes_on_world [OF inv moves_on_outside [OF _ order], of w] by (auto simp: read_balances(1) goes_on_def sys_inv_def)
  next
    case (write_balances batch)
    let ?s = "in_world (unwrapped (db_apply_batch MoneyDB batch)) s"
    have "batch_ok (sy_world s) batch" using write_balances(2) inv by (simp add: sys_inv_def)
    from wp_final [OF balances_write_outside [OF this]]
    have m: "moves_on env (sy_world s) (sy_world ?s)" by (intro moves_on_outside order) (simp_all add: in_world_def)
    have "sys_inv env (?s\<lparr>sy_batch := None\<rparr>)"
      by (rule sys_inv_moves_on [OF m inv]) (simp_all add: in_world_def)
    with m show ?thesis by (simp add: goes_on_def write_balances(1))
  next
    case (environment w)
    then show ?thesis
      using goes_on_world [OF inv moves_on_outside [OF surroundings_outside order]] by simp
  next
    case (restart ids w)
    from boot_moves_on [OF order restart(2,3)] have m: "moves_on env (sy_world s) w" .
    have "sys_inv env s'" by (rule sys_inv_moves_on [OF m inv]) (simp_all add: restart(1))
    with m show ?thesis by (simp add: goes_on_def restart(1))
  next
    case (cached_fee wallet fee)
    then show ?thesis
      using goes_on_world [OF inv moves_on_outside [OF _ order], of "(sy_world s)\<lparr>shared_fee := fee\<rparr>"] by simp
  next
    case (sweep_cookies ks)
    then show ?thesis
      using goes_on_world [OF inv moves_on_keepers [OF cookie_sweeper.keeps_shelf cookie_sweeper.keeps_register
        cookie_sweeper.keeps_queue order]]
      by (simp add: in_world_def)
  qed (auto intro!: goes_on_stays [OF inv] transfers.stays receiver.stays sender.stays captcha_sweeper.stays)
qed

subsection \<open>Reachable states\<close>

lemma blank_in_order: "blank w \<Longrightarrow> in_order env w"
  by (simp add: blank_def store_inv_def content_addressed_def published_ok_def listing_inv_def listing_ok_def
    register_ok_def deposit_addrs_def)

lemma reachable_inv:
  assumes laws: "reads_whole env" "lossy_ok env" "iterates_all file_order"
    and "reachable env file_order wallets s"
  shows "sys_inv env s"
  using assms(4)
proof (induction rule: reachable.induct)
  case (installed w w')
  have "moves_on env w w'"
    by (rule boot_moves_on [OF blank_in_order [OF installed(1)] _ installed(2)])
      (use installed(1) in \<open>simp add: blank_def enumerates_def\<close>)
  then show ?case by (simp add: moves_on_def sys_inv_def)
next
  case (step s s')
  show ?case using step_goes_on [OF laws step.IH step.hyps(2)] by (simp add: goes_on_def)
qed

text \<open>
  C24: Everything on record is well-formed in every reachable state of a server whose handlers and messages run one at a
  time, whatever clients send, however the wallet answers, whichever calls fail and whenever the server restarts: sessions and items are stored
  under their own name and id, all ids are below the counter, upload ids lead to items, and the file list of a
  published item has hashes of 32 bytes and names without zero bytes.
\<close>

theorem reachable_well_formed:
  assumes laws: "reads_whole env" "lossy_ok env" "iterates_all file_order"
    and "reachable env file_order wallets s"
  shows "(\<forall>u ck. cookie_db (sy_world s) u = Some ck \<longrightarrow> ac_username ck = u) \<and>
    (\<forall>i it. software_db (sy_world s) i = Some it \<longrightarrow> it_id it = i \<and> i < current_software_id (sy_world s) \<and>
      (it_creation_time it \<noteq> None \<longrightarrow> files_ok (it_files it))) \<and>
    (\<forall>h i. upload_id_db (sy_world s) h = Some i \<longrightarrow> software_db (sy_world s) i \<noteq> None)"
proof -
  have "in_order env (sy_world s)" using reachable_inv [OF assms] by (simp add: sys_inv_def)
  then show ?thesis
    by (auto simp: store_inv_def register_ok_def published_ok_def listing_inv_def listing_ok_def)
qed


text \<open>
  C12: The two tests of a user agree: in every reachable state (between handlers, which run one at a time), a name and a cookie open a session, which is all the
  websocket routes ask, exactly if they are authorised, which is what the other handlers ask (a
  registered name with this cookie). No session outlives or precedes its user.
\<close>

theorem sessions_authorise:
  assumes laws: "reads_whole env" "lossy_ok env" "iterates_all file_order"
    and "reachable env file_order wallets s"
  shows "has_session (sy_world s) u c \<longleftrightarrow> authorised (sy_world s) u c"
proof -
  have "register_inv (sy_world s)" using reachable_inv [OF assms] by (simp add: sys_inv_def)
  then show ?thesis by (auto simp: has_session_def authorised_def register_ok_def split: option.splits)
qed

lemma steps_keep:
  assumes laws: "reads_whole env" "lossy_ok env" "iterates_all file_order"
    and "(sys_step env file_order wallets)\<^sup>*\<^sup>* s s'" "sys_inv env s"
  shows "sys_inv env s' \<and> accounts_kept (sy_world s) (sy_world s') \<and> shelf_grows (sy_world s) (sy_world s')"
  using assms(4)
proof (induction rule: rtranclp_induct)
  case (step s1 s2)
  from step step_goes_on [OF laws] have "goes_on env s1 s2" by blast
  with step show ?case by (auto simp: goes_on_def moves_on_def intro: kept_trans shelf_grows_trans)
qed (simp add: assms(5))

text \<open>
  C1: Nothing is lost as long as handlers and websocket messages run one at a time (each is one step of \<open>sys_step\<close>; the
  round on balances is two): whatever happens to such a server from a reachable state on, panics, failing calls and
  restarts included, every user stays registered with the same salt and password hash, every account
  stays with its deposit address, every item stays with all that was listed (title, creator, description, price,
  sizes, kinds, image and upload id), and what was published stays published. That a registration is one step is needed for
  salt, hash and deposit address: two registrations of one name that interleave overwrite them (\<open>registrations_collide\<close>).
  Users, accounts and items themselves are kept under any interleaving (\<open>everything_in_order\<close>).
\<close>

theorem nothing_lost:
  assumes laws: "reads_whole env" "lossy_ok env" "iterates_all file_order"
    and "reachable env file_order wallets s" "(sys_step env file_order wallets)\<^sup>*\<^sup>* s s'"
  shows "auth_db (sy_world s) \<subseteq>\<^sub>m auth_db (sy_world s') \<and>
    (\<forall>u f. money_db (sy_world s) u = Some f \<longrightarrow>
      (\<exists>g. money_db (sy_world s') u = Some g \<and> fi_deposit_addr g = fi_deposit_addr f)) \<and>
    (\<forall>i it. software_db (sy_world s) i = Some it \<longrightarrow> (\<exists>it'. software_db (sy_world s') i = Some it' \<and>
      product it' = product it \<and> (it_creation_time it \<noteq> None \<longrightarrow> it_creation_time it' \<noteq> None)))"
proof -
  from steps_keep [OF laws assms(5) reachable_inv [OF assms(1-4)]]
  have k: "accounts_kept (sy_world s) (sy_world s')" "shelf_grows (sy_world s) (sy_world s')" by simp_all
  have "\<exists>g. money_db (sy_world s') u = Some g \<and> fi_deposit_addr g = fi_deposit_addr f"
    if "money_db (sy_world s) u = Some f" for u f
  proof -
    have "deposit_addrs (money_db (sy_world s)) u = Some (fi_deposit_addr f)" using that by (simp add: deposit_addrs_def)
    then have "deposit_addrs (money_db (sy_world s')) u = Some (fi_deposit_addr f)"
      using k(1) by (metis kept_def map_le_def domI)
    then show ?thesis by (auto simp: deposit_addrs_def)
  qed
  with k show ?thesis by (simp add: kept_def shelf_grows_def)
qed

subsection \<open>Configuring the wallet\<close>

lemma set_settings_run:
  assumes "\<forall>m < k. try_settings (wallets (n + m)) = Done False" "try_settings (wallets (n + k)) = Done True"
  shows "set_settings wallets n = Some (Done ())"
  using assms
proof (induction k arbitrary: n)
  case 0
  then show ?case by (simp add: set_settings.simps [of wallets n])
next
  case (Suc k)
  have "set_settings wallets (Suc n) = Some (Done ())"
  proof (rule Suc.IH)
    show "\<forall>m < k. try_settings (wallets (Suc n + m)) = Done False"
      using Suc.prems(1) by (metis Suc_mono add_Suc_shift)
  qed (use Suc.prems(2) in simp)
  moreover have "try_settings (wallets n) = Done False" using Suc.prems(1) by force
  ultimately show ?case by (simp add: set_settings.simps [of wallets n])
qed

definition settles :: "(nat \<Rightarrow> ('v, 'h, 'b, 'tx) wallet) \<Rightarrow> nat \<Rightarrow> bool" where
  "settles wallets n \<longleftrightarrow>
    (\<exists>k. (\<forall>m < k. try_settings (wallets (n + m)) = Done False) \<and> try_settings (wallets (n + k)) = Done True)"

lemma settles_later:
  assumes "try_settings (wallets n) = Done False" "settles wallets (Suc n)"
  shows "settles wallets n"
proof -
  obtain k where "\<forall>m < k. try_settings (wallets (Suc n + m)) = Done False" "try_settings (wallets (Suc n + k)) = Done True"
    using assms(2) by (auto simp: settles_def)
  with assms(1) show ?thesis unfolding settles_def
    by (intro exI [of _ "Suc k"]) (auto simp: less_Suc_eq_0_disj)
qed

lemma set_settings_returned:
  fixes wallets :: "nat \<Rightarrow> ('v, 'h, 'b, 'tx) wallet"
  assumes "set_settings wallets n = Some (Done ())"
  shows "settles wallets n"
proof -
  have "x = Done () \<longrightarrow> settles wallets n" if ret: "set_settings wallets n = Some x" for x
  proof (rule set_settings.raw_induct [where P = "\<lambda>wallets n x. x = Done () \<longrightarrow> settles wallets n", OF _ ret])
    fix f and wallets :: "nat \<Rightarrow> ('v, 'h, 'b, 'tx) wallet" and n x
    assume IH: "\<And>wallets n x. f wallets n = Some x \<Longrightarrow> x = Done () \<longrightarrow> settles wallets n"
      and eq: "(case try_settings (wallets n) of Panic \<Rightarrow> Some Panic
        | Done ok \<Rightarrow> if ok then Some (Done ()) else f wallets (Suc n)) = Some x"
    show "x = Done () \<longrightarrow> settles wallets n"
    proof (cases "try_settings (wallets n) = Done True")
      case True
      then have "settles wallets n" unfolding settles_def by (intro exI [of _ 0]) simp
      then show ?thesis by simp
    next
      case False
      then show ?thesis using eq IH [of wallets "Suc n" x] settles_later [of wallets n]
        by (auto split: outcome.splits if_splits)
    qed
  qed
  with assms show ?thesis by blast
qed

text \<open>
  C40: The task that configures the wallet ends exactly if some try succeeds, none before it having panicked: it does
  not give up, and it does not stop early.
\<close>

theorem settings_returns:
  "set_settings wallets 0 = Some (Done ()) \<longleftrightarrow>
    (\<exists>k. try_settings (wallets k) = Done True \<and> (\<forall>m < k. try_settings (wallets m) = Done False))"
  using set_settings_run [of _ wallets 0] set_settings_returned [of wallets 0] by (auto simp: settles_def)

lemma example_settings: "try_settings example_wallet = Done True"
  by (simp add: try_settings_def DAEMON_ADDR_def wallet_set_daemon_def wallet_set_refresh_time_def example_wallet_def
    example_wallet_rpc_def wallet_rpc_new_def rpc_set_daemon_def rpc_set_refresh_time_def request_def request_with_def upt_rec
    json_tree_api_def field_def map_err_def)

theorem settings_returns_witness: "set_settings (\<lambda>_. example_wallet) 0 = Some (Done ())"
  using settings_returns [of "\<lambda>_. example_wallet"] example_settings by auto

subsection \<open>An example\<close>

text \<open>A server is installed, Alice signs up, and the server restarts.\<close>

definition installed_system :: system where
  "installed_system = \<lparr>sy_world = captcha_world, sy_uploads = Map.empty, sy_batch = None\<rparr>"

definition alice_signs_up :: "system \<Rightarrow> system" where
  "alice_signs_up = in_world (serve example_env example_wallet \<lparr>dr_salt = [7], dr_cookie = ''c'', dr_random_bytes = [],
    dr_captcha = None, dr_open_error = None, dr_users = [], dr_items = []\<rparr> (Some ''127.0.0.1'') (Post_signup alice_request))"

lemma installed_reachable: "reachable example_env by_hash wallets installed_system"
  unfolding installed_system_def
  by (rule reachable.installed [of captcha_world])
    (simp_all add: blank_def captcha_world_def empty_world_def boot_def init_software_id_def fresh_memory_def
      run_rules and_then_def modify_def db_iter_def Let_def store_defs)

lemma alice_step: "sys_step example_env by_hash {example_wallet} s (alice_signs_up s)"
  unfolding alice_signs_up_def by (rule sys_step.request) simp_all

lemma alice_reachable: "reachable example_env by_hash {example_wallet} (alice_signs_up installed_system)"
  by (rule reachable.step [OF installed_reachable alice_step])

lemma alice_session: "has_session (sy_world (alice_signs_up installed_system)) ''alice'' ''c''"
proof -
  obtain w' where run: "register example_env example_wallet [7] ''c'' alice_request (Some ''127.0.0.1'') captcha_world =
      (Done (answer OK alice_response), w')"
    using alice_registers by (metis prod.collapse)
  from wp_done [OF register_success_wp run] have "has_session w' ''alice'' ''c''"
    by (auto simp: registered_def Let_def has_session_def fresh_cookie_def dest!: data_eqD(2))
  then show ?thesis
    by (simp add: alice_signs_up_def installed_system_def in_world_def snd_reply run)
qed

theorem sessions_authorise_witness:
  "authorised (sy_world (alice_signs_up installed_system)) ''alice'' ''c''"
  using sessions_authorise [OF example_reads_whole lossy_ok_example by_hash_all alice_reachable] alice_session by blast


theorem reachable_well_formed_witness:
  "\<exists>ck. cookie_db (sy_world (alice_signs_up installed_system)) ''alice'' = Some ck \<and> ac_username ck = ''alice''"
  using reachable_well_formed [OF example_reads_whole lossy_ok_example by_hash_all alice_reachable] alice_session
  by (auto simp: has_session_def split: option.splits)

theorem nothing_lost_witness:
  "auth_db (sy_world (alice_signs_up installed_system)) \<subseteq>\<^sub>m
    auth_db (sy_world (alice_signs_up (alice_signs_up installed_system)))"
  using nothing_lost [OF example_reads_whole lossy_ok_example by_hash_all alice_reachable r_into_rtranclp, OF alice_step] by blast

end
