(* ===== verification/Withdrawals.thy ===== *)
theory Withdrawals
  imports System
begin

section \<open>Withdrawals of the running server\<close>

text \<open>
  A withdrawal passes from \<open>withdraw_monero\<close> through the channel to \<open>receive_request\<close>, waits in the list of pending
  requests and leaves with \<open>send_pending\<close> (src/money.rs), while everything else goes on. Here: what may get on
  this way, that the tasks do not panic on it, and a withdrawal of the running server from installation on.
\<close>

subsection \<open>Withdrawals on their way\<close>

text \<open>
  C5: A withdrawal gets on its way only for the holder of an account who is logged in, and goes to the address attached to
  the account: whatever a step of a reachable server does, a request that is queued afterwards was queued before,
  or its user has a session and an account, whose attached address and subaddress are those of the request. (A withdrawal is
  one step here. In the program the daemon is asked for the fee between the test of the cookie and the reading of the
  account, so the session may have ended in between.)
\<close>

theorem withdrawals_entitled:
  assumes laws: "reads_whole env" "lossy_ok env" "iterates_all file_order"
    and "reachable env file_order wallets s" "sys_step env file_order wallets s s'"
    and "req \<in> queued (sy_world s')" "req \<notin> queued (sy_world s)"
  shows "(\<exists>c. has_session (sy_world s) (tq_username req) c) \<and>
    (\<exists>f. money_db (sy_world s) (tq_username req) = Some f \<and> fi_xmr_addr f = Some (tq_dst req) \<and>
      tq_addr_index req = ts_addr_index (fi_transfers f))"
proof -
  from step_goes_on [OF laws reachable_inv [OF assms(1-4)] assms(5)]
  have "pays (sy_world s) (sy_world s')" by (simp add: goes_on_def moves_on_def)
  with assms(6,7) have "entitled (sy_world s) req" by (auto simp: pays_def)
  then show ?thesis by (auto simp: entitled_def authorised_def has_session_def split: option.splits)
qed

text \<open>Every request on its way belongs to an account.\<close>

definition queue_owned :: "world \<Rightarrow> bool" where
  "queue_owned w \<longleftrightarrow> (\<forall>req \<in> queued w. money_db w (tq_username req) \<noteq> None)"

lemma queue_owned_moves_on:
  assumes "moves_on env w w'" "queue_owned w"
  shows "queue_owned w'"
  unfolding queue_owned_def
proof
  fix req assume "req \<in> queued w'"
  with assms have "money_db w (tq_username req) \<noteq> None"
    by (auto simp: moves_on_def pays_def entitled_def queue_owned_def)
  then have "tq_username req \<in> dom (deposit_addrs (money_db w))" by (auto simp: deposit_addrs_def)
  with assms(1) have "tq_username req \<in> dom (deposit_addrs (money_db w'))"
    by (auto simp: moves_on_def kept_def dest!: map_le_implies_dom_le)
  then show "money_db w' (tq_username req) \<noteq> None" by (auto simp: deposit_addrs_def)
qed

lemma reachable_queue_owned:
  assumes laws: "reads_whole env" "lossy_ok env" "iterates_all file_order"
    and "reachable env file_order wallets s"
  shows "queue_owned (sy_world s)"
  using assms(4)
proof (induction rule: reachable.induct)
  case (installed w w')
  have "wp (init_software_id []) (\<lambda>_ w'. queued w' = {}) (\<lambda>_. True) (fresh_memory w)"
    by (rule wp_conseq [OF init_software_id_wp]) (use installed(1) in
      \<open>auto simp: blank_def enumerates_def fresh_memory_def queued_def\<close>)
  from wp_done [OF this, of "()" w'] installed(2) have "queued w' = {}"
    by (simp add: boot_def and_then_def modify_def)
  then show ?case by (simp add: queue_owned_def)
next
  case (step s s')
  from step_goes_on [OF laws reachable_inv [OF laws step.hyps(1)] step.hyps(2)]
  have "moves_on env (sy_world s) (sy_world s')" by (simp add: goes_on_def)
  from queue_owned_moves_on [OF this step.IH] show ?case .
qed

text \<open>
  C25: The tasks of the withdrawals do not get stuck: in every reachable state all requests on their way belong to accounts, so
  that, as long as sled does not fail, the receiving task ends its round without a panic, which would close the
  channel for good, and so does the sending task unless the wallet itself panics.
\<close>

theorem withdrawal_tasks_run:
  assumes laws: "reads_whole env" "lossy_ok env" "iterates_all file_order"
    and "reachable env file_order wallets s" "sled_faults (sy_world s) = []"
    and "\<And>j. j < length (pending_requests (sy_world s)) \<Longrightarrow>
      transfer_result (ws j) (pending_requests (sy_world s) ! j) \<noteq> Panic"
  shows "fst (receive_request (sy_world s)) = Done () \<and> fst (send_pending ws (sy_world s)) = Done ()"
proof
  have owned: "\<forall>req \<in> queued (sy_world s). money_db (sy_world s) (tq_username req) \<noteq> None"
    using reachable_queue_owned [OF assms(1-4)] by (simp add: queue_owned_def)
  then show "fst (receive_request (sy_world s)) = Done ()"
    using assms(5) by (auto simp: receive_request_def queue_request_def auth_defs run_rules and_then_def modify_def ret_def
      queued_def split: list.split prod.split outcome.split)
  show "fst (send_pending ws (sy_world s)) = Done ()"
    using send_from_run [OF assms(5), of "[]" "pending_requests (sy_world s)" ws 0] assms(6) owned
    by (simp add: send_pending_def run_rules queued_def)
qed

subsection \<open>An example\<close>

text \<open>After Alice has signed up, a round of the balances finds a deposit, Alice attaches an address and withdraws.\<close>

abbreviation bank_wallets :: "(json_value, string, bytes, bytes) wallet set" where
  "bank_wallets \<equiv> {example_wallet, two_wallet 90000000 0}"

abbreviation at_rest :: "world \<Rightarrow> system" where
  "at_rest w \<equiv> \<lparr>sy_world = w, sy_uploads = Map.empty, sy_batch = None\<rparr>"

definition used_up :: "world \<Rightarrow> world" where
  "used_up w = w\<lparr>captcha_db := (captcha_db captcha_world)(example_hash := None)\<rparr>"

lemma data_surroundings:
  assumes "data w' = data w"
  shows "surroundings w w'"
proof -
  have "w' = w\<lparr>clock := clock w', sled_faults := sled_faults w', io_faults := io_faults w', log_queue := log_queue w',
      log_open := log_open w'\<rparr>"
    using assms by (cases w; cases w') (simp add: data_def)
  with data_eqD(17) [OF assms] show ?thesis unfolding surroundings_def by (metis order_refl)
qed

lemma reachable_data:
  assumes "reachable env file_order wallets s" "data w = data (sy_world s)"
  shows "reachable env file_order wallets (s\<lparr>sy_world := w\<rparr>)"
  by (rule reachable.step [OF assms(1)], rule sys_step.environment, rule data_surroundings, rule assms(2))

lemma reachable_request:
  assumes "reachable env file_order wallets (at_rest w)" "wallet \<in> wallets" "\<nexists>r. req = Post_new_software r"
    and "data (snd (serve env wallet d ip req w)) = data w'"
  shows "reachable env file_order wallets (at_rest w')"
proof -
  have "sys_step env file_order wallets (at_rest w) (in_world (serve env wallet d ip req) (at_rest w))"
    by (rule sys_step.request) (use assms(2,3) in blast)+
  from reachable_data [OF reachable.step [OF assms(1) this], of w'] assms(4) show ?thesis
    by (simp add: in_world_def)
qed

abbreviation draw :: draws where
  "draw \<equiv> \<lparr>dr_salt = [7], dr_cookie = ''c'', dr_random_bytes = [], dr_captcha = None, dr_open_error = None,
    dr_users = [], dr_items = []\<rparr>"

lemma signed_up: "reachable example_env by_hash bank_wallets (at_rest (used_up alice_world))"
proof -
  obtain w' where run: "register example_env example_wallet [7] ''c'' alice_request (Some ''127.0.0.1'') captcha_world =
      (Done (answer OK alice_response), w')"
    using alice_registers by (metis prod.collapse)
  have "data w' = data (used_up alice_world)"
    using wp_done [OF register_success_wp run] alice_captcha(1)
    by (auto simp: registered_def Let_def alice_address alice_world_def alice_def used_up_def captcha_world_def empty_world_def)
  then show ?thesis
    using reachable_request [of example_env by_hash bank_wallets captcha_world example_wallet "Post_signup alice_request"
        draw "Some ''127.0.0.1''"] installed_reachable [of bank_wallets]
    by (simp add: installed_system_def snd_reply run)
qed

lemma paid_in: "reachable example_env by_hash bank_wallets
    (at_rest (used_up (alice_world\<lparr>money_db := [''alice'' \<mapsto> example_account 90000000 0]\<rparr>)))"
proof -
  let ?w = "used_up alice_world" and ?b = "Inr (two_balances 90000000 0) :: wallet_error + wallet_balance"
  have w: "healthy ?w" "money_db ?w = [''alice'' \<mapsto> financial_info_new 1 ''4a'']" "all_transfers ?w = []"
    by (simp_all add: used_up_def alice_world_def healthy_def captcha_world_def empty_world_def)
  obtain q where run: "acc_balances_batch (two_wallet 90000000 0) [''alice''] ?w =
      (Done [(''alice'', refreshed [] ?b ?b (financial_info_new 1 ''4a''))], ?w\<lparr>log_queue := q\<rparr>)"
    using acc_balances_batch_run [OF w(1) _ _ refl two_wallet_answers(2,3), of "[''alice'']" 90000000 0] w(2,3)
    by (auto simp: enumerates_def financial_info_new_def)
  have acc: "refreshed [] ?b ?b (financial_info_new 1 ''4a'') = example_account 90000000 0"
    by (simp add: refreshed_def financial_info_new_def find_two_balances example_account_def Let_def)
  let ?s = "\<lparr>sy_world = ?w\<lparr>log_queue := q\<rparr>, sy_uploads = Map.empty, sy_batch = Some [(''alice'', example_account 90000000 0)]\<rparr>"
  have "reachable example_env by_hash bank_wallets ?s"
    using reachable.step [OF signed_up sys_step.read_balances, of "two_wallet 90000000 0"] run by (simp add: acc)
  from reachable.step [OF this sys_step.write_balances]
  have "reachable example_env by_hash bank_wallets
      (at_rest (?w\<lparr>log_queue := q, money_db := [''alice'' \<mapsto> example_account 90000000 0]\<rparr>))"
    using w(1,2) by (simp add: in_world_def db_apply_batch_def run_rules store_defs healthy_def)
  from reachable_data [OF this, of "used_up (alice_world\<lparr>money_db := [''alice'' \<mapsto> example_account 90000000 0]\<rparr>)"]
  show ?thesis by (simp add: used_up_def data_def)
qed

lemma alice_attaches:
  assumes "healthy w" "authorised w ''alice'' ''c''" "money_db w ''alice'' = Some f"
  shows "\<exists>q. snd (attach_xmr_address example_env (Some ''127.0.0.1'') \<lparr>ax_username = ''alice'', ax_auth_cookie = ''c'',
      ax_monero_address = ''4b''\<rparr> w) =
    w\<lparr>money_db := (money_db w)(''alice'' \<mapsto> f\<lparr>fi_xmr_addr := Some ''4b''\<rparr>), log_queue := q\<rparr>"
  using assms by (auto simp: attach_xmr_address_def user_then_cookie_def auth_defs healthy_def run_rules Let_def
    authorised_def example_env_def example_addr_api_def split: option.splits)

lemma attached: "reachable example_env by_hash bank_wallets (at_rest (used_up (bank_world 90000000)))"
proof (rule reachable_request [OF paid_in, of example_wallet "Post_attach_xmr_address \<lparr>ax_username = ''alice'',
    ax_auth_cookie = ''c'', ax_monero_address = ''4b''\<rparr>" draw "Some ''127.0.0.1''"])
  let ?w = "used_up (alice_world\<lparr>money_db := [''alice'' \<mapsto> example_account 90000000 0]\<rparr>)"
  have w: "healthy ?w" "authorised ?w ''alice'' ''c''" "money_db ?w ''alice'' = Some (example_account 90000000 0)"
    by (simp_all add: used_up_def alice_world_def healthy_def captcha_world_def empty_world_def authorised_def fresh_cookie_def)
  from alice_attaches [OF this]
  show "data (snd (serve example_env example_wallet draw (Some ''127.0.0.1'') (Post_attach_xmr_address
      \<lparr>ax_username = ''alice'', ax_auth_cookie = ''c'', ax_monero_address = ''4b''\<rparr>) ?w)) =
    data (used_up (bank_world 90000000))"
    by (auto simp: snd_reply used_up_def bank_world_def alice_account_def data_def)
qed simp_all

text \<open>One step more, and one transfer is on its way.\<close>

definition alice_asks :: "system \<Rightarrow> system" where
  "alice_asks = in_world (serve example_env example_wallet draw (Some ''127.0.0.1'')
    (Post_withdraw_xmr (alice_withdraws 50000000)))"

lemma alice_asks_step: "sys_step example_env by_hash bank_wallets s (alice_asks s)"
  unfolding alice_asks_def by (rule sys_step.request) simp_all

lemma alice_asked: "sy_world (alice_asks (at_rest (used_up (bank_world 90000000)))) = used_up (alice_withdrew 90000000)"
  using bank_world_facts [of 90000000]
  by (auto simp: alice_asks_def in_world_def snd_reply used_up_def withdraw_defs user_then_cookie_def auth_defs healthy_def
    run_rules Let_def example_uptodate_fee authorised_def checked_sub_def send_transfer_req_def alice_account_facts
    alice_withdrew_def alice_transfer_def split: option.splits)

theorem withdrawals_entitled_witness:
  "alice_transfer \<in> queued (used_up (alice_withdrew 90000000)) \<and>
    (\<exists>c. has_session (used_up (bank_world 90000000)) ''alice'' c) \<and>
    (\<exists>f. money_db (used_up (bank_world 90000000)) ''alice'' = Some f \<and> fi_xmr_addr f = Some ''4b'')"
proof -
  have after: "alice_transfer \<in> queued (used_up (alice_withdrew 90000000))"
    by (simp add: queued_def used_up_def alice_withdrew_def)
  have before: "alice_transfer \<notin> queued (used_up (bank_world 90000000))"
    using bank_world_facts(5,6) [of 90000000] by (simp add: queued_def used_up_def)
  show ?thesis
    using withdrawals_entitled [OF example_reads_whole lossy_ok_example by_hash_all attached alice_asks_step,
        of alice_transfer] after before
    by (auto simp: alice_asked alice_transfer_def)
qed

text \<open>Both withdrawal tasks get through with it.\<close>

abbreviation waiting :: world where
  "waiting \<equiv> (used_up (alice_withdrew 90000000))\<lparr>monero_tx := [], pending_requests := [alice_transfer]\<rparr>"

lemma alice_waits: "reachable example_env by_hash bank_wallets (at_rest waiting)"
proof -
  let ?s = "alice_asks (at_rest (used_up (bank_world 90000000)))"
  have "snd (receive_request (used_up (alice_withdrew 90000000))) = waiting"
    using bank_world_facts [of 90000000]
    by (simp add: receive_request_def queue_request_def auth_defs run_rules healthy_def used_up_def alice_withdrew_def
      alice_transfer_def alice_account_facts)
  then have "in_world receive_request ?s = at_rest waiting"
    using alice_asked by (simp add: in_world_def) (simp add: alice_asks_def in_world_def)
  with reachable.step [OF reachable.step [OF attached alice_asks_step] sys_step.receive] show ?thesis by simp
qed

theorem withdrawal_tasks_run_witness: "fst (send_pending flaky_wallet waiting) = Done ()"
  using withdrawal_tasks_run [OF example_reads_whole lossy_ok_example by_hash_all alice_waits, of flaky_wallet]
    bank_world_facts(1) [of 90000000] flaky_wallet_results(1)
  by (simp add: healthy_def used_up_def alice_withdrew_def)

end
