(* ===== verification/Steps.thy ===== *)
theory Steps
  imports Effects
begin

section \<open>Computations in steps, and many of them at once\<close>

text \<open>
  The handlers run in parallel on the threads of the tokio runtime, and what is atomic there is one call of sled, of an
  atomic counter or of a channel. A computation in steps shows these calls: between two of them the others may run.
  Run without interruption it is a computation of \<open>Effects\<close>.
\<close>

subsection \<open>Computations in steps\<close>

text \<open>Over, with a value or by a panic; or a step that changes the state, and what follows, which depends on the state
  in which the step was taken.\<close>

datatype ('s, 'a) steps = Stop "'a outcome" | Step "'s \<Rightarrow> 's" "'s \<Rightarrow> ('s, 'a) steps"

definition act :: "('s, 'a) eff \<Rightarrow> ('s, 'a) steps" where
  "act m = Step (\<lambda>s. snd (m s)) (\<lambda>s. Stop (fst (m s)))"

primrec then_do :: "('s, 'a) steps \<Rightarrow> ('a \<Rightarrow> ('s, 'b) steps) \<Rightarrow> ('s, 'b) steps" where
  "then_do (Stop r) f = (case r of Done x \<Rightarrow> f x | Panic \<Rightarrow> Stop Panic)"
| "then_do (Step u k) f = Step u (\<lambda>s. then_do (k s) f)"

abbreviation finish :: "'a \<Rightarrow> ('s, 'a) steps" where
  "finish x \<equiv> Stop (Done x)"

fun each_step :: "('a \<Rightarrow> ('s, unit) steps) \<Rightarrow> 'a list \<Rightarrow> ('s, unit) steps" where
  "each_step f [] = finish ()"
| "each_step f (x # xs) = then_do (f x) (\<lambda>_. each_step f xs)"

primrec run :: "('s, 'a) steps \<Rightarrow> ('s, 'a) eff" where
  "run (Stop r) = lift_outcome r"
| "run (Step u k) = (\<lambda>s. run (k s) (u s))"

lemma run_act [simp]: "run (act m) = m"
  by (simp add: act_def lift_outcome_def)

lemma run_then_do [simp]: "run (then_do p f) = and_then (run p) (\<lambda>x. run (f x))"
proof (induction p)
  case (Stop r)
  then show ?case by (cases r) (simp_all add: and_then_def lift_outcome_def)
next
  case (Step u k)
  then show ?case by (simp add: and_then_def fun_eq_iff)
qed

lemma run_finish [simp]: "run (finish x) = ret x"
  by (simp add: lift_outcome_def ret_def)

lemma run_each_step: "(\<And>x. run (f x) = g x) \<Longrightarrow> run (each_step f xs) = each g xs"
  by (induction xs) (simp_all add: lift_outcome_def ret_def)

text \<open>A case distinction in steps is one when run.\<close>

lemma run_cases [simp]:
  "run (if b then p else q) = (if b then run p else run q)"
  "run (case x of None \<Rightarrow> p | Some v \<Rightarrow> f v) = (case x of None \<Rightarrow> run p | Some v \<Rightarrow> run (f v))"
  "run (case y of Inl e \<Rightarrow> h e | Inr v \<Rightarrow> k v) = (case y of Inl e \<Rightarrow> run (h e) | Inr v \<Rightarrow> run (k v))"
  "run (case z of (a, c) \<Rightarrow> g a c) = (case z of (a, c) \<Rightarrow> run (g a c))"
  "run (case b of True \<Rightarrow> p | False \<Rightarrow> q) = (case b of True \<Rightarrow> run p | False \<Rightarrow> run q)"
  "run (Let t l) = run (l t)"
  by (simp_all split: option.split sum.split prod.split bool.split)

lemma then_do_assoc: "then_do (then_do p f) g = then_do p (\<lambda>x. then_do (f x) g)"
  by (induction p) (auto split: outcome.split)

subsection \<open>A pool of computations\<close>

type_synonym ('s, 'a) pool = "nat \<rightharpoonup> ('s, 'a) steps"

text \<open>Any computation of the pool takes its next step, one of the \<open>jobs\<close> arrives, or the surroundings change. States
  that are not \<open>ok\<close> are where the model ends.\<close>

inductive par_step ::
    "('s, 'a) steps set \<Rightarrow> ('s \<Rightarrow> 's \<Rightarrow> bool) \<Rightarrow> ('s \<Rightarrow> bool) \<Rightarrow> 's \<times> ('s, 'a) pool \<Rightarrow> 's \<times> ('s, 'a) pool \<Rightarrow> bool"
  for jobs env ok where
  advance: "ok s \<Longrightarrow> ps t = Some (Step u k) \<Longrightarrow> par_step jobs env ok (s, ps) (u s, ps(t \<mapsto> k s))"
| arrive: "p \<in> jobs \<Longrightarrow> ps t = None \<Longrightarrow> par_step jobs env ok (s, ps) (s, ps(t \<mapsto> p))"
| around: "env s s' \<Longrightarrow> par_step jobs env ok (s, ps) (s', ps)"

inductive_cases par_stepE: "par_step jobs env ok c c'"

abbreviation par_steps where
  "par_steps jobs env ok \<equiv> (par_step jobs env ok)\<^sup>*\<^sup>*"

text \<open>All states a computation passes through when it is left alone are \<open>ok\<close>.\<close>

primrec passes :: "('s \<Rightarrow> bool) \<Rightarrow> ('s, 'a) steps \<Rightarrow> 's \<Rightarrow> bool" where
  "passes ok (Stop r) = (\<lambda>_. True)"
| "passes ok (Step u k) = (\<lambda>s. ok s \<and> passes ok (k s) (u s))"

lemma passes_act [simp]:
  "passes ok (act m) s = ok s"
  "passes ok (then_do (act m) f) s = (ok s \<and> wp m (\<lambda>x. passes ok (f x)) (\<lambda>_. True) s)"
  by (auto simp: act_def wp_def split: prod.split outcome.split)

text \<open>A case distinction passes what its case does.\<close>

lemma passes_branches [simp]:
  "passes ok (if b then p else q) s = (if b then passes ok p s else passes ok q s)"
  "passes ok (case x of None \<Rightarrow> p | Some v \<Rightarrow> f v) s = (case x of None \<Rightarrow> passes ok p s | Some v \<Rightarrow> passes ok (f v) s)"
  "passes ok (case y of Inl e \<Rightarrow> h e | Inr v \<Rightarrow> k v) s = (case y of Inl e \<Rightarrow> passes ok (h e) s | Inr v \<Rightarrow> passes ok (k v) s)"
  "passes ok (case z of (a, c) \<Rightarrow> g a c) s = (case z of (a, c) \<Rightarrow> passes ok (g a c) s)"
  "passes ok (case b of True \<Rightarrow> p | False \<Rightarrow> q) s = (case b of True \<Rightarrow> passes ok p s | False \<Rightarrow> passes ok q s)"
  by (simp_all split: option.split sum.split prod.split bool.split)

lemma passes_each:
  assumes "\<And>x s. ok s \<Longrightarrow> wp (m x) (\<lambda>_. ok) (\<lambda>_. True) s" "ok s"
  shows "passes ok (then_do (each_step (\<lambda>x. act (m x)) xs) (\<lambda>_. finish r)) s"
  using assms(2)
proof (induction xs arbitrary: s)
  case (Cons x xs)
  have "wp (m x) (\<lambda>_. passes ok (then_do (each_step (\<lambda>x. act (m x)) xs) (\<lambda>_. finish r))) (\<lambda>_. True) s"
    by (rule wp_conseq [OF assms(1) [OF Cons.prems]]) (use Cons.IH in simp_all)
  with Cons.prems show ?case by (simp add: then_do_assoc)
qed simp

text \<open>A computation that is left alone, from any point of its on, ends as \<open>run\<close> says.\<close>

lemma left_alone:
  "ps t = Some p \<Longrightarrow> passes ok p s \<Longrightarrow> run p s = (r, s') \<Longrightarrow> par_steps jobs env ok (s, ps) (s', ps(t \<mapsto> Stop r))"
proof (induction p arbitrary: s ps)
  case (Stop r')
  then have "ps(t \<mapsto> Stop r) = ps" "s' = s" by (auto simp: lift_outcome_def)
  then show ?case by simp
next
  case (Step u k)
  have "par_step jobs env ok (s, ps) (u s, ps(t \<mapsto> k s))"
    by (rule par_step.advance) (use Step.prems(1,2) in simp_all)
  moreover have "par_steps jobs env ok (u s, ps(t \<mapsto> k s)) (s', (ps(t \<mapsto> k s))(t \<mapsto> Stop r))"
    by (rule Step.IH) (use Step.prems(2,3) in auto)
  ultimately show ?case unfolding fun_upd_upd by (rule converse_rtranclp_into_rtranclp)
qed

text \<open>The first \<open>n\<close> steps of a computation.\<close>

fun ahead :: "nat \<Rightarrow> ('s, 'a) steps \<Rightarrow> 's \<Rightarrow> ('s, 'a) steps \<times> 's" where
  "ahead 0 p s = (p, s)"
| "ahead (Suc n) (Stop r) s = (Stop r, s)"
| "ahead (Suc n) (Step u k) s = ahead n (k s) (u s)"

lemma ahead_act [simp]:
  "ahead (Suc n) (then_do (act m) f) s =
    (case m s of (Done x, s') \<Rightarrow> ahead n (f x) s' | (Panic, s') \<Rightarrow> (Stop Panic, s'))"
  by (cases n) (simp_all add: act_def split: prod.split outcome.split)

lemma going_ahead:
  "ps t = Some p \<Longrightarrow> passes ok p s \<Longrightarrow> ahead n p s = (p', s') \<Longrightarrow> par_steps jobs env ok (s, ps) (s', ps(t \<mapsto> p'))"
proof (induction n p s arbitrary: ps rule: ahead.induct)
  case (1 p s)
  then have "ps(t \<mapsto> p') = ps" "s' = s" by auto
  then show ?case by simp
next
  case (2 n r s)
  then have "ps(t \<mapsto> p') = ps" "s' = s" by auto
  then show ?case by simp
next
  case (3 n u k s)
  have "par_step jobs env ok (s, ps) (u s, ps(t \<mapsto> k s))"
    by (rule par_step.advance) (use 3 in simp_all)
  moreover have "par_steps jobs env ok (u s, ps(t \<mapsto> k s)) (s', (ps(t \<mapsto> k s))(t \<mapsto> p'))"
    by (rule 3(1)) (use 3(3,4) in auto)
  ultimately show ?case unfolding fun_upd_upd by (rule converse_rtranclp_into_rtranclp)
qed

text \<open>Of two computations, the first goes \<open>n\<close> steps, the second runs from beginning to end, then, maybe later, the first goes
  on.\<close>

lemma interrupted_later:
  assumes "passes ok p s" "passes ok p' s1" "passes ok q s2'"
    and "ahead n p s = (q, s1)" "run p' s1 = (r', s2)" "s2' = s2 \<or> env s2 s2'" "run q s2' = (r, s3)"
  shows "par_steps jobs env ok (s, [0 \<mapsto> p, 1 \<mapsto> p']) (s3, [0 \<mapsto> Stop r, 1 \<mapsto> Stop r'])"
proof -
  let ?go = "par_steps jobs env ok"
  let ?ps = "[(0::nat) \<mapsto> p, 1 \<mapsto> p', 0 \<mapsto> q]"
  have 1: "?go (s, [0 \<mapsto> p, 1 \<mapsto> p']) (s1, ?ps)"
    by (rule going_ahead [where p = p and n = n]) (simp_all add: assms)
  have 2: "?go (s1, ?ps) (s2, ?ps(1 \<mapsto> Stop r'))"
    by (rule left_alone [where p = p']) (simp_all add: assms)
  have later: "?go (s2, ?ps(1 \<mapsto> Stop r')) (s2', ?ps(1 \<mapsto> Stop r'))"
    using assms(6) by (auto intro: par_step.around)
  have 3: "?go (s2', ?ps(1 \<mapsto> Stop r')) (s3, ?ps(1 \<mapsto> Stop r', 0 \<mapsto> Stop r))"
    by (rule left_alone [where p = q]) (simp_all add: assms)
  have "?ps(1 \<mapsto> Stop r', 0 \<mapsto> Stop r) = [(0::nat) \<mapsto> Stop r, 1 \<mapsto> Stop r']" by (rule ext) simp
  with rtranclp_trans [OF rtranclp_trans [OF rtranclp_trans [OF 1 2] later] 3] show ?thesis by simp
qed

lemma interrupted:
  assumes "passes ok p s" "passes ok p' s1" "passes ok q s2"
    and "ahead n p s = (q, s1)" "run p' s1 = (r', s2)" "run q s2 = (r, s3)"
  shows "par_steps jobs env ok (s, [0 \<mapsto> p, 1 \<mapsto> p']) (s3, [0 \<mapsto> Stop r, 1 \<mapsto> Stop r'])"
  by (rule interrupted_later [OF assms(1-5) _ assms(6)]) simp

lemma two_arrive:
  assumes "p \<in> jobs" "p' \<in> jobs" "par_steps jobs env ok (s, [0 \<mapsto> p, 1 \<mapsto> p']) c"
  shows "par_steps jobs env ok (s, Map.empty) c"
proof -
  have 1: "par_step jobs env ok (s, Map.empty) (s, [0 \<mapsto> p])"
    by (rule par_step.arrive) (simp_all add: assms)
  have 2: "par_step jobs env ok (s, [0 \<mapsto> p]) (s, [0 \<mapsto> p, 1 \<mapsto> p'])"
    by (rule par_step.arrive) (simp_all add: assms)
  show ?thesis by (rule converse_rtranclp_into_rtranclp [OF 1 converse_rtranclp_into_rtranclp [OF 2 assms(3)]])
qed

subsection \<open>Protocols\<close>

text \<open>
  What holds of the state whatever is interleaved is proved like this: every computation keeps to a protocol \<open>T\<close>. It
  says how a step may change the state, given what the computation knows or holds (\<open>g\<close>), and what it knows or holds
  afterwards. A is what it must know when it is over.
\<close>

primrec obeys ::
    "('g \<Rightarrow> 's \<Rightarrow> 's \<Rightarrow> 'g \<Rightarrow> bool) \<Rightarrow> ('a outcome \<Rightarrow> 'g \<Rightarrow> bool) \<Rightarrow> ('s, 'a) steps \<Rightarrow> 'g \<Rightarrow> bool" where
  "obeys T A (Stop r) = A r"
| "obeys T A (Step u k) = (\<lambda>g. \<forall>s. \<exists>g'. T g s (u s) g' \<and> obeys T A (k s) g')"

lemma obeys_then:
  "obeys T A (then_do p f) g = obeys T (\<lambda>r g. case r of Done x \<Rightarrow> obeys T A (f x) g | Panic \<Rightarrow> A Panic g) p g"
  by (induction p arbitrary: g) (auto split: outcome.split)

lemma obeys_act:
  assumes "\<And>s. wp m (\<lambda>x s'. \<exists>g'. T g s s' g' \<and> A (Done x) g') (\<lambda>s'. \<exists>g'. T g s s' g' \<and> A Panic g') s"
  shows "obeys T A (act m) g"
  unfolding act_def obeys.simps
proof
  fix s
  show "\<exists>g'. T g s (snd (m s)) g' \<and> A (fst (m s)) g'"
    using assms [of s] by (cases "m s") (auto simp: wp_def split: outcome.splits)
qed

lemma obeys_conseq: "obeys T A p g \<Longrightarrow> (\<And>r g. A r g \<Longrightarrow> A' r g) \<Longrightarrow> obeys T A' p g"
  by (induction p arbitrary: g) (simp, fastforce)

lemma obeys_embed:
  assumes "\<And>g s s' g'. T g s s' g' \<Longrightarrow> T' (e g) s s' (e g')"
  shows "obeys T A p g \<Longrightarrow> obeys T' (\<lambda>_ _. True) p (e g)"
  by (induction p arbitrary: g) (simp, fastforce dest: assms)

lemma obeys_each:
  assumes "\<And>x g. x \<in> set xs \<Longrightarrow> obeys T (\<lambda>_ _. True) (f x) g"
  shows "obeys T (\<lambda>_ _. True) (each_step f xs) g"
  using assms
proof (induction f xs arbitrary: g rule: each_step.induct)
  case (2 f y ys g)
  have "obeys T (\<lambda>_ _. True) (f y) g" using 2(2) by simp
  then have "obeys T (\<lambda>r g. case r of Done _ \<Rightarrow> obeys T (\<lambda>_ _. True) (each_step f ys) g | Panic \<Rightarrow> True) (f y) g"
    by (rule obeys_conseq) (use 2 in \<open>auto split: outcome.split\<close>)
  then show ?case by (simp add: obeys_then)
qed simp

text \<open>A computation all of whose steps are of one kind, and which ends with a value as described, keeps to any protocol
  that allows such steps to those who hold what they hold.\<close>

primrec within :: "('s \<Rightarrow> 's \<Rightarrow> bool) \<Rightarrow> ('a \<Rightarrow> bool) \<Rightarrow> ('s, 'a) steps \<Rightarrow> bool" where
  "within R V (Stop r) = (case r of Done x \<Rightarrow> V x | Panic \<Rightarrow> True)"
| "within R V (Step u k) = (\<forall>s. R s (u s) \<and> within R V (k s))"

lemma within_then: "within R U p \<Longrightarrow> (\<And>x. U x \<Longrightarrow> within R V (f x)) \<Longrightarrow> within R V (then_do p f)"
  by (induction p) (auto split: outcome.splits)

lemma within_act:
  assumes "\<And>s. wp m (\<lambda>x s'. R s s' \<and> V x) (R s) s"
  shows "within R V (act m)"
  unfolding act_def within.simps
proof (intro allI conjI)
  fix s
  show "R s (snd (m s))" "case fst (m s) of Done x \<Rightarrow> V x | Panic \<Rightarrow> True"
    using assms [of s] by (cases "m s"; auto simp: wp_def split: outcome.splits)+
qed

lemma obeys_within:
  assumes "within R V p" "\<And>s s'. R s s' \<Longrightarrow> T g s s' g" "\<And>x. V x \<Longrightarrow> obeys T A (f x) g" "A Panic g"
  shows "obeys T A (then_do p f) g"
  using assms(1)
proof (induction p)
  case (Stop r)
  with assms(3,4) show ?case by (cases r) auto
next
  case (Step u k)
  with assms(2) show ?case by (auto intro!: exI [of _ g])
qed

text \<open>Such a computation, when left alone, passes through \<open>ok\<close> states only if its steps keep them.\<close>

lemma passes_within:
  assumes "within R V p" "ok s" "\<And>s s'. R s s' \<Longrightarrow> ok s \<Longrightarrow> ok s'" "\<And>x s. ok s \<Longrightarrow> passes ok (f x) s"
  shows "passes ok (then_do p f) s"
  using assms(1,2)
proof (induction p arbitrary: s)
  case (Stop r)
  with assms(4) show ?case by (cases r) auto
next
  case (Step u k)
  from Step.prems have "R s (u s)" "within R V (k s)" by simp_all
  with Step.IH [OF rangeI this(2)] assms(3) Step.prems(2) show ?case by simp
qed

lemma passes_then_finish: "passes ok p s \<Longrightarrow> passes ok (then_do p (\<lambda>x. finish (f x))) s"
  by (induction p arbitrary: s) (auto split: outcome.split)

text \<open>If the protocol keeps an invariant of the state and of what the computations hold, then every interleaving of
  computations that keep to it does.\<close>

locale protocol =
  fixes T :: "'g \<Rightarrow> 's \<Rightarrow> 's \<Rightarrow> 'g \<Rightarrow> bool"
    and none :: 'g
    and env :: "'s \<Rightarrow> 's \<Rightarrow> bool"
    and ok :: "'s \<Rightarrow> bool"
    and inv :: "(nat \<Rightarrow> 'g) \<Rightarrow> 's \<Rightarrow> bool"
  assumes step_law: "inv G s \<Longrightarrow> ok s \<Longrightarrow> T (G t) s s' g' \<Longrightarrow> inv (G(t := g')) s'"
    and arrive_law: "inv G s \<Longrightarrow> inv (G(t := none)) s"
    and around_law: "inv G s \<Longrightarrow> env s s' \<Longrightarrow> inv G s'"
begin

definition abides :: "('a outcome \<Rightarrow> 'g \<Rightarrow> bool) \<Rightarrow> 's \<times> ('s, 'a) pool \<Rightarrow> bool" where
  "abides A c \<longleftrightarrow> (\<exists>G. inv G (fst c) \<and> (\<forall>t p. snd c t = Some p \<longrightarrow> obeys T A p (G t)))"

lemma start: "inv (\<lambda>_. none) s \<Longrightarrow> abides A (s, Map.empty)"
  unfolding abides_def by (rule exI [of _ "\<lambda>_. none"]) simp

lemma one_step:
  assumes "par_step jobs env ok c c'" "abides A c" "\<And>p. p \<in> jobs \<Longrightarrow> obeys T A p none"
  shows "abides A c'"
  using assms(1)
proof cases
  case (advance s ps t u k)
  from assms(2) advance(1) obtain G where G: "inv G s" "\<And>t p. ps t = Some p \<Longrightarrow> obeys T A p (G t)"
    by (auto simp: abides_def)
  from G(2) [OF advance(4)] obtain g' where g': "T (G t) s (u s) g'" "obeys T A (k s) g'" by auto
  have "inv (G(t := g')) (u s)" by (rule step_law [OF G(1) advance(3) g'(1)])
  with G(2) g'(2) show ?thesis unfolding abides_def advance(2)
    by (intro exI [of _ "G(t := g')"]) auto
next
  case (arrive p ps t s)
  from assms(2) arrive(1) obtain G where G: "inv G s" "\<And>t p. ps t = Some p \<Longrightarrow> obeys T A p (G t)"
    by (auto simp: abides_def)
  from arrive_law [OF G(1)] G(2) assms(3) [OF arrive(3)] show ?thesis unfolding abides_def arrive(2)
    by (intro exI [of _ "G(t := none)"]) auto
next
  case (around s s' ps)
  with assms(2) show ?thesis unfolding abides_def by (auto intro: around_law)
qed

lemma all_steps:
  assumes "par_steps jobs env ok c c'" "abides A c" "\<And>p. p \<in> jobs \<Longrightarrow> obeys T A p none"
  shows "abides A c'"
  using assms(1,2) by (induction rule: rtranclp_induct) (auto intro: one_step [OF _ _ assms(3)])

end

end
