(* ===== verification/Interleaved.thy ===== *)
theory Interleaved
  imports Steps System
begin

section \<open>The handlers in steps\<close>

text \<open>
  In \<open>System\<close> a handler is one step. Here the handlers that write anything after their first call (\<open>register\<close> and
  \<open>login\<close> of src/auth.rs, \<open>new_software\<close> and \<open>search_software\<close> of src/software.rs, \<open>attach_xmr_address\<close>,
  \<open>withdraw_monero\<close> and the tasks of src/money.rs) are computations in steps, one for each call of sled, the wallet, the id
  counter, a channel or the log. Run without interruption they are the handlers. One step are the requests that write nothing
  but the log (balances, deposits, profits, captcha and title images), \<open>create_captcha\<close>, which makes one insertion, the
  taking of one request from the channel, a round of the cached fee, and one iteration over a tree: sled reads a tree leaf by
  leaf, so in the program an entry may be as old as its leaf or as new as the moment it is reached.
\<close>

subsection \<open>The database\<close>

definition get_or_insert_steps :: "(world, 'k, 'v) tree \<Rightarrow> 'k \<Rightarrow> 'v \<Rightarrow> (world, sled_error + 'v) steps" where
  "get_or_insert_steps T k v = then_do (act (db_get T k)) (\<lambda>r. case r of
      Inl e \<Rightarrow> finish (Inl e)
    | Inr found \<Rightarrow> (case found of
        Some x \<Rightarrow> finish (Inr x)
      | None \<Rightarrow> then_do (act (unwrapped (db_insert T k v))) (\<lambda>_. finish (Inr v))))"

subsection \<open>Accounts\<close>

definition check_captcha_steps :: "bytes \<Rightarrow> string \<Rightarrow> (world, bool) steps" where
  "check_captcha_steps captcha_hash guess =
     then_do (act (to_array32 captcha_hash)) (\<lambda>key.
     then_do (act (unwrapped (db_get CaptchaDB key))) (\<lambda>found. case found of
         Some captcha \<Rightarrow>
           (if guess = gc_answer captcha
            then then_do (act (to_array32 captcha_hash)) (\<lambda>key.
                 then_do (act (unwrapped (db_remove CaptchaDB key))) (\<lambda>old.
                 then_do (act (unwrap_opt old)) (\<lambda>_. finish True)))
            else finish False)
       | None \<Rightarrow> finish False))"

definition generate_auth_cookie_steps :: "string \<Rightarrow> string \<Rightarrow> (world, gen_auth_cookie_err + auth_cookie) steps" where
  "generate_auth_cookie_steps cookie username = then_do (act (db_contains_key AuthDB username)) (\<lambda>known.
     case known of
       Inl e \<Rightarrow> finish (Inl (DbErr e))
     | Inr False \<Rightarrow> finish (Inl UserDoesntExist)
     | Inr True \<Rightarrow> then_do (act now_u64) (\<lambda>creation_time.
         let auth_cookie = \<lparr>ac_username = username, ac_cookie = cookie,
           ac_creation_time = creation_time,
           ac_expiration_time = creation_time + NINETY_DAYS_AS_SECS\<rparr> in
         then_do (act (db_insert CookieDB (ac_username auth_cookie) auth_cookie)) (\<lambda>r. case r of
             Inl e \<Rightarrow> finish (Inl (DbErr e))
           | Inr _ \<Rightarrow> finish (Inr auth_cookie))))"

text \<open>\<open>register\<close> once the name is known to be free.\<close>

definition register_free_steps ::
    "env \<Rightarrow> ('v, 'h, 'b, 'tx) wallet \<Rightarrow> bytes \<Rightarrow> string \<Rightarrow> auth_request \<Rightarrow> ip_addr option \<Rightarrow>
     (world, auth_req_response response) steps" where
  "register_free_steps env wallet salt cookie auth_req socket_addr =
     (let username = ev_to_lowercase env (ar_username auth_req) in
      case ev_hex_decode env (as_bytes (ar_captcha_hash auth_req)) of
        None \<Rightarrow> finish (deny User ''Invalid hex string'' [] BAD_REQUEST)
      | Some captcha_hash \<Rightarrow>
        (case invalid_user_reason env username of
          Some reason \<Rightarrow>
            then_do (act (log_from socket_addr (Some username) (Registration False) LogAuth
              (reason_to_string reason) Low)) (\<lambda>_.
            finish (deny User (reason_to_string reason) [] BAD_REQUEST))
        | None \<Rightarrow>
            then_do (check_captcha_steps captcha_hash (ar_captcha_answer auth_req)) (\<lambda>correct_captcha.
            if \<not> correct_captcha then finish (deny User ''Incorrect captcha'' [] UNAUTHORIZED)
            else then_do (act (lift_outcome (wallet_create_address wallet username))) (\<lambda>create_acc_res.
              let hashed_password = hash_password env (as_bytes (ar_password auth_req)) salt in
              case create_acc_res of
                Inl err \<Rightarrow>
                  then_do (act (log_from socket_addr (Some username) (Registration False) LogAuth
                    ''Internal Server Error'' High)) (\<lambda>_.
                  finish (deny Server ''Internal Server Error''
                    (''Error creating financial account due to '' @ ev_debug_wallet_error env err)
                    INTERNAL_SERVER_ERROR))
              | Inr (addr, addr_index) \<Rightarrow>
                  then_do (act (unwrapped (db_insert AuthDB username
                    \<lparr>us_username = username, us_salt = salt, us_hashed_password = hashed_password\<rparr>))) (\<lambda>_.
                  then_do (act (unwrapped (db_insert MoneyDB username (financial_info_new addr_index addr)))) (\<lambda>_.
                  then_do (generate_auth_cookie_steps cookie username) (\<lambda>c.
                  act (auth_cookie_result_to_response env username c socket_addr False))))))))"

definition register_steps ::
    "env \<Rightarrow> ('v, 'h, 'b, 'tx) wallet \<Rightarrow> bytes \<Rightarrow> string \<Rightarrow> auth_request \<Rightarrow> ip_addr option \<Rightarrow>
     (world, auth_req_response response) steps" where
  "register_steps env wallet salt cookie auth_req socket_addr =
     (let username = ev_to_lowercase env (ar_username auth_req) in
      then_do (act (unwrapped (db_contains_key AuthDB username))) (\<lambda>taken.
      if taken then
        then_do (act (log_from socket_addr (Some username) (Registration False) LogAuth
          ''Username already registered'' Low)) (\<lambda>_.
        finish (deny User ''Username already registered'' [] CONFLICT))
      else register_free_steps env wallet salt cookie auth_req socket_addr))"

definition login_steps ::
    "env \<Rightarrow> string \<Rightarrow> auth_request \<Rightarrow> ip_addr option \<Rightarrow> (world, auth_req_response response) steps" where
  "login_steps env cookie auth_req socket_addr =
     (let username = ev_to_lowercase env (ar_username auth_req);
          wrong_user_or_pass_resp = deny User ''Wrong username or password'' [] UNAUTHORIZED in
      then_do (act (unwrap_opt socket_addr)) (\<lambda>ip.
      then_do (act (log_new (Some username) ip (Login False) LogAuth ''Wrong username or password'' Low)) (\<lambda>denial_log.
      then_do (act (unwrapped (db_get AuthDB username))) (\<lambda>found. case found of
        Some user_info \<Rightarrow>
          then_do (act (unwrap_opt (ev_hex_decode env (as_bytes (ar_captcha_hash auth_req))))) (\<lambda>captcha_hash.
          then_do (check_captcha_steps captcha_hash (ar_captcha_answer auth_req)) (\<lambda>correct_captcha.
          if \<not> correct_captcha then finish (deny User ''Incorrect captcha'' [] UNAUTHORIZED)
          else if verify_hash env (as_bytes (ar_password auth_req)) (us_salt user_info) (us_hashed_password user_info)
          then then_do (generate_auth_cookie_steps cookie username) (\<lambda>c.
               act (auth_cookie_result_to_response env username c socket_addr True))
          else then_do (act (unwrapped (log_send denial_log))) (\<lambda>_. finish wrong_user_or_pass_resp)))
      | None \<Rightarrow> then_do (act (unwrapped (log_send denial_log))) (\<lambda>_. finish wrong_user_or_pass_resp)))))"

text \<open>The sweeps of the sessions and of the captchas visit one at a time.\<close>

definition destroy_expired_auth_cookies_steps :: "string list \<Rightarrow> (world, unit) steps" where
  "destroy_expired_auth_cookies_steps ks = then_do (act now_u64) (\<lambda>current_time.
     then_do (act (db_iter CookieDB ks)) (each_step (\<lambda>item. act (sweep_cookie current_time item))))"

definition destroy_expired_captchas_steps :: "bytes list \<Rightarrow> (world, unit) steps" where
  "destroy_expired_captchas_steps ks = then_do (act now_u64) (\<lambda>time.
     then_do (act (db_iter CaptchaDB ks)) (each_step (\<lambda>item. act (sweep_captcha time item))))"

subsection \<open>Money\<close>

definition user_then_cookie_steps :: "string \<Rightarrow> string \<Rightarrow> (world, bool) steps" where
  "user_then_cookie_steps username cookie = then_do (act (unwrapped (db_contains_key AuthDB username))) (\<lambda>known.
     if known then act (verify_auth_cookie username cookie) else finish False)"

definition attach_xmr_address_steps ::
    "env \<Rightarrow> ip_addr option \<Rightarrow> attach_xmr_address_req \<Rightarrow> (world, unit response) steps" where
  "attach_xmr_address_steps env socket_addr attach_req = (let username = ax_username attach_req in
     then_do (user_then_cookie_steps username (ax_auth_cookie attach_req)) (\<lambda>authorised.
     if authorised then
       then_do (act (unwrapped (db_get MoneyDB username))) (\<lambda>found.
       then_do (act (unwrap_opt found)) (\<lambda>financial_info.
       case ap_from_str (ev_addr env) (ax_monero_address attach_req) of
         None \<Rightarrow>
           then_do (act (log_from socket_addr (Some username) AttachAddr LogMoney
             (''Invalid address'' @ ev_addr_error env (ax_monero_address attach_req)) Low)) (\<lambda>_.
           finish (deny User ''Invalid address'' [] BAD_REQUEST))
       | Some xmr_addr \<Rightarrow>
           then_do (act (unwrapped (db_insert MoneyDB username (financial_info\<lparr>fi_xmr_addr := Some xmr_addr\<rparr>)))) (\<lambda>_.
           then_do (act (log_from socket_addr (Some username) AttachAddr LogMoney [] Low)) (\<lambda>_.
           finish (answer OK ())))))
     else
       then_do (act (log_from socket_addr (Some username) AttachAddr LogAuth invalid_login_reason Low)) (\<lambda>_.
       finish (deny User invalid_login_reason [] UNAUTHORIZED))))"

definition settle_steps :: "transfer_req \<Rightarrow> transfer_out \<Rightarrow> (world, unit) steps" where
  "settle_steps req out = then_do (act (unwrapped (db_get MoneyDB (tq_username req)))) (\<lambda>found.
     then_do (act (unwrap_opt found)) (\<lambda>f.
     let f' = f\<lparr>fi_service_fee_total := fi_service_fee_total f + (tq_amt req + to_fee out) div 49\<rparr> in
     then_do (act (unwrapped (db_insert MoneyDB (tq_username req) f'))) (\<lambda>_.
     then_do (act (unwrapped (sled_call (\<lambda>w. ((), w))))) (\<lambda>_.
     then_do (act (unwrapped (db_insert MoneyDB (tq_username req) f'))) (\<lambda>_. finish ())))))"

text \<open>The sending task holds the lock of the pending requests during a pass; this is not shown here, so that more
  may happen in between than in the program.\<close>

function send_from_steps ::
    "(nat \<Rightarrow> ('v, 'h, 'b, 'tx) wallet) \<Rightarrow> nat \<Rightarrow> nat \<Rightarrow> transfer_req list \<Rightarrow> (world, unit) steps" where
  "send_from_steps wallets call i pending =
     (if length pending \<le> i then finish ()
      else let req = pending ! i in
        then_do (act (lift_outcome (wallet_transfer (wallets call) (tq_priority req) (tq_dst req)
          (tq_amt req) (tq_addr_index req)))) (\<lambda>r. case r of
            Inr out \<Rightarrow>
              then_do (settle_steps req out) (\<lambda>_.
              then_do (act (modify (\<lambda>w. w\<lparr>pending_requests := take i pending @ drop (Suc i) pending\<rparr>))) (\<lambda>_.
              send_from_steps wallets (Suc call) i (take i pending @ drop (Suc i) pending)))
          | Inl _ \<Rightarrow> send_from_steps wallets (Suc call) (Suc i) pending))"
  by pat_completeness auto
termination by (relation "measure (\<lambda>(_, _, i, pending). length pending - i)") auto

declare send_from_steps.simps [simp del]

definition send_pending_steps :: "(nat \<Rightarrow> ('v, 'h, 'b, 'tx) wallet) \<Rightarrow> (world, unit) steps" where
  "send_pending_steps wallets = then_do (act (gets pending_requests)) (send_from_steps wallets 0 0)"

text \<open>\<open>withdraw_monero\<close> from the point where the account has been found, and from the beginning. The daemon is asked for the fee
  between the test of the cookie and the reading of the account.\<close>

definition withdraw_from_account_steps ::
    "ip_addr option \<Rightarrow> withdraw_monero_req \<Rightarrow> u64 \<Rightarrow> financial_info \<Rightarrow> (world, withdraw_monero_resp response) steps" where
  "withdraw_from_account_steps socket_addr withdraw_req net_fee financial_info =
     (let username = wq_username withdraw_req; amt = wq_amt withdraw_req; min_amt = net_fee * 5;
          service_fee = 2 * (amt div 100); user_balance = fi_get_balance financial_info in
     if min_amt \<le> user_balance then
       (case checked_sub amt (net_fee + service_fee) of
          None \<Rightarrow>
            let reason = ''Withdrawal amount '' @ to_decimal amt @ '' is lower than 0 after fees'' in
            then_do (act (log_from socket_addr (Some username) UserError LogMoney reason Low)) (\<lambda>_.
            finish (deny User reason [] BAD_REQUEST))
        | Some amt_to_send_after_fees \<Rightarrow>
            (case fi_xmr_addr financial_info of
               None \<Rightarrow>
                 then_do (act (log_from socket_addr (Some username) UserError LogMoney
                   ''Withdrawal address not found'' Low)) (\<lambda>_.
                 finish (deny User ''Withdrawal address not found''
                   ''Please attach a withdrawl address to your account'' BAD_REQUEST))
             | Some withdraw_addr \<Rightarrow>
                 then_do (act (send_transfer_req \<lparr>tq_username = username, tq_dst = withdraw_addr,
                   tq_priority = Some 0, tq_amt = amt_to_send_after_fees,
                   tq_addr_index = ts_addr_index (fi_transfers financial_info)\<rparr>)) (\<lambda>sent.
                 if sent then
                   then_do (act (log_from socket_addr (Some username)
                     (Withdrawal amt_to_send_after_fees withdraw_addr) LogMoney [] Low)) (\<lambda>_.
                   finish (answer OK \<lparr>wp_amt_sent_after_fee = amt_to_send_after_fees,
                     wp_fee_taken = service_fee + net_fee\<rparr>))
                 else finish (deny Server ''Internal server error, please try again'' []
                   INTERNAL_SERVER_ERROR))))
     else finish (deny User (''User balance '' @ to_decimal user_balance @
       '' is lower than the minimum: '' @ to_decimal min_amt) [] PRECONDITION_FAILED))"

definition withdraw_monero_steps ::
    "('v, 'h, 'b, 'tx) wallet \<Rightarrow> ip_addr option \<Rightarrow> withdraw_monero_req \<Rightarrow> (world, withdraw_monero_resp response) steps" where
  "withdraw_monero_steps wallet socket_addr withdraw_req =
     (let username = wq_username withdraw_req; amt = wq_amt withdraw_req in
     then_do (user_then_cookie_steps username (wq_auth_cookie withdraw_req)) (\<lambda>authorised.
     if authorised then
       then_do (act (lift_outcome (get_uptodate_fee wallet))) (\<lambda>net_fee.
       case net_fee of
         None \<Rightarrow>
           then_do (act (log_from socket_addr (Some username) ServerError LogMoney ''Could not get Monero fee'' Low)) (\<lambda>_.
           finish (deny Server ''Could not get Monero fee'' [] INTERNAL_SERVER_ERROR))
       | Some net_fee \<Rightarrow>
           let min_amt = net_fee * 5 in
           if min_amt \<le> amt then
             then_do (act (unwrapped (db_get MoneyDB username))) (\<lambda>found.
             case found of
               None \<Rightarrow>
                 then_do (act (log_from socket_addr (Some username) AuthFailureNonLogin LogMoney
                   invalid_login_reason Low)) (\<lambda>_.
                 finish (deny User invalid_login_reason [] UNAUTHORIZED))
             | Some financial_info \<Rightarrow> withdraw_from_account_steps socket_addr withdraw_req net_fee financial_info)
           else finish (withdraw_too_little amt min_amt))
     else finish (deny User invalid_login_reason [] UNAUTHORIZED)))"

text \<open>The rounds on transfers and balances: the accounts are read, the wallet is asked, the accounts are read again and
  refreshed one by one, and a batch is applied. The lock of the shared transfers is left out too.\<close>

definition update_transfers_steps :: "('v, 'h, 'b, 'tx) wallet \<Rightarrow> string list \<Rightarrow> (world, unit) steps" where
  "update_transfers_steps wallet ks = then_do (act (account_indices ks)) (\<lambda>indices.
     then_do (act (lift_outcome (wallet_get_transfers wallet indices True True))) (\<lambda>r. case r of
         Inr t \<Rightarrow> act (modify (\<lambda>w. w\<lparr>all_transfers := t\<rparr>))
       | Inl _ \<Rightarrow> finish ()))"

definition refresh_account_steps ::
    "wallet_error + wallet_balance \<Rightarrow> wallet_error + wallet_balance \<Rightarrow> string \<Rightarrow> financial_info \<Rightarrow>
     (world, financial_info) steps" where
  "refresh_account_steps all_balances all_full_balances username f =
     then_do (act (gets all_transfers)) (\<lambda>ts.
     then_do (act (unwrap_opt (checked_sub (ts_addr_index (fi_transfers f)) 1))) (\<lambda>i.
     let f1 = (if unat i < length ts then f\<lparr>fi_transfers := ts ! unat i\<rparr> else f) in
     then_do
       (case find_balance all_balances (ts_addr_index (fi_transfers f1)) of
          Some balance \<Rightarrow>
            if fi_balance f1 \<noteq> sb_balance balance
            then then_do (act (log_from (Some ''127.0.0.1'') (Some username)
                   (BalanceChange (fi_balance f1) (sb_balance balance)) LogMoney [] Low)) (\<lambda>_.
                 finish (f1\<lparr>fi_balance := sb_balance balance\<rparr>))
            else finish f1
        | None \<Rightarrow> finish f1) (\<lambda>f2.
     finish (case find_balance all_full_balances (ts_addr_index (fi_transfers f2)) of
          Some balance \<Rightarrow> f2\<lparr>fi_pending_balance := sb_balance balance - fi_balance f2\<rparr>
        | None \<Rightarrow> f2))))"

fun refresh_accounts_steps ::
    "wallet_error + wallet_balance \<Rightarrow> wallet_error + wallet_balance \<Rightarrow>
     (sled_error + string \<times> financial_info) list \<Rightarrow> (world, (string \<times> financial_info) list) steps" where
  "refresh_accounts_steps all_balances all_full_balances [] = finish []"
| "refresh_accounts_steps all_balances all_full_balances (Inl _ # items) =
     refresh_accounts_steps all_balances all_full_balances items"
| "refresh_accounts_steps all_balances all_full_balances (Inr (username, f) # items) =
     then_do (refresh_account_steps all_balances all_full_balances username f) (\<lambda>f'.
     then_do (refresh_accounts_steps all_balances all_full_balances items) (\<lambda>batch.
     finish ((username, f') # batch)))"

definition update_acc_balances_steps :: "('v, 'h, 'b, 'tx) wallet \<Rightarrow> string list \<Rightarrow> (world, unit) steps" where
  "update_acc_balances_steps wallet ks =
     then_do (act (account_indices ks)) (\<lambda>indices.
     then_do (act (lift_outcome (wallet_get_balance wallet indices))) (\<lambda>all_balances.
     then_do (act (lift_outcome (wallet_get_all_balance wallet indices))) (\<lambda>all_full_balances.
     then_do (act (db_iter MoneyDB ks)) (\<lambda>items.
     then_do (refresh_accounts_steps all_balances all_full_balances items) (\<lambda>batch.
     act (unwrapped (db_apply_batch MoneyDB batch)))))))"

subsection \<open>Listings\<close>

text \<open>\<open>new_software\<close> from the writing of the charged account on.\<close>

definition new_software_charged_steps ::
    "env \<Rightarrow> bytes \<Rightarrow> create_software_req \<Rightarrow> financial_info \<Rightarrow> (world, new_software_resp response) steps" where
  "new_software_charged_steps env random_bytes req financial_info =
      then_do (act (unwrapped (db_insert MoneyDB (cs_username req) financial_info))) (\<lambda>_.
      if MAX_COMPRESSED_SIZE < cs_compressed_size req
      then finish (deny User ''File is too large''
        ''Please keep your compressed game files under 10 MiB'' BAD_REQUEST)
      else then_do (act fetch_add_software_id) (\<lambda>software_id.
      let upload_id = ev_blake3 env (random_bytes @ as_bytes (cs_title req) @ as_bytes (cs_username req)) in
      then_do (act (unwrap_opt (ev_hex_decode env (as_bytes DEFAULT_IMAGE)))) (\<lambda>boxed_image_hash_bytes.
      then_do (act (to_array32 boxed_image_hash_bytes)) (\<lambda>image_hash_bytes.
      let game = \<lparr>it_id = software_id, it_title = cs_title req, it_creator = cs_username req,
        it_description = cs_description req, it_arch_type = cs_arch_type req,
        it_compressed_size = cs_compressed_size req, it_price = cs_price req,
        it_compression_type = cs_compression_type req, it_files = Map.empty,
        it_upload_id = Some upload_id, it_creation_time = None, it_title_image_hash = image_hash_bytes\<rparr> in
      then_do (act (unwrapped (db_insert SoftwareDB software_id game))) (\<lambda>_.
      then_do (act (unwrapped (db_insert UploadIdDB upload_id software_id))) (\<lambda>_.
      finish (answer OK \<lparr>ns_upload_id = ev_hex_encode env upload_id\<rparr>)))))))"

definition new_software_steps ::
    "env \<Rightarrow> bytes \<Rightarrow> create_software_req \<Rightarrow> (world, new_software_resp response) steps" where
  "new_software_steps env random_bytes req =
     (let bad_captcha = deny User ''Incorrect captcha'' [] UNAUTHORIZED in
      case ev_hex_decode env (as_bytes (cs_captcha_hash req)) of
        None \<Rightarrow> finish bad_captcha
      | Some captcha_hash \<Rightarrow>
      then_do (act (to_array32 captcha_hash)) (\<lambda>key.
      then_do (act (unwrapped (db_get CaptchaDB key))) (\<lambda>found. case found of
        None \<Rightarrow> finish bad_captcha
      | Some captcha \<Rightarrow>
      if gc_answer captcha \<noteq> cs_captcha_answer req then finish bad_captcha
      else then_do (user_then_cookie_steps (cs_username req) (cs_auth_cookie req)) (\<lambda>authorised.
      if \<not> authorised then finish (deny User ''Invalid username or cookie'' [] UNAUTHORIZED)
      else then_do (act (unwrapped (db_get MoneyDB (cs_username req)))) (\<lambda>account.
      then_do (act (unwrap_opt account)) (\<lambda>f. case spend_money LISTING_FEE f of
        (Inl balance, _) \<Rightarrow> finish (deny User ''Balance is too low'' (to_decimal balance) PRECONDITION_FAILED)
      | (Inr _, financial_info) \<Rightarrow> new_software_charged_steps env random_bytes req financial_info))))))"

subsection \<open>Searching\<close>

definition downloads_of_steps :: "u64 \<Rightarrow> (world, software_downloads) steps" where
  "downloads_of_steps i = then_do (get_or_insert_steps DownloadCountDB i []) (\<lambda>r. act (unwrap_res r))"

definition most_downloaded_item_steps :: "item \<Rightarrow> item \<Rightarrow> (world, ordering) steps" where
  "most_downloaded_item_steps item1 item2 =
     then_do (downloads_of_steps (it_id item1)) (\<lambda>count1.
     then_do (downloads_of_steps (it_id item2)) (\<lambda>count2.
     finish (cmp (length count2) (length count1))))"

definition least_downloaded_item_steps :: "item \<Rightarrow> item \<Rightarrow> (world, ordering) steps" where
  "least_downloaded_item_steps item1 item2 =
     then_do (downloads_of_steps (it_id item1)) (\<lambda>count1.
     then_do (downloads_of_steps (it_id item2)) (\<lambda>count2.
     finish (cmp (length count1) (length count2))))"

text \<open>None for the orders that end in \<open>todo!()\<close>.\<close>

fun comparison_steps :: "search_alg \<Rightarrow> (item \<Rightarrow> item \<Rightarrow> (world, ordering) steps) option" where
  "comparison_steps Newest = Some (\<lambda>item1 item2. act (newest_item item1 item2))"
| "comparison_steps Oldest = Some (\<lambda>item1 item2. act (oldest_item item1 item2))"
| "comparison_steps MostDownloaded = Some most_downloaded_item_steps"
| "comparison_steps LeastDownloaded = Some least_downloaded_item_steps"
| "comparison_steps _ = None"

fun reduce_worst_steps :: "(item \<Rightarrow> item \<Rightarrow> (world, ordering) steps) \<Rightarrow> item list \<Rightarrow> nat \<Rightarrow> nat list \<Rightarrow> (world, nat) steps" where
  "reduce_worst_steps alg results i [] = finish i"
| "reduce_worst_steps alg results i (j # js) =
     then_do (alg (results ! i) (results ! j)) (\<lambda>o1.
     if o1 = Less then reduce_worst_steps alg results j js else reduce_worst_steps alg results i js)"

definition replace_worst_steps ::
    "(item \<Rightarrow> item \<Rightarrow> (world, ordering) steps) \<Rightarrow> item \<Rightarrow> item list \<Rightarrow> (world, item list) steps" where
  "replace_worst_steps alg item results =
     (case [0..<length results] of
        [] \<Rightarrow> Stop Panic
      | i # js \<Rightarrow> then_do (reduce_worst_steps alg results i js) (\<lambda>worst.
          then_do (alg item (results ! worst)) (\<lambda>o1.
          finish (if o1 = Less then results[worst := item] else results))))"

definition consider_item_steps ::
    "env \<Rightarrow> search_software_req \<Rightarrow> nat \<Rightarrow> item \<Rightarrow> item list \<Rightarrow> (world, item list) steps" where
  "consider_item_steps env req capacity item results =
     (if matches env (sq_term req) item then
        if length results < capacity then finish (results @ [item])
        else (case comparison_steps (sq_sort_by req) of
            None \<Rightarrow> Stop Panic
          | Some search_alg \<Rightarrow> replace_worst_steps search_alg item results)
      else finish results)"

fun consider_items_steps ::
    "env \<Rightarrow> search_software_req \<Rightarrow> nat \<Rightarrow> (sled_error + u64 \<times> item) list \<Rightarrow> item list \<Rightarrow> (world, item list) steps" where
  "consider_items_steps env req capacity [] results = finish results"
| "consider_items_steps env req capacity (res # rest) results =
     then_do (act (unwrap_res res)) (\<lambda>(_, item).
     then_do (consider_item_steps env req capacity item results) (consider_items_steps env req capacity rest))"

fun from_items_steps :: "item list \<Rightarrow> (world, search_result list) steps" where
  "from_items_steps [] = finish []"
| "from_items_steps (item # items) =
     then_do (act (unwrap_opt (it_creation_time item))) (\<lambda>creation_time.
     then_do (downloads_of_steps (it_id item)) (\<lambda>downloads.
     then_do (from_items_steps items) (\<lambda>rs.
     finish (\<lparr>sr_title = it_title item, sr_item_id = it_id item, sr_creation_time = creation_time,
       sr_num_downloads = of_nat (length downloads)\<rparr> # rs))))"

definition search_software_steps ::
    "env \<Rightarrow> u64 list \<Rightarrow> search_software_req \<Rightarrow> (world, search_result list response) steps" where
  "search_software_steps env ks req =
     (if MAX_NUM_RESULTS < sq_num_results req
      then finish (deny User ''Too many results requested'' ''Try requesting 100 results or less'' BAD_REQUEST)
      else then_do (act (db_len SoftwareDB ks)) (\<lambda>len.
        then_do (act (db_iter SoftwareDB ks)) (\<lambda>items.
        then_do (consider_items_steps env req (min len (unat (sq_num_results req))) items []) (\<lambda>results.
        then_do (from_items_steps results) (\<lambda>rs. finish (answer OK rs))))))"

subsection \<open>Everything that runs in parallel\<close>

text \<open>A round of \<open>update_cached_fee\<close> on the shared fee.\<close>

definition cached_fee_round :: "('v, 'h, 'b, 'tx) wallet \<Rightarrow> (world, unit) eff" where
  "cached_fee_round wallet = and_then (gets shared_fee) (\<lambda>c.
     and_then (lift_outcome (update_cached_fee wallet c)) (\<lambda>fee. modify (\<lambda>w. w\<lparr>shared_fee := fee\<rparr>)))"

fun request_steps ::
    "env \<Rightarrow> ('v, 'h, 'b, 'tx) wallet \<Rightarrow> draws \<Rightarrow> ip_addr option \<Rightarrow> http_request \<Rightarrow> (world, status) steps" where
  "request_steps env wallet d ip (Post_signup r) =
     then_do (register_steps env wallet (dr_salt d) (dr_cookie d) r ip) (\<lambda>resp. finish (rs_status resp))"
| "request_steps env wallet d ip (Post_login r) =
     then_do (login_steps env (dr_cookie d) r ip) (\<lambda>resp. finish (rs_status resp))"
| "request_steps env wallet d ip (Post_attach_xmr_address r) =
     then_do (attach_xmr_address_steps env ip r) (\<lambda>resp. finish (rs_status resp))"
| "request_steps env wallet d ip (Post_new_software r) =
     then_do (new_software_steps env (dr_random_bytes d) r) (\<lambda>resp. finish (rs_status resp))"
| "request_steps env wallet d ip (Post_withdraw_xmr r) =
     then_do (withdraw_monero_steps wallet ip r) (\<lambda>resp. finish (rs_status resp))"
| "request_steps env wallet d ip (Post_search_software r) =
     then_do (search_software_steps env (dr_items d) r) (\<lambda>resp. finish (rs_status resp))"
| "request_steps env wallet d ip req = act (serve env wallet d ip req)"

text \<open>A job of the server: a request, or a round of a background task. A pass of the sending task asks the wallet once for
  each transfer.\<close>

datatype ('v, 'h, 'b, 'tx) job =
    Request "('v, 'h, 'b, 'tx) wallet" draws "ip_addr option" http_request
  | Transfers_round "('v, 'h, 'b, 'tx) wallet" "string list"
  | Balances_round "('v, 'h, 'b, 'tx) wallet" "string list"
  | Fee_round "('v, 'h, 'b, 'tx) wallet"
  | Receive_round
  | Send_round "nat \<Rightarrow> ('v, 'h, 'b, 'tx) wallet"
  | Cookie_sweep "string list"
  | Captcha_sweep "bytes list"

text \<open>What a job ends with: the request it served, if any, and the status of the answer.\<close>

fun job_steps :: "env \<Rightarrow> ('v, 'h, 'b, 'tx) job \<Rightarrow> (world, (http_request \<times> status) option) steps" where
  "job_steps env (Request wallet d ip req) = then_do (request_steps env wallet d ip req) (\<lambda>st. finish (Some (req, st)))"
| "job_steps env (Transfers_round wallet ks) = then_do (update_transfers_steps wallet ks) (\<lambda>_. finish None)"
| "job_steps env (Balances_round wallet ks) = then_do (update_acc_balances_steps wallet ks) (\<lambda>_. finish None)"
| "job_steps env Receive_round = then_do (act receive_request) (\<lambda>_. finish None)"
| "job_steps env (Fee_round wallet) = then_do (act (cached_fee_round wallet)) (\<lambda>_. finish None)"
| "job_steps env (Send_round ws) = then_do (send_pending_steps ws) (\<lambda>_. finish None)"
| "job_steps env (Cookie_sweep ks) = then_do (destroy_expired_auth_cookies_steps ks) (\<lambda>_. finish None)"
| "job_steps env (Captcha_sweep ks) = then_do (destroy_expired_captchas_steps ks) (\<lambda>_. finish None)"

fun job_run :: "env \<Rightarrow> ('v, 'h, 'b, 'tx) job \<Rightarrow> (world, (http_request \<times> status) option) eff" where
  "job_run env (Request wallet d ip req) = and_then (serve env wallet d ip req) (\<lambda>st. ret (Some (req, st)))"
| "job_run env (Transfers_round wallet ks) = and_then (update_transfers wallet ks) (\<lambda>_. ret None)"
| "job_run env (Balances_round wallet ks) = and_then (update_acc_balances wallet ks) (\<lambda>_. ret None)"
| "job_run env Receive_round = and_then receive_request (\<lambda>_. ret None)"
| "job_run env (Fee_round wallet) = and_then (cached_fee_round wallet) (\<lambda>_. ret None)"
| "job_run env (Send_round ws) = and_then (send_pending ws) (\<lambda>_. ret None)"
| "job_run env (Cookie_sweep ks) = and_then (destroy_expired_auth_cookies ks) (\<lambda>_. ret None)"
| "job_run env (Captcha_sweep ks) = and_then (destroy_expired_captchas ks) (\<lambda>_. ret None)"

text \<open>The jobs of a server whose wallet may show the behaviours \<open>wallets\<close>.\<close>

fun job_wallets :: "('v, 'h, 'b, 'tx) job \<Rightarrow> ('v, 'h, 'b, 'tx) wallet set" where
  "job_wallets (Request wallet _ _ _) = {wallet}"
| "job_wallets (Transfers_round wallet _) = {wallet}"
| "job_wallets (Balances_round wallet _) = {wallet}"
| "job_wallets (Fee_round wallet) = {wallet}"
| "job_wallets (Send_round ws) = range ws"
| "job_wallets _ = {}"

definition jobs :: "env \<Rightarrow> ('v, 'h, 'b, 'tx) wallet set \<Rightarrow> (world, (http_request \<times> status) option) steps set" where
  "jobs env wallets = job_steps env ` {job. job_wallets job \<subseteq> wallets}"

subsection \<open>Without interruption\<close>

lemmas branches = if_cong option.case_cong sum.case_cong prod.case_cong bool.case_cong

lemma run_check_captcha [simp]: "run (check_captcha_steps h g) = check_captcha h g"
  by (simp add: check_captcha_steps_def check_captcha_def del: run.simps(1) cong: branches)

lemma run_generate_auth_cookie [simp]: "run (generate_auth_cookie_steps c u) = generate_auth_cookie c u"
  by (simp add: generate_auth_cookie_steps_def generate_auth_cookie_def Let_def del: run.simps(1) cong: branches)

lemma run_register [simp]: "run (register_steps env wallet salt cookie r ip) = register env wallet salt cookie r ip"
  by (simp add: register_steps_def register_free_steps_def register_def Let_def del: run.simps(1) cong: branches)

lemma run_login [simp]: "run (login_steps env cookie r ip) = login env cookie r ip"
  by (simp add: login_steps_def login_def Let_def del: run.simps(1) cong: branches)

lemma run_user_then_cookie [simp]: "run (user_then_cookie_steps u c) = user_then_cookie u c"
  by (simp add: user_then_cookie_steps_def user_then_cookie_def del: run.simps(1) cong: branches)

lemma run_attach [simp]: "run (attach_xmr_address_steps env ip r) = attach_xmr_address env ip r"
  by (simp add: attach_xmr_address_steps_def attach_xmr_address_def Let_def del: run.simps(1) cong: branches)

lemma run_new_software [simp]: "run (new_software_steps env random_bytes r) = new_software env random_bytes r"
  by (simp add: new_software_steps_def new_software_charged_steps_def new_software_def Let_def del: run.simps(1) cong: branches)

lemma run_get_or_insert [simp]: "run (get_or_insert_steps T k v) = db_get_or_insert T k v"
  by (simp add: get_or_insert_steps_def db_get_or_insert_def del: run.simps(1) cong: branches)

lemma run_withdraw [simp]: "run (withdraw_monero_steps wallet ip r) = withdraw_monero wallet ip r"
  by (simp add: withdraw_monero_steps_def withdraw_from_account_steps_def withdraw_monero_def withdraw_from_account_def Let_def
      del: run.simps(1) cong: branches)

lemma run_transfers [simp]: "run (update_transfers_steps wallet ks) = update_transfers wallet ks"
  by (simp add: update_transfers_steps_def update_transfers_def del: run.simps(1) cong: branches)

lemma run_refresh [simp]: "run (refresh_account_steps b fb u f) = refresh_account b fb u f"
  by (simp add: refresh_account_steps_def refresh_account_def Let_def del: run.simps(1) cong: branches)

lemma run_refreshes [simp]: "run (refresh_accounts_steps b fb items) = refresh_accounts b fb items"
  by (induction b fb items rule: refresh_accounts_steps.induct) (simp_all del: run.simps(1))

lemma run_panic [simp]: "run (Stop Panic) = panic"
  by (simp add: lift_outcome_def panic_def)

lemma run_downloads_of [simp]: "run (downloads_of_steps i) = downloads_of i"
  by (simp add: downloads_of_steps_def downloads_of_def unwrapped_def del: run.simps(1))

lemma run_downloaded [simp]: "run (most_downloaded_item_steps a b) = most_downloaded_item a b"
  "run (least_downloaded_item_steps a b) = least_downloaded_item a b"
  by (simp_all add: most_downloaded_item_steps_def most_downloaded_item_def least_downloaded_item_steps_def
    least_downloaded_item_def del: run.simps(1))

lemma run_reduce_worst:
  assumes "\<And>a b. run (alg' a b) = alg a b"
  shows "run (reduce_worst_steps alg' results i js) = reduce_worst alg results i js"
proof (induction js arbitrary: i)
  case (Cons j js)
  have cases: "(\<lambda>z. if z = Less then p else q) = case_ordering p q q" for p q :: "(world, nat) eff"
    by (simp add: fun_eq_iff split: ordering.split)
  show ?case by (simp add: assms if_distrib [of run] cases Cons.IH del: run.simps(1))
qed (simp del: run.simps(1))

lemma run_replace_worst:
  assumes "\<And>a b. run (alg' a b) = alg a b"
  shows "run (replace_worst_steps alg' item results) = replace_worst alg item results"
  by (simp add: replace_worst_steps_def replace_worst_def assms run_reduce_worst [OF assms] del: run.simps(1) upt.simps split: list.split)

lemma run_consider_item [simp]: "run (consider_item_steps env req n item results) = consider_item env req n item results"
  by (cases "sq_sort_by req") (simp_all add: consider_item_steps_def consider_item_def run_replace_worst and_then_panic
    del: run.simps(1))

lemma run_consider_items [simp]: "run (consider_items_steps env req n items results) = consider_items env req n items results"
  by (induction items arbitrary: results) (simp_all add: split_def del: run.simps(1))

lemma run_from_items [simp]: "run (from_items_steps items) = from_items items"
  by (induction items) (simp_all add: from_item_def and_then_assoc del: run.simps(1))

lemma run_search [simp]: "run (search_software_steps env ks r) = search_software env ks r"
  by (simp add: search_software_steps_def search_software_def Let_def del: run.simps(1))

lemma run_tasks [simp]: "run (settle_steps r out) = settle r out"
  "run (update_acc_balances_steps wallet ks) = update_acc_balances wallet ks"
  "run (destroy_expired_auth_cookies_steps ks) = destroy_expired_auth_cookies ks"
  "run (destroy_expired_captchas_steps cs) = destroy_expired_captchas cs"
  by (simp_all add: settle_steps_def settle_def update_acc_balances_steps_def update_acc_balances_def acc_balances_batch_def
    and_then_assoc Let_def
    destroy_expired_auth_cookies_steps_def destroy_expired_auth_cookies_def destroy_expired_captchas_steps_def
    destroy_expired_captchas_def run_each_step del: run.simps(1) cong: branches)

lemma run_send_from [simp]: "run (send_from_steps wallets call i pending) = send_from wallets call i pending"
proof (induction wallets call i pending rule: send_from.induct)
  case (1 wallets call i pending)
  then show ?case
    by (subst send_from_steps.simps, subst send_from.simps) (simp add: Let_def del: run.simps(1) cong: branches)
qed

lemma run_send_pending [simp]: "run (send_pending_steps wallets) = send_pending wallets"
  by (simp add: send_pending_steps_def send_pending_def del: run.simps(1))

lemma run_request: "run (request_steps env wallet d ip req) = serve env wallet d ip req"
  by (cases req) (simp_all del: run.simps(1))

text \<open>
  The steps are those of the handlers: every request and every task, run in steps without interruption, does and
  answers what its handler does as a whole.
\<close>

lemma steps_are_handlers: "run (job_steps env job) = job_run env job"
  by (cases job) (simp_all add: run_request del: run.simps(1))

end
