(* ===== verification/Parallel.thy ===== *)
theory Parallel
  imports Interleaved
begin

section \<open>What holds however the handlers are interleaved\<close>

text \<open>
  Any number of requests and tasks run in parallel, step by step (\<open>par_step\<close>), while time passes, logs are taken and calls
  of sled fail or not (\<open>surroundings\<close>). What \<open>System\<close> shows for whole handlers holds in part only: see
  \<open>registrations_collide\<close> and \<open>listings_charged_once\<close>. This theory has the protocol that requests and rounds
  keep to; \<open>Sessions\<close> adds the web-socket sessions and draws the conclusion.
\<close>

text \<open>The 64-bit counter of the software ids has not come to its end.\<close>

definition room :: "world \<Rightarrow> bool" where
  "room w \<longleftrightarrow> current_software_id w + 1 \<noteq> 0"

lemma then_do_branches [simp]:
  "then_do (if b then p else q) f = (if b then then_do p f else then_do q f)"
  "then_do (case x of None \<Rightarrow> p | Some v \<Rightarrow> g v) f = (case x of None \<Rightarrow> then_do p f | Some v \<Rightarrow> then_do (g v) f)"
  "then_do (case y of Inl e \<Rightarrow> h e | Inr v \<Rightarrow> k v) f = (case y of Inl e \<Rightarrow> then_do (h e) f | Inr v \<Rightarrow> then_do (k v) f)"
  "then_do (case c of True \<Rightarrow> p | False \<Rightarrow> q) f = (case c of True \<Rightarrow> then_do p f | False \<Rightarrow> then_do q f)"
  "then_do (case z of (a, b') \<Rightarrow> l a b') f = (case z of (a, b') \<Rightarrow> then_do (l a b') f)"
  by (simp_all split: option.split sum.split bool.split prod.split)

subsection \<open>Computations that only look\<close>

text \<open>Withdrawals, searches and the reading halves of the rounds on transfers and balances leave the register, the shelf
  and the captchas as they are, with every call.\<close>

definition undisturbed :: "world \<Rightarrow> world \<Rightarrow> bool" where
  "undisturbed w w' \<longleftrightarrow> same_shelf w w' \<and> same_register w w' \<and> captcha_db w' = captcha_db w"

abbreviation looks :: "(world, 'a) steps \<Rightarrow> bool" where
  "looks \<equiv> within undisturbed (\<lambda>_. True)"

named_theorems look_rules \<open>computations whose first step only looks\<close>

lemma look_leaf:
  assumes "\<And>w. wp m (\<lambda>_. undisturbed w) (undisturbed w) w" "\<And>x. within undisturbed V (f x)"
  shows "within undisturbed V (then_do (act m) f)"
proof (rule within_then [OF within_act])
  show "wp m (\<lambda>x w'. undisturbed w w' \<and> True) (undisturbed w) w" for w
    using assms(1) by simp
qed (rule assms(2))

lemma look_act: "(\<And>w. wp m (\<lambda>_. undisturbed w) (undisturbed w) w) \<Longrightarrow> looks (act m)"
  by (rule within_act) simp

lemma look_finish [look_rules]: "V x \<Longrightarrow> within undisturbed V (finish x)" "within undisturbed V (Stop Panic)"
  by simp_all

lemma look_if [look_rules]:
  "(b \<Longrightarrow> within undisturbed V p) \<Longrightarrow> (\<not> b \<Longrightarrow> within undisturbed V q) \<Longrightarrow> within undisturbed V (if b then p else q)"
  by simp

lemma look_calls:
  "wp (unwrapped (db_contains_key AuthDB u)) (\<lambda>_. undisturbed w) (undisturbed w) w"
  "wp (unwrapped (db_get MoneyDB u)) (\<lambda>_. undisturbed w) (undisturbed w) w"
  "wp (verify_auth_cookie u c) (\<lambda>_. undisturbed w) (undisturbed w) w"
  "wp (db_get DownloadCountDB i) (\<lambda>_. undisturbed w) (undisturbed w) w"
  "wp (unwrapped (db_insert DownloadCountDB i d)) (\<lambda>_. undisturbed w) (undisturbed w) w"
  "wp (db_iter SoftwareDB is) (\<lambda>_. undisturbed w) (undisturbed w) w"
  "wp (db_len SoftwareDB is) (\<lambda>_. undisturbed w) (undisturbed w) w"
  "wp (account_indices ks) (\<lambda>_. undisturbed w) (undisturbed w) w"
  by (simp_all add: undisturbed_def auth_defs wp_rules db_len_def account_indices_wp Let_def)

lemma look_plain:
  "wp (lift_outcome r) (\<lambda>_. undisturbed w) (undisturbed w) w"
  "wp (unwrap_opt v) (\<lambda>_. undisturbed w) (undisturbed w) w"
  "wp (unwrap_res z) (\<lambda>_. undisturbed w) (undisturbed w) w"
  "wp (gets g) (\<lambda>_. undisturbed w) (undisturbed w) w"
  "wp (modify (\<lambda>w. w\<lparr>all_transfers := ts\<rparr>)) (\<lambda>_. undisturbed w) (undisturbed w) w"
  "wp (ret y) (\<lambda>_. undisturbed w) (undisturbed w) w" "wp panic (\<lambda>_. undisturbed w) (undisturbed w) w"
  by (simp_all add: undisturbed_def wp_rules split: outcome.split option.split sum.split)

lemma look_log: "wp (log_from a u e t r p) (\<lambda>_. undisturbed w) (undisturbed w) w"
  by (rule wp_log_from) (simp_all add: undisturbed_def)

lemma look_send: "wp (send_transfer_req r) (\<lambda>_. undisturbed w) (undisturbed w) w"
  by (rule wp_send_transfer_req) (simp_all add: undisturbed_def)

lemma look_compare:
  "wp (newest_item a b) (\<lambda>_. undisturbed w) (undisturbed w) w" "wp (oldest_item a b) (\<lambda>_. undisturbed w) (undisturbed w) w"
  by (auto simp: newest_item_def oldest_item_def undisturbed_def wp_rules split: option.split)

lemmas look_steps [look_rules] = look_calls [THEN look_leaf] look_plain [THEN look_leaf] look_log [THEN look_leaf]
  look_send [THEN look_leaf]

lemma look_user: "looks (user_then_cookie_steps u c)"
  by (auto simp: user_then_cookie_steps_def intro!: look_rules look_act look_calls)

lemma withdraw_looks: "looks (withdraw_monero_steps wallet a r)"
  by (auto simp: withdraw_monero_steps_def withdraw_from_account_steps_def Let_def intro!: look_rules within_then [OF look_user]
    split: option.split)

lemma transfers_look: "looks (update_transfers_steps wallet ks)"
  by (auto simp: update_transfers_steps_def intro!: look_rules look_act look_plain split: sum.split)

lemma downloads_look: "looks (downloads_of_steps i)"
  by (auto simp: downloads_of_steps_def get_or_insert_steps_def then_do_assoc intro!: look_rules look_act look_plain
    split: sum.split option.split)

lemma comparison_looks: "comparison_steps sort_by = Some alg \<Longrightarrow> looks (alg a b)"
  by (cases sort_by) (auto simp: most_downloaded_item_steps_def least_downloaded_item_steps_def
    intro!: look_rules within_then [OF downloads_look] look_act look_compare)

lemma reduce_worst_looks: "(\<And>a b. looks (alg a b)) \<Longrightarrow> looks (reduce_worst_steps alg results i js)"
  by (induction js arbitrary: i) (auto intro!: within_then [where U = "\<lambda>_. True"])

lemma consider_item_looks: "looks (consider_item_steps env req n item results)"
  by (auto simp: consider_item_steps_def replace_worst_steps_def intro!: within_then [where U = "\<lambda>_. True"]
    reduce_worst_looks comparison_looks split: option.split list.split)

lemma consider_items_look: "looks (consider_items_steps env req n items results)"
  by (induction items arbitrary: results) (auto intro!: look_rules within_then [OF consider_item_looks] split: prod.split)

lemma from_items_looks: "looks (from_items_steps items)"
proof (induction items)
  case (Cons item items)
  note [look_rules] = within_then [OF downloads_look] within_then [OF Cons]
  show ?case by (auto intro!: look_rules)
qed simp

lemma search_looks: "looks (search_software_steps env ks r)"
  by (auto simp: search_software_steps_def intro!: look_rules within_then [OF consider_items_look] within_then [OF from_items_looks])

text \<open>The batch of a round on balances is about accounts that were read.\<close>

lemma refresh_account_looks: "looks (refresh_account_steps b fb u f)"
  by (auto simp: refresh_account_steps_def Let_def then_do_assoc intro!: look_rules split: option.split)

definition names_read :: "(sled_error + string \<times> financial_info) list \<Rightarrow> string set" where
  "names_read items = {u. \<exists>f. Inr (u, f) \<in> set items}"

lemma refresh_accounts_look:
  "within undisturbed (\<lambda>batch. fst ` set batch \<subseteq> names_read items) (refresh_accounts_steps b fb items)"
proof (induction b fb items rule: refresh_accounts_steps.induct)
  case (3 b fb u f items)
  show ?case unfolding refresh_accounts_steps.simps
    by (rule within_then [OF refresh_account_looks], rule within_then [OF 3]) (auto simp: names_read_def)
next
  case (2 b fb e items)
  then show ?case by (simp add: names_read_def)
qed simp

subsection \<open>The protocol of the handlers\<close>

text \<open>What a computation knows or holds: names it has seen registered or in possession of an account, ids it drew for
  an item it has not stored yet, and ids of items it has stored.\<close>

record held =
  hd_names :: "string set"
  hd_ids :: "u64 set"
  hd_listed :: "u64 set"

definition nothing :: held where
  "nothing = \<lparr>hd_names = {}, hd_ids = {}, hd_listed = {}\<rparr>"

text \<open>A step for the register: sessions are ended, or opened for names that are known; accounts are opened for such names.\<close>

definition register_move :: "held \<Rightarrow> world \<Rightarrow> world \<Rightarrow> held \<Rightarrow> bool" where
  "register_move h w w' h' \<longleftrightarrow> dom (auth_db w) \<subseteq> dom (auth_db w') \<and>
    hd_names h' \<subseteq> hd_names h \<union> dom (auth_db w') \<union> dom (money_db w) \<and>
    (\<forall>u. cookie_db w' u = cookie_db w u \<or> cookie_db w' u = None \<or>
      u \<in> hd_names h \<and> (\<exists>ck. cookie_db w' u = Some ck \<and> ac_username ck = u)) \<and>
    dom (money_db w) \<subseteq> dom (money_db w') \<and> dom (money_db w') \<subseteq> dom (money_db w) \<union> hd_names h"

text \<open>A step for the shelf: nothing, an id is drawn, an item is stored under an id that is held, an upload id is stored for a
  listed item.\<close>

definition shelf_move :: "held \<Rightarrow> world \<Rightarrow> world \<Rightarrow> held \<Rightarrow> bool" where
  "shelf_move h w w' h' \<longleftrightarrow>
    (let items = software_db w; items' = software_db w'; uploads = upload_id_db w; uploads' = upload_id_db w';
         n = current_software_id w; n' = current_software_id w' in
     items' = items \<and> uploads' = uploads \<and> n' = n \<and> hd_ids h' \<subseteq> hd_ids h \<and> hd_listed h' \<subseteq> hd_listed h \<or>
     items' = items \<and> uploads' = uploads \<and> n' = n + 1 \<and> hd_ids h' \<subseteq> insert n (hd_ids h) \<and> hd_listed h' \<subseteq> hd_listed h \<or>
     (\<exists>it. it_id it \<in> hd_ids h \<and> items' = items(it_id it \<mapsto> it) \<and> uploads' = uploads \<and> n' = n \<and>
       hd_ids h' \<subseteq> hd_ids h - {it_id it} \<and> hd_listed h' \<subseteq> insert (it_id it) (hd_listed h)) \<or>
     (\<exists>k i. i \<in> hd_listed h \<and> uploads' = uploads(k \<mapsto> i) \<and> items' = items \<and> n' = n \<and>
       hd_ids h' \<subseteq> hd_ids h \<and> hd_listed h' \<subseteq> hd_listed h))"

definition orderly :: "held \<Rightarrow> world \<Rightarrow> world \<Rightarrow> held \<Rightarrow> bool" where
  "orderly h w w' h' \<longleftrightarrow> register_move h w w' h' \<and> shelf_move h w w' h'"

text \<open>Ids that were drawn are below the counter, free, and held once; listed items are on record.\<close>

definition tickets_ok :: "(nat \<Rightarrow> held) \<Rightarrow> world \<Rightarrow> bool" where
  "tickets_ok G w \<longleftrightarrow> (\<forall>t. \<forall>i \<in> hd_ids (G t). i < current_software_id w \<and> software_db w i = None) \<and>
    (\<forall>t t'. t \<noteq> t' \<longrightarrow> hd_ids (G t) \<inter> hd_ids (G t') = {}) \<and> (\<forall>t. hd_listed (G t) \<subseteq> dom (software_db w))"

text \<open>The invariant: register and shelf are in order, what is held is so, and nothing that was on record at \<open>w0\<close> is
  lost.\<close>

definition all_in_order :: "world \<Rightarrow> (nat \<Rightarrow> held) \<Rightarrow> world \<Rightarrow> bool" where
  "all_in_order w0 G w \<longleftrightarrow> register_inv w \<and> (\<forall>t. hd_names (G t) \<subseteq> dom (auth_db w)) \<and> listing_inv w \<and> tickets_ok G w \<and>
    dom (auth_db w0) \<subseteq> dom (auth_db w) \<and> dom (money_db w0) \<subseteq> dom (money_db w) \<and> software_db w0 \<subseteq>\<^sub>m software_db w"

lemma register_inv_doms:
  "register_inv w \<longleftrightarrow> (\<forall>u ck. cookie_db w u = Some ck \<longrightarrow> ac_username ck = u \<and> u \<in> dom (auth_db w)) \<and>
    dom (money_db w) \<subseteq> dom (auth_db w)"
  by (auto simp: register_ok_def deposit_addrs_def domIff subset_iff)

lemma register_moves:
  assumes "register_move (G t) w w' h'" "register_inv w" "\<forall>t. hd_names (G t) \<subseteq> dom (auth_db w)"
  shows "register_inv w'" "\<forall>t'. hd_names ((G(t := h')) t') \<subseteq> dom (auth_db w')"
    "dom (auth_db w) \<subseteq> dom (auth_db w')" "dom (money_db w) \<subseteq> dom (money_db w')"
proof -
  have m: "dom (auth_db w) \<subseteq> dom (auth_db w')"
      "hd_names h' \<subseteq> hd_names (G t) \<union> dom (auth_db w') \<union> dom (money_db w)"
      "dom (money_db w) \<subseteq> dom (money_db w')" "dom (money_db w') \<subseteq> dom (money_db w) \<union> hd_names (G t)"
    and cookies: "\<And>u. cookie_db w' u = cookie_db w u \<or> cookie_db w' u = None \<or>
      u \<in> hd_names (G t) \<and> (\<exists>ck. cookie_db w' u = Some ck \<and> ac_username ck = u)"
    using assms(1) by (auto simp: register_move_def)
  have inv: "dom (money_db w) \<subseteq> dom (auth_db w)" "\<And>u ck. cookie_db w u = Some ck \<Longrightarrow> ac_username ck = u \<and> u \<in> dom (auth_db w)"
    using assms(2) by (auto simp: register_inv_doms)
  have "ac_username ck = u \<and> u \<in> dom (auth_db w')" if "cookie_db w' u = Some ck" for u ck
    using cookies [of u]
  proof (elim disjE conjE exE)
    assume "cookie_db w' u = cookie_db w u"
    with inv(2) [of u ck] that m(1) show ?thesis by auto
  next
    fix c assume "u \<in> hd_names (G t)" "cookie_db w' u = Some c" "ac_username c = u"
    moreover from this(1) assms(3) m(1) have "u \<in> dom (auth_db w')" by blast
    ultimately show ?thesis using that by simp
  qed (use that in simp)
  moreover have "dom (money_db w') \<subseteq> dom (auth_db w')" using m(1,4) inv(1) assms(3) by blast
  ultimately show "register_inv w'" by (simp add: register_inv_doms)
  have "hd_names (G t') \<subseteq> dom (auth_db w')" for t' using assms(3) m(1) by blast
  then show "\<forall>t'. hd_names ((G(t := h')) t') \<subseteq> dom (auth_db w')"
    using m(1,2) inv(1) by (simp only: fun_upd_apply split: if_split) blast
  show "dom (auth_db w) \<subseteq> dom (auth_db w')" "dom (money_db w) \<subseteq> dom (money_db w')" by (fact m)+
qed

lemma tickets_fewer:
  assumes "tickets_ok G w" "hd_ids h' \<subseteq> hd_ids (G t)" "hd_listed h' \<subseteq> hd_listed (G t)"
    and "software_db w' = software_db w" "current_software_id w' = current_software_id w"
  shows "tickets_ok (G(t := h')) w'"
  using assms unfolding tickets_ok_def by (auto 0 3 simp: disjoint_iff subset_iff)

lemma shelf_moves:
  assumes "shelf_move (G t) w w' h'" "listing_inv w" "tickets_ok G w" "room w"
  shows "listing_inv w' \<and> tickets_ok (G(t := h')) w' \<and> software_db w \<subseteq>\<^sub>m software_db w'"
proof -
  have items: "\<And>i it. software_db w i = Some it \<Longrightarrow> it_id it = i \<and> i < current_software_id w"
    and uploads: "\<And>k i. upload_id_db w k = Some i \<Longrightarrow> software_db w i \<noteq> None"
    using assms(2) by (auto simp: listing_inv_def listing_ok_def)
  note less = word_less_succ [OF assms(4) [unfolded room_def]]
  note held = assms(3) [unfolded tickets_ok_def]
  from assms(1) [unfolded shelf_move_def Let_def] show ?thesis
  proof (elim disjE conjE exE)
    assume "software_db w' = software_db w" "upload_id_db w' = upload_id_db w" "current_software_id w' = current_software_id w"
      "hd_ids h' \<subseteq> hd_ids (G t)" "hd_listed h' \<subseteq> hd_listed (G t)"
    with tickets_fewer [OF assms(3)] assms(2) show ?thesis by (simp add: listing_inv_def)
  next
    assume *: "software_db w' = software_db w" "upload_id_db w' = upload_id_db w"
      "current_software_id w' = current_software_id w + 1"
      "hd_ids h' \<subseteq> insert (current_software_id w) (hd_ids (G t))" "hd_listed h' \<subseteq> hd_listed (G t)"
    have free: "software_db w (current_software_id w) = None"
      using items by (cases "software_db w (current_software_id w)") auto
    have "tickets_ok (G(t := h')) w'"
      using held * free less by (auto 0 4 simp: tickets_ok_def disjoint_iff subset_iff)
    moreover have "listing_inv w'" using * less items uploads by (simp add: listing_inv_def listing_ok_def)
    ultimately show ?thesis using *(1) by simp
  next
    fix it
    assume *: "it_id it \<in> hd_ids (G t)" "software_db w' = (software_db w)(it_id it \<mapsto> it)"
      "upload_id_db w' = upload_id_db w" "current_software_id w' = current_software_id w"
      "hd_ids h' \<subseteq> hd_ids (G t) - {it_id it}" "hd_listed h' \<subseteq> insert (it_id it) (hd_listed (G t))"
    then have new: "it_id it < current_software_id w" "software_db w (it_id it) = None" using held by blast+
    have other: "it_id it \<notin> hd_ids (G t')" if "t' \<noteq> t" for t' using held * that by blast
    have "tickets_ok (G(t := h')) w'"
      using held * other by (auto 0 4 simp: tickets_ok_def disjoint_iff subset_iff)
    moreover have "listing_inv w'"
      using items uploads new * by (simp add: listing_inv_def listing_ok_def)
    ultimately show ?thesis using new(2) * by (auto simp: map_le_def)
  next
    fix k i
    assume *: "i \<in> hd_listed (G t)" "upload_id_db w' = (upload_id_db w)(k \<mapsto> i)" "software_db w' = software_db w"
      "current_software_id w' = current_software_id w" "hd_ids h' \<subseteq> hd_ids (G t)" "hd_listed h' \<subseteq> hd_listed (G t)"
    have "software_db w i \<noteq> None" using held *(1) by blast
    with items uploads * have "listing_inv w'" by (simp add: listing_inv_def listing_ok_def)
    with tickets_fewer [OF assms(3) *(5,6,3,4)] * show ?thesis by simp
  qed
qed

interpretation orderly: protocol orderly nothing surroundings room "all_in_order w0" for w0
proof
  fix G w t w' h'
  assume inv: "all_in_order w0 G w" and "room w" and "orderly (G t) w w' h'"
  then have m: "register_move (G t) w w' h'" "shelf_move (G t) w w' h'" by (simp_all add: orderly_def)
  note i = inv [unfolded all_in_order_def]
  from shelf_moves [where G = G and t = t, OF m(2) _ _ \<open>room w\<close>] i
  have s: "listing_inv w'" "tickets_ok (G(t := h')) w'" "software_db w \<subseteq>\<^sub>m software_db w'" by simp_all
  from register_moves [where G = G and t = t, OF m(1)] i
  have r: "register_inv w'" "\<forall>t'. hd_names ((G(t := h')) t') \<subseteq> dom (auth_db w')"
    "dom (auth_db w) \<subseteq> dom (auth_db w')" "dom (money_db w) \<subseteq> dom (money_db w')" by blast+
  have "dom (auth_db w0) \<subseteq> dom (auth_db w')" "dom (money_db w0) \<subseteq> dom (money_db w')" "software_db w0 \<subseteq>\<^sub>m software_db w'"
    using i map_le_trans [OF _ s(3), of "software_db w0"] subset_trans [OF _ r(3)] subset_trans [OF _ r(4)] by simp_all
  with r(1,2) s(1,2) show "all_in_order w0 (G(t := h')) w'" unfolding all_in_order_def by blast
next
  fix G w t
  assume "all_in_order w0 G w"
  then show "all_in_order w0 (G(t := nothing)) w"
    by (simp add: all_in_order_def nothing_def tickets_ok_def)
next
  fix G w w'
  assume "all_in_order w0 G w" "surroundings w w'"
  then show "all_in_order w0 G w'"
    unfolding surroundings_def by (elim exE conjE) (simp add: all_in_order_def listing_inv_def tickets_ok_def)
qed

subsection \<open>The handlers keep to it\<close>

abbreviation keeps_order :: "(world, 'a) steps \<Rightarrow> held \<Rightarrow> bool" where
  "keeps_order \<equiv> obeys orderly (\<lambda>_ _. True)"

named_theorems order_rules \<open>computations whose first step is orderly\<close>

lemma order_leaf:
  assumes "\<And>w. wp m (\<lambda>x w'. \<exists>h'. orderly h w w' h' \<and> keeps_order (f x) h') (\<lambda>w'. \<exists>h'. orderly h w w' h') w"
  shows "keeps_order (then_do (act m) f) h"
  unfolding obeys_then using assms by (intro obeys_act) simp

lemma order_finish [order_rules]: "keeps_order (Stop r) h"
  by simp

lemma order_if [order_rules]: "(b \<Longrightarrow> keeps_order p h) \<Longrightarrow> (\<not> b \<Longrightarrow> keeps_order q h) \<Longrightarrow> keeps_order (if b then p else q) h"
  by simp

text \<open>Steps that touch neither the shelf nor the register.\<close>

lemma orderly_same:
  assumes "same_shelf w w'" "same_register w w'"
  shows "orderly h w w' h"
proof -
  have "dom (deposit_addrs m) = dom m" for m by (auto simp: deposit_addrs_def)
  then have "dom (money_db w') = dom (money_db w)" using assms(2) by (metis same_register_def)
  with assms show ?thesis
    by (auto simp: orderly_def register_move_def shelf_move_def same_shelf_def same_register_def Let_def)
qed

lemma order_same:
  assumes "\<And>w. wp m (\<lambda>_ w'. same_shelf w w' \<and> same_register w w') (\<lambda>w'. same_shelf w w' \<and> same_register w w') w"
    and "\<And>x. keeps_order (f x) h"
  shows "keeps_order (then_do (act m) f) h"
proof (rule order_leaf)
  show "wp m (\<lambda>x w'. \<exists>h'. orderly h w w' h' \<and> keeps_order (f x) h') (\<lambda>w'. \<exists>h'. orderly h w w' h') w" for w
    by (rule wp_conseq [OF assms(1)]) (use assms(2) orderly_same in blast)+
qed

lemma order_stays:
  assumes "\<And>w. stays_out w m" "\<And>x. keeps_order (f x) h"
  shows "keeps_order (then_do (act m) f) h"
proof (rule order_same [OF _ assms(2)])
  show "wp m (\<lambda>_ w'. same_shelf w w' \<and> same_register w w') (\<lambda>w'. same_shelf w w' \<and> same_register w w') w" for w
    by (rule wp_conseq [where Q = "\<lambda>_. outside w" and E = "outside w"]) (use assms(1) in \<open>auto simp: stays_out_def\<close>)
qed

lemma stays_log:
  "stays_out w (log_from a u e t r p)" "stays_out w (log_new u i e t r p)" "stays_out w (unwrapped (log_send l))"
proof -
  show *: "stays_out w (log_from a u e t r p)" for u
    by (rule stays_step) (rule wp_log_from, auto)
  show "stays_out w (log_new u i e t r p)" by (auto simp: log_new_def intro!: stays)
  show "stays_out w (unwrapped (log_send l))"
    by (rule stays_step) (auto simp: wp_rules)
qed

lemma stays_reads:
  "stays_out w (to_array32 h)" "stays_out w (verify_auth_cookie u c)" "stays_out w (unwrapped (db_get CaptchaDB h))"
  "stays_out w (unwrapped (db_remove CaptchaDB h))" "stays_out w (unwrapped (db_get AuthDB u))"
  "stays_out w (unwrapped (sled_call (\<lambda>w. ((), w))))" "stays_out w (db_iter CookieDB ks)"
  "stays_out w (db_iter CaptchaDB cs)"
  by (rule stays_step, auto simp: auth_defs wp_rules to_array32_def split: option.split)+

lemma stays_answer: "stays_out w (auth_cookie_result_to_response env u c a b)"
  by (rule stays_step) (rule wp_cookie_response, auto)

lemmas order_quiet [order_rules] = stays_log [THEN order_stays] stays_reads [THEN order_stays] stays_answer [THEN order_stays]
  stays_lift [THEN order_stays] stays_now [THEN order_stays]

lemma order_unwrap [order_rules]:
  assumes "\<And>x. v = Some x \<Longrightarrow> keeps_order (f x) h"
  shows "keeps_order (then_do (act (unwrap_opt v)) f) h"
  using assms orderly_same [of s s h for s]
  by (cases v) (auto simp: act_def panic_def ret_def intro!: exI [of _ h])

text \<open>Steps that learn that a name is registered.\<close>

definition learn :: "string \<Rightarrow> held \<Rightarrow> held" where
  "learn u h = h\<lparr>hd_names := insert u (hd_names h)\<rparr>"

lemma learn_simps [simp]: "hd_names (learn u h) = insert u (hd_names h)" "hd_ids (learn u h) = hd_ids h"
  "hd_listed (learn u h) = hd_listed h"
  by (simp_all add: learn_def)

lemma orderly_faults [simp]: "orderly h w (w\<lparr>sled_faults := fs\<rparr>) h"
  by (rule orderly_same) simp_all

lemma orderly_learn: "u \<in> dom (auth_db w) \<union> dom (money_db w) \<Longrightarrow> orderly h w (w\<lparr>sled_faults := fs\<rparr>) (learn u h)"
  by (auto simp: orderly_def register_move_def shelf_move_def Let_def)

lemma orderly_leaf: "orderly h w w' h' \<Longrightarrow> keeps_order p h' \<Longrightarrow> \<exists>h'. orderly h w w' h' \<and> keeps_order p h'"
  by blast

lemma known_leaf:
  assumes "P True (learn u h)" "P False h"
  shows "\<exists>h'. orderly h w (w\<lparr>sled_faults := fs\<rparr>) h' \<and> P (auth_db w u \<noteq> None) h'"
  using assms orderly_learn [of u w h fs] by (cases "auth_db w u") (auto intro: exI [of _ h])

lemma order_contains [order_rules]:
  assumes "keeps_order (f True) (learn u h)" "keeps_order (f False) h"
  shows "keeps_order (then_do (act (unwrapped (db_contains_key AuthDB u))) f) h"
proof (rule order_leaf)
  show "wp (unwrapped (db_contains_key AuthDB u)) (\<lambda>x w'. \<exists>h'. orderly h w w' h' \<and> keeps_order (f x) h')
      (\<lambda>w'. \<exists>h'. orderly h w w' h') w" for w
    by (rule wp_contains_auth) (rule known_leaf, auto intro: exI [of _ h] assms)
qed

lemma order_contains_raw [order_rules]:
  assumes "keeps_order (f (Inr True)) (learn u h)" "keeps_order (f (Inr False)) h" "\<And>e. keeps_order (f (Inl e)) h"
  shows "keeps_order (then_do (act (db_contains_key AuthDB u)) f) h"
proof (rule order_leaf)
  show "wp (db_contains_key AuthDB u) (\<lambda>x w'. \<exists>h'. orderly h w w' h' \<and> keeps_order (f x) h')
      (\<lambda>w'. \<exists>h'. orderly h w w' h') w" for w
    using known_leaf [of "\<lambda>x. keeps_order (f (Inr x))" u h w] assms
    by (auto simp: auth_defs wp_rules intro: exI [of _ h])
qed

lemma order_get_money [order_rules]:
  assumes "\<And>x. keeps_order (f (Some x)) (learn u h)" "keeps_order (f None) h"
  shows "keeps_order (then_do (act (unwrapped (db_get MoneyDB u))) f) h"
proof (rule order_leaf)
  show "wp (unwrapped (db_get MoneyDB u)) (\<lambda>x w'. \<exists>h'. orderly h w w' h' \<and> keeps_order (f x) h')
      (\<lambda>w'. \<exists>h'. orderly h w w' h') w" for w
  proof (rule wp_get_money)
    fix fs
    show "\<exists>h'. orderly h w (w\<lparr>sled_faults := fs\<rparr>) h' \<and> keeps_order (f (money_db w u)) h'"
      using assms by (cases "money_db w u") (auto intro: orderly_leaf [OF orderly_learn] orderly_leaf [OF orderly_faults])
  qed (auto intro: exI [of _ h] assms)
qed

text \<open>Steps that write.\<close>

lemma order_insert_auth [order_rules]:
  assumes "\<And>x. keeps_order (f x) (learn u h)"
  shows "keeps_order (then_do (act (unwrapped (db_insert AuthDB u v))) f) h"
proof (rule order_leaf)
  have "orderly h w (w\<lparr>sled_faults := fs, auth_db := (auth_db w)(u \<mapsto> v)\<rparr>) (learn u h)" for w fs
    by (auto simp: orderly_def register_move_def shelf_move_def Let_def)
  then show "wp (unwrapped (db_insert AuthDB u v)) (\<lambda>x w'. \<exists>h'. orderly h w w' h' \<and> keeps_order (f x) h')
      (\<lambda>w'. \<exists>h'. orderly h w w' h') w" for w
    by (intro wp_insert_auth orderly_leaf assms) (auto intro: exI [of _ h] assms)
qed

lemma order_insert_money [order_rules]:
  assumes "u \<in> hd_names h" "\<And>x. keeps_order (f x) h"
  shows "keeps_order (then_do (act (unwrapped (db_insert MoneyDB u v))) f) h"
proof (rule order_leaf)
  have "orderly h w (w\<lparr>sled_faults := fs, money_db := (money_db w)(u \<mapsto> v)\<rparr>) h" for w fs
    using assms(1) by (auto simp: orderly_def register_move_def shelf_move_def Let_def)
  then show "wp (unwrapped (db_insert MoneyDB u v)) (\<lambda>x w'. \<exists>h'. orderly h w w' h' \<and> keeps_order (f x) h')
      (\<lambda>w'. \<exists>h'. orderly h w w' h') w" for w
    by (intro wp_insert_money orderly_leaf assms(2)) (auto intro: exI [of _ h] assms)
qed

lemma order_insert_cookie [order_rules]:
  assumes "ac_username ck = u" "u \<in> hd_names h" "\<And>x. keeps_order (f x) h"
  shows "keeps_order (then_do (act (db_insert CookieDB u ck)) f) h"
proof (rule order_leaf)
  have "orderly h w (w\<lparr>sled_faults := fs, cookie_db := (cookie_db w)(u \<mapsto> ck)\<rparr>) h" for w fs
    using assms(1,2) by (auto simp: orderly_def register_move_def shelf_move_def Let_def)
  with assms(3) show "wp (db_insert CookieDB u ck) (\<lambda>x w'. \<exists>h'. orderly h w w' h' \<and> keeps_order (f x) h')
      (\<lambda>w'. \<exists>h'. orderly h w w' h') w" for w
    by (auto simp: auth_defs wp_rules intro: orderly_leaf [OF orderly_faults] orderly_leaf)
qed

lemma order_sweep_cookie: "keeps_order (act (sweep_cookie t x)) h"
proof (rule obeys_act)
  have "orderly h w (w\<lparr>sled_faults := fs, cookie_db := (cookie_db w)(u := None)\<rparr>) h" for w fs u
    by (auto simp: orderly_def register_move_def shelf_move_def Let_def)
  moreover have "orderly h w w h" for w using orderly_same [of w w] by simp
  ultimately show "wp (sweep_cookie t x) (\<lambda>_ w'. \<exists>h'. orderly h w w' h' \<and> True) (\<lambda>w'. \<exists>h'. orderly h w w' h' \<and> True) w" for w
    by (auto simp: sweep_cookie_def db_remove_def store_defs wp_rules split: sum.split prod.split intro: exI [of _ h])
qed

lemma order_fetch_add [order_rules]:
  assumes "\<And>i. keeps_order (f i) (h\<lparr>hd_ids := insert i (hd_ids h)\<rparr>)"
  shows "keeps_order (then_do (act fetch_add_software_id) f) h"
proof (rule order_leaf)
  have "orderly h w (w\<lparr>current_software_id := current_software_id w + 1\<rparr>)
      (h\<lparr>hd_ids := insert (current_software_id w) (hd_ids h)\<rparr>)" for w
    by (auto simp: orderly_def register_move_def shelf_move_def Let_def)
  with assms show "wp fetch_add_software_id (\<lambda>x w'. \<exists>h'. orderly h w w' h' \<and> keeps_order (f x) h')
      (\<lambda>w'. \<exists>h'. orderly h w w' h') w" for w
    by (simp add: wp_fetch_add) (rule orderly_leaf)
qed

lemma order_insert_software [order_rules]:
  assumes "it_id it = i" "i \<in> hd_ids h"
    and "\<And>x. keeps_order (f x) (h\<lparr>hd_ids := hd_ids h - {i}, hd_listed := insert i (hd_listed h)\<rparr>)"
  shows "keeps_order (then_do (act (unwrapped (db_insert SoftwareDB i it))) f) h"
proof (rule order_leaf)
  have "orderly h w (w\<lparr>sled_faults := fs, software_db := (software_db w)(i \<mapsto> it)\<rparr>)
      (h\<lparr>hd_ids := hd_ids h - {i}, hd_listed := insert i (hd_listed h)\<rparr>)" for w fs
    using assms(1,2) unfolding orderly_def shelf_move_def Let_def
    by (intro conjI disjI2 disjI1 exI [of _ it]) (auto simp: register_move_def)
  then show "wp (unwrapped (db_insert SoftwareDB i it)) (\<lambda>x w'. \<exists>h'. orderly h w w' h' \<and> keeps_order (f x) h')
      (\<lambda>w'. \<exists>h'. orderly h w w' h') w" for w
    by (intro wp_insert_software orderly_leaf assms(3)) (auto intro: exI [of _ h] assms)
qed

lemma order_insert_upload_id [order_rules]:
  assumes "i \<in> hd_listed h" "\<And>x. keeps_order (f x) h"
  shows "keeps_order (then_do (act (unwrapped (db_insert UploadIdDB k i))) f) h"
proof (rule order_leaf)
  have "orderly h w (w\<lparr>sled_faults := fs, upload_id_db := (upload_id_db w)(k \<mapsto> i)\<rparr>) h" for w fs
    using assms(1) by (auto simp: orderly_def register_move_def shelf_move_def Let_def)
  then show "wp (unwrapped (db_insert UploadIdDB k i)) (\<lambda>x w'. \<exists>h'. orderly h w w' h' \<and> keeps_order (f x) h')
      (\<lambda>w'. \<exists>h'. orderly h w w' h') w" for w
    by (intro wp_insert_upload_id orderly_leaf assms(2)) (auto intro: exI [of _ h] assms)
qed

text \<open>The handlers.\<close>

lemma order_captcha [order_rules]:
  assumes "keeps_order (f True) h" "keeps_order (f False) h"
  shows "keeps_order (then_do (check_captcha_steps c g) f) h"
  using assms by (auto simp: check_captcha_steps_def then_do_assoc intro!: order_rules split: option.split)

lemma order_cookie [order_rules]:
  assumes "\<And>r. keeps_order (f r) h" "\<And>r. keeps_order (f r) (learn u h)"
  shows "keeps_order (then_do (generate_auth_cookie_steps c u) f) h"
  using assms by (auto simp: generate_auth_cookie_steps_def Let_def then_do_assoc intro!: order_rules split: sum.split bool.split)

lemma order_user [order_rules]:
  assumes "\<And>r. keeps_order (f r) (learn u h)" "keeps_order (f False) h"
  shows "keeps_order (then_do (user_then_cookie_steps u c) f) h"
  using assms by (auto simp: user_then_cookie_steps_def then_do_assoc intro!: order_rules)

lemma then_finish [simp]: "then_do p (\<lambda>x. finish x) = p"
  by (induction p) (auto split: outcome.split)

lemma register_keeps_order: "keeps_order (then_do (register_steps env wallet salt cookie r ip) f) h"
  if "\<And>x h. keeps_order (f x) h"
  using that
  by (auto simp: register_steps_def register_free_steps_def Let_def then_do_assoc intro!: order_rules
    split: option.split sum.split prod.split)

lemma login_keeps_order: "keeps_order (then_do (login_steps env cookie r ip) f) h" if "\<And>x h. keeps_order (f x) h"
  using that
  by (auto simp: login_steps_def Let_def then_do_assoc intro!: order_rules split: option.split)

lemma attach_keeps_order: "keeps_order (then_do (attach_xmr_address_steps env ip r) f) h" if "\<And>x h. keeps_order (f x) h"
  using that
  by (auto simp: attach_xmr_address_steps_def Let_def then_do_assoc intro!: order_rules split: option.split)

lemma new_software_keeps_order: "keeps_order (then_do (new_software_steps env rb r) f) h" if "\<And>x h. keeps_order (f x) h"
  using that
  by (auto simp: new_software_steps_def new_software_charged_steps_def Let_def then_do_assoc intro!: order_rules
    split: option.split sum.split prod.split)

lemma settle_keeps_order: "keeps_order (then_do (settle_steps r out) f) h" if "\<And>x h. keeps_order (f x) h"
  using that by (auto simp: settle_steps_def Let_def then_do_assoc intro!: order_rules)

lemma send_from_keeps_order:
  assumes "\<And>x h. keeps_order (f x) h"
  shows "keeps_order (then_do (send_from_steps wallets call i pending) f) h"
proof (induction wallets call i pending arbitrary: h rule: send_from_steps.induct)
  case (1 wallets call i pending)
  note IH = 1
  have pending: "keeps_order (then_do (act (modify (\<lambda>w. w\<lparr>pending_requests := reqs\<rparr>))) g) h"
    if "\<And>x. keeps_order (g x) h" for reqs g h
    by (rule order_same) (simp_all add: wp_rules that)
  show ?case
    by (subst send_from_steps.simps)
      (auto simp: Let_def then_do_assoc assms IH intro!: order_rules pending settle_keeps_order split: sum.split)
qed

lemma each_keeps_order:
  assumes "\<And>x h. keeps_order (p x) h" "\<And>x h. keeps_order (f x) h"
  shows "keeps_order (then_do (each_step p xs) f) h"
  unfolding obeys_then
  by (rule obeys_conseq, rule obeys_each, rule assms(1)) (auto simp: assms(2) split: outcome.split)

lemma order_sweep_captcha: "keeps_order (act (sweep_captcha t x)) h"
proof (rule obeys_act)
  have "wp (sweep_captcha t x) (\<lambda>_ w'. same_shelf w w' \<and> same_register w w') (\<lambda>w'. same_shelf w w' \<and> same_register w w') w" for w
    by (auto simp: sweep_captcha_def db_remove_def wp_rules store_defs split: sum.splits option.splits)
  then show "wp (sweep_captcha t x) (\<lambda>_ w'. \<exists>h'. orderly h w w' h' \<and> True) (\<lambda>w'. \<exists>h'. orderly h w w' h' \<and> True) w" for w
    by (rule wp_conseq) (auto intro: orderly_same)
qed

lemma sweeps_keep_order:
  assumes "\<And>x h. keeps_order (f x) h"
  shows "keeps_order (then_do (destroy_expired_auth_cookies_steps ks) f) h"
    "keeps_order (then_do (destroy_expired_captchas_steps cs) f) h"
  by (auto simp: destroy_expired_auth_cookies_steps_def destroy_expired_captchas_steps_def then_do_assoc assms
    order_sweep_cookie order_sweep_captcha intro!: order_rules each_keeps_order)

lemma order_whole: "(\<And>w. stays_out w m) \<Longrightarrow> (\<And>x. keeps_order (f x) h) \<Longrightarrow> keeps_order (then_do (act (and_then m (\<lambda>x. ret (g x)))) f) h"
  by (rule order_stays) (auto intro: stays)

lemma order_looks:
  assumes "within undisturbed V p" "\<And>x. V x \<Longrightarrow> keeps_order (f x) h"
  shows "keeps_order (then_do p f) h"
  by (rule obeys_within [OF assms(1)]) (auto simp: undisturbed_def orderly_same assms(2))

lemma order_iter_money:
  assumes "\<And>items. keeps_order (f items) (h\<lparr>hd_names := hd_names h \<union> names_read items\<rparr>)"
  shows "keeps_order (then_do (act (db_iter MoneyDB ks)) f) h"
proof (rule order_leaf)
  fix w :: world
  let ?items = "faulty_items (sled_faults w) (entries ks (money_db w))"
  have "names_read ?items \<subseteq> dom (money_db w)"
    using faulty_items_sound by (fastforce simp: names_read_def set_entries)
  then have "orderly h w (w\<lparr>sled_faults := fs\<rparr>) (h\<lparr>hd_names := hd_names h \<union> names_read ?items\<rparr>)" for fs
    by (auto simp: orderly_def register_move_def shelf_move_def Let_def)
  with assms show "wp (db_iter MoneyDB ks) (\<lambda>x w'. \<exists>h'. orderly h w w' h' \<and> keeps_order (f x) h')
      (\<lambda>w'. \<exists>h'. orderly h w w' h') w"
    by (auto simp: wp_db_iter store_defs intro: orderly_leaf)
qed

lemma order_batch:
  assumes "fst ` set batch \<subseteq> hd_names h" "\<And>x. keeps_order (f x) h"
  shows "keeps_order (then_do (act (unwrapped (db_apply_batch MoneyDB batch))) f) h"
proof (rule order_leaf)
  have "orderly h w (w\<lparr>sled_faults := fs, money_db := money_db w ++ map_of (rev batch)\<rparr>) h" for w fs
    using assms(1) by (auto simp: orderly_def register_move_def shelf_move_def Let_def dom_map_of_conv_image_fst
      simp del: domIff dom_def)
  then show "wp (unwrapped (db_apply_batch MoneyDB batch)) (\<lambda>x w'. \<exists>h'. orderly h w w' h' \<and> keeps_order (f x) h')
      (\<lambda>w'. \<exists>h'. orderly h w w' h') w" for w
    by (intro wp_apply_batch orderly_leaf assms(2)) (auto intro: exI [of _ h] assms(2))
qed

lemma balances_keep_order:
  assumes "\<And>x h. keeps_order (f x) h"
  shows "keeps_order (then_do (update_acc_balances_steps wallet ks) f) h"
proof -
  have "keeps_order (then_do (refresh_accounts_steps b fb items) (\<lambda>batch.
      then_do (act (unwrapped (db_apply_batch MoneyDB batch))) f)) (h\<lparr>hd_names := hd_names h \<union> names_read items\<rparr>)" for b fb items
    by (rule order_looks [OF refresh_accounts_look], rule order_batch) (auto simp: assms)
  then show ?thesis unfolding update_acc_balances_steps_def then_do_assoc
    by (intro order_looks [OF look_act [OF look_calls(8)]] order_looks [OF look_act [OF look_plain(1)]] order_iter_money)
qed

lemma request_keeps_order:
  assumes "\<And>x h. keeps_order (f x) h"
  shows "keeps_order (then_do (request_steps env wallet d ip req) f) h"
proof (cases req)
  case (Post_withdraw_xmr r)
  with assms show ?thesis by (auto simp: then_do_assoc intro!: order_looks [OF withdraw_looks])
next
  case (Post_search_software r)
  with assms show ?thesis by (auto simp: then_do_assoc intro!: order_looks [OF search_looks])
qed (use assms in \<open>auto simp: then_do_assoc intro!: order_whole register_keeps_order login_keeps_order attach_keeps_order
  new_software_keeps_order deposit_req.stays get_balance.stays profits.stays create_captcha.stays view_captcha.stays image.stays\<close>)

lemma stays_fee: "stays_out w (cached_fee_round wallet)"
  by (rule stays_step) (auto simp: cached_fee_round_def wp_rules split: outcome.split)

lemma job_keeps_order: "keeps_order (job_steps env job) h"
proof (cases job)
  case (Request wallet d ip req)
  then show ?thesis by (simp add: request_keeps_order)
qed (auto simp: send_pending_steps_def then_do_assoc intro!: order_rules order_stays receiver.stays
  order_looks [OF transfers_look] stays_fee stays_gets balances_keep_order send_from_keeps_order sweeps_keep_order)

abbreviation interleaved where
  "interleaved env wallets \<equiv> par_steps (jobs env wallets) surroundings room"

subsection \<open>A registration that is left alone\<close>

lemma wp_ends: "wp m Q (\<lambda>_. False) s \<Longrightarrow> \<exists>x s'. m s = (Done x, s') \<and> Q x s'"
  by (auto simp: wp_def split: prod.splits outcome.splits)

lemma room_simps [simp]:
  "room (w\<lparr>sled_faults := fs\<rparr>) = room w" "room (w\<lparr>log_queue := q\<rparr>) = room w" "room (w\<lparr>captcha_db := c\<rparr>) = room w"
  "room (w\<lparr>auth_db := a\<rparr>) = room w" "room (w\<lparr>cookie_db := ck\<rparr>) = room w" "room (w\<lparr>money_db := m\<rparr>) = room w"
  by (simp_all add: room_def)

text \<open>A registration that passes: name and captcha are in order and the wallet issues an address.\<close>

definition can_sign_up :: "env \<Rightarrow> ('v, 'h, 'b, 'tx) wallet \<Rightarrow> world \<Rightarrow> auth_request \<Rightarrow> bytes \<Rightarrow> address \<Rightarrow> u64 \<Rightarrow> bool" where
  "can_sign_up env wallet w r h addr i \<longleftrightarrow> ev_hex_decode env (as_bytes (ar_captcha_hash r)) = Some h \<and>
    captcha_ok w h (ar_captcha_answer r) \<and> invalid_user_reason env (ev_to_lowercase env (ar_username r)) = None \<and>
    wallet_create_address wallet (ev_to_lowercase env (ar_username r)) = Done (Inr (addr, i))"

text \<open>The state it leads to, whoever else has the name.\<close>

definition signed_up :: "env \<Rightarrow> draws \<Rightarrow> auth_request \<Rightarrow> bytes \<Rightarrow> address \<Rightarrow> u64 \<Rightarrow> world \<Rightarrow> world" where
  "signed_up env d r h addr i w = (let u = ev_to_lowercase env (ar_username r) in
     w\<lparr>captcha_db := (captcha_db w)(h := None),
       auth_db := (auth_db w)(u \<mapsto> \<lparr>us_username = u, us_salt = dr_salt d,
         us_hashed_password = hash_password env (as_bytes (ar_password r)) (dr_salt d)\<rparr>),
       money_db := (money_db w)(u \<mapsto> financial_info_new i addr),
       cookie_db := (cookie_db w)(u \<mapsto> fresh_cookie u (dr_cookie d) (clock w))\<rparr>)"

text \<open>A signup as a job, and what is left of it after the first step when the name is free.\<close>

abbreviation signup where
  "signup env wallet d ip r \<equiv> job_steps env (Request wallet d (Some ip) (Post_signup r))"

definition signup_free where
  "signup_free env wallet d ip r = then_do (register_free_steps env wallet (dr_salt d) (dr_cookie d) r (Some ip))
    (\<lambda>resp. finish (Some (Post_signup r, rs_status resp)))"

lemma signup_unfold:
  "signup env wallet d ip r = then_do (act (unwrapped (db_contains_key AuthDB (ev_to_lowercase env (ar_username r))))) (\<lambda>taken.
     if taken then then_do (act (log_from (Some ip) (Some (ev_to_lowercase env (ar_username r))) (Registration False) LogAuth
          ''Username already registered'' Low)) (\<lambda>_. finish (Some (Post_signup r, CONFLICT)))
     else signup_free env wallet d ip r)"
  by (simp add: register_steps_def signup_free_def Let_def then_do_assoc cong: if_cong)

lemma name_is_free: "healthy w \<Longrightarrow> auth_db w u = None \<Longrightarrow> unwrapped (db_contains_key AuthDB u) w = (Done False, w)"
  by (simp add: healthy_def auth_defs run_rules)

lemma signup_starts:
  assumes "healthy w" "auth_db w (ev_to_lowercase env (ar_username r)) = None"
  shows "ahead (Suc 0) (signup env wallet d ip r) w = (signup_free env wallet d ip r, w)"
    "run (signup env wallet d ip r) w = run (signup_free env wallet d ip r) w"
  using name_is_free [OF assms] by (simp_all add: signup_unfold and_then_def del: job_steps.simps run.simps(1))

lemma signup_ends:
  assumes "healthy w" "can_sign_up env wallet w r h addr i"
  shows "\<exists>w'. run (signup_free env wallet d ip r) w = (Done (Some (Post_signup r, OK)), w') \<and>
    data w' = data (signed_up env d r h addr i w) \<and> sled_faults w' = []"
proof -
  have "wp (run (signup_free env wallet d ip r)) (\<lambda>x w'. x = Some (Post_signup r, OK) \<and>
      data w' = data (signed_up env d r h addr i w) \<and> sled_faults w' = []) (\<lambda>_. False) w"
    using assms
    by (auto simp: can_sign_up_def signup_free_def register_free_steps_def auth_defs wp_rules wp_log_from_eq Let_def
      healthy_def captcha_ok_def signed_up_def fresh_cookie_def data_def answer_def split: option.splits simp del: run.simps(1))
  then show ?thesis by (blast dest: wp_ends)
qed

lemma signup_passes:
  assumes "healthy w" "can_sign_up env wallet w r h addr i" "room w"
  shows "passes room (signup_free env wallet d ip r) w"
  using assms
  by (auto simp: can_sign_up_def signup_free_def register_free_steps_def generate_auth_cookie_steps_def then_do_assoc
    check_captcha_steps_def auth_defs wp_rules wp_log_from_eq Let_def healthy_def captcha_ok_def split: option.splits)

lemma signup_passes_all:
  assumes "healthy w" "auth_db w (ev_to_lowercase env (ar_username r)) = None" "can_sign_up env wallet w r h addr i" "room w"
  shows "passes room (signup env wallet d ip r) w"
  using assms signup_passes [OF assms(1,3,4)] wp_same_run
  by (simp add: signup_unfold wp_def name_is_free del: job_steps.simps)

text \<open>Alice signs up, and nobody else is there.\<close>

lemma alice_can_sign_up: "can_sign_up example_env example_wallet captcha_world alice_request example_hash ''4a'' 1"
  using alice_captcha by (simp add: can_sign_up_def alice_address)

definition alice_draws :: draws where
  "alice_draws = \<lparr>dr_salt = [7], dr_cookie = ''c'', dr_random_bytes = [], dr_captcha = None, dr_open_error = None,
    dr_users = [], dr_items = []\<rparr>"

lemma alice_signs_up:
  assumes "signup example_env example_wallet alice_draws ''127.0.0.1'' alice_request \<in> all_jobs"
  shows "\<exists>w'. par_steps all_jobs surroundings room (captcha_world, Map.empty)
      (w', [0 \<mapsto> finish (Some (Post_signup alice_request, OK))]) \<and> ''alice'' \<in> dom (auth_db w')"
proof -
  let ?p = "signup example_env example_wallet alice_draws ''127.0.0.1'' alice_request"
    and ?go = "par_steps all_jobs surroundings room"
  have free: "auth_db captcha_world (ev_to_lowercase example_env (ar_username alice_request)) = None" "room captcha_world"
    by (simp_all add: captcha_world_def empty_world_def room_def)
  obtain w' where run: "run ?p captcha_world = (Done (Some (Post_signup alice_request, OK)), w')"
    and w': "data w' = data (signed_up example_env alice_draws alice_request example_hash ''4a'' 1 captcha_world)"
    using signup_starts(2) [OF healthy_example(1) free(1)] signup_ends [OF healthy_example(1) alice_can_sign_up] by metis
  have "?go (captcha_world, Map.empty) (captcha_world, [0 \<mapsto> ?p])"
    using assms by (intro r_into_rtranclp par_step.arrive) simp_all
  moreover have "?go (captcha_world, [0 \<mapsto> ?p]) (w', [0 \<mapsto> ?p, 0 \<mapsto> finish (Some (Post_signup alice_request, OK))])"
    by (rule left_alone [OF _ signup_passes_all [OF healthy_example(1) free(1) alice_can_sign_up free(2)] run]) simp
  ultimately have "?go (captcha_world, Map.empty) (w', [0 \<mapsto> ?p, 0 \<mapsto> finish (Some (Post_signup alice_request, OK))])"
    by (rule rtranclp_trans)
  moreover have "''alice'' \<in> dom (auth_db w')"
    using data_eqD(1) [OF w'] by (simp add: signed_up_def Let_def)
  ultimately show ?thesis unfolding fun_upd_upd by blast
qed

lemma captcha_world_in_order: "register_inv captcha_world" "listing_inv captcha_world"
  by (simp_all add: register_ok_def deposit_addrs_def listing_inv_def listing_ok_def captcha_world_def empty_world_def)

end
