(* ===== verification/Races.thy ===== *)
theory Races
  imports Parallel
begin

section \<open>What goes wrong between two calls\<close>

text \<open>
  Some handlers rely on something they read before, and nothing keeps another request from running in between. \<open>register\<close> (src/auth.rs) looks whether a name is free and stores the user later; \<open>new_software\<close>
  (src/software.rs) reads an account, charges it and stores it; and \<open>destroy_expired_captchas\<close> takes for granted that a
  captcha it has just seen is still there to be removed, as \<open>destroy_expired_auth_cookies\<close> does that a session is still
  the one it has just seen. Here are the runs in which this shows: two registrations under one name that both succeed,
  two listings of which one is charged, a sweep of the captchas that panics, and a sweep of the sessions that ends a
  session that has just begun.
\<close>

subsection \<open>Two registrations under one name\<close>

text \<open>
  C8: Two registrations can both succeed under one name. While the name is free, two signups for it arrive, each with a
  captcha of its own; the first one looks the name up, the second one runs from beginning to end, and the first one
  goes on. Both are answered with 200, but the name belongs to the first one: its password, its deposit address and its
  session are on record, and the cookie the second one was given is not valid.
\<close>

theorem registrations_collide:
  fixes d0 d1 :: draws
  assumes "healthy w" "room w" "auth_db w u = None"
    and "ev_to_lowercase env (ar_username r0) = u" "ev_to_lowercase env (ar_username r1) = u"
    and "can_sign_up env wallet0 w r0 h0 addr0 i0" "can_sign_up env wallet1 w r1 h1 addr1 i1" "h0 \<noteq> h1"
    and "wallet0 \<in> wallets" "wallet1 \<in> wallets"
  shows "\<exists>w'. interleaved env wallets (w, Map.empty)
      (w', [0 \<mapsto> finish (Some (Post_signup r0, OK)), 1 \<mapsto> finish (Some (Post_signup r1, OK))]) \<and>
    auth_db w' u = Some \<lparr>us_username = u, us_salt = dr_salt d0,
      us_hashed_password = hash_password env (as_bytes (ar_password r0)) (dr_salt d0)\<rparr> \<and>
    money_db w' u = Some (financial_info_new i0 addr0) \<and>
    authorised w' u (dr_cookie d0) \<and> (dr_cookie d1 \<noteq> dr_cookie d0 \<longrightarrow> \<not> authorised w' u (dr_cookie d1))"
proof -
  let ?p = "\<lambda>wallet d r. signup env wallet d ''127.0.0.1'' r"
  obtain w1 where run1: "run (signup_free env wallet1 d1 ''127.0.0.1'' r1) w = (Done (Some (Post_signup r1, OK)), w1)"
    and d1: "data w1 = data (signed_up env d1 r1 h1 addr1 i1 w)" and f1: "sled_faults w1 = []"
    using signup_ends [OF assms(1,7)] by blast
  have w1: "healthy w1" "room w1" "captcha_db w1 = (captcha_db w)(h1 := None)"
    using assms(1,2) f1 arg_cong [OF d1, of clock] arg_cong [OF d1, of log_open] arg_cong [OF d1, of current_software_id]
      arg_cong [OF d1, of captcha_db]
    by (simp_all add: healthy_def room_def signed_up_def Let_def)
  have can0: "can_sign_up env wallet0 w1 r0 h0 addr0 i0"
    using assms(6,8) by (simp add: can_sign_up_def captcha_ok_def w1(3))
  obtain w2 where run0: "run (signup_free env wallet0 d0 ''127.0.0.1'' r0) w1 = (Done (Some (Post_signup r0, OK)), w2)"
    and d0: "data w2 = data (signed_up env d0 r0 h0 addr0 i0 w1)"
    using signup_ends [OF w1(1) can0] by blast
  have free: "auth_db w (ev_to_lowercase env (ar_username r0)) = None" "auth_db w (ev_to_lowercase env (ar_username r1)) = None"
    using assms(3-5) by simp_all
  have "interleaved env wallets (w, Map.empty)
      (w2, [0 \<mapsto> finish (Some (Post_signup r0, OK)), 1 \<mapsto> finish (Some (Post_signup r1, OK))])"
  proof (rule two_arrive [OF _ _ interrupted [where n = "Suc 0"]])
    show "?p wallet0 d0 r0 \<in> jobs env wallets" "?p wallet1 d1 r1 \<in> jobs env wallets"
      unfolding jobs_def using assms(9,10) by (auto simp del: job_steps.simps)
    show "ahead (Suc 0) (?p wallet0 d0 r0) w = (signup_free env wallet0 d0 ''127.0.0.1'' r0, w)"
      by (rule signup_starts [OF assms(1) free(1)])
    show "run (?p wallet1 d1 r1) w = (Done (Some (Post_signup r1, OK)), w1)"
      by (simp only: signup_starts(2) [OF assms(1) free(2)] run1)
    show "passes room (?p wallet0 d0 r0) w" by (rule signup_passes_all [OF assms(1) free(1) assms(6,2)])
    show "passes room (?p wallet1 d1 r1) w" by (rule signup_passes_all [OF assms(1) free(2) assms(7,2)])
    show "passes room (signup_free env wallet0 d0 ''127.0.0.1'' r0) w1" by (rule signup_passes [OF w1(1) can0 w1(2)])
  qed (fact run0)
  with data_eqD(1-3) [OF d0] assms(4) show ?thesis
    by (intro exI [of _ w2]) (simp add: signed_up_def authorised_def fresh_cookie_def Let_def)
qed

text \<open>Somebody else signs up as Alice at the same time, with a captcha of their own.\<close>

definition other_hash :: bytes where
  "other_hash = replicate 32 98"

definition other_request :: auth_request where
  "other_request = alice_request\<lparr>ar_password := ''mine'', ar_captcha_hash := replicate 64 CHR ''b''\<rparr>"

definition two_captchas_world :: world where
  "two_captchas_world = captcha_world\<lparr>captcha_db := (captcha_db captcha_world)(other_hash \<mapsto>
    \<lparr>gc_creation_time = 900, gc_expiration_time = 1200, gc_answer = ''xyz'', gc_image = []\<rparr>)\<rparr>"

lemma both_can_sign_up:
  "can_sign_up example_env example_wallet two_captchas_world alice_request example_hash ''4a'' 1"
  "can_sign_up example_env example_wallet two_captchas_world other_request other_hash ''4a'' 1" "example_hash \<noteq> other_hash"
proof -
  have "ev_hex_decode example_env (as_bytes (replicate 64 CHR ''b'')) = Some other_hash" "length other_hash = OUT_LEN"
    by (simp_all add: example_env_def as_bytes_def other_hash_def OUT_LEN_def)
  moreover have differ: "example_hash \<noteq> other_hash" by (simp add: example_hash_def other_hash_def)
  ultimately show "can_sign_up example_env example_wallet two_captchas_world alice_request example_hash ''4a'' 1"
      "can_sign_up example_env example_wallet two_captchas_world other_request other_hash ''4a'' 1"
    using alice_captcha
    by (simp_all add: can_sign_up_def alice_address other_request_def two_captchas_world_def captcha_ok_def)
  show "example_hash \<noteq> other_hash" by (fact differ)
qed

theorem registrations_collide_witness:
  "\<exists>w'. interleaved example_env {example_wallet} (two_captchas_world, Map.empty)
      (w', [0 \<mapsto> finish (Some (Post_signup alice_request, OK)), 1 \<mapsto> finish (Some (Post_signup other_request, OK))]) \<and>
    authorised w' ''alice'' ''c'' \<and> \<not> authorised w' ''alice'' ''e''"
proof -
  let ?d1 = "alice_draws\<lparr>dr_cookie := ''e''\<rparr>"
  have "healthy two_captchas_world" "room two_captchas_world" "auth_db two_captchas_world ''alice'' = None"
      "ev_to_lowercase example_env (ar_username other_request) = ''alice''"
    using healthy_example(1)
    by (simp_all add: two_captchas_world_def other_request_def captcha_world_def empty_world_def healthy_def room_def)
  from registrations_collide [OF this(1-3) alice_name(1) this(4) both_can_sign_up singletonI singletonI, of alice_draws ?d1]
  show ?thesis by (elim exE conjE, intro exI conjI) (auto simp: alice_draws_def)
qed

subsection \<open>Two listings, one fee\<close>

text \<open>A listing that passes, paid from the account \<open>f\<close>.\<close>

definition can_list :: "env \<Rightarrow> world \<Rightarrow> create_software_req \<Rightarrow> financial_info \<Rightarrow> bytes \<Rightarrow> bool" where
  "can_list env w r f img \<longleftrightarrow> (\<exists>h. ev_hex_decode env (as_bytes (cs_captcha_hash r)) = Some h \<and>
      captcha_ok w h (cs_captcha_answer r)) \<and>
    authorised w (cs_username r) (cs_auth_cookie r) \<and> money_db w (cs_username r) = Some f \<and>
    LISTING_FEE \<le> fi_get_balance f \<and> cs_compressed_size r \<le> MAX_COMPRESSED_SIZE \<and>
    ev_hex_decode env (as_bytes DEFAULT_IMAGE) = Some img \<and> length img = OUT_LEN"

abbreviation fee_paid :: "financial_info \<Rightarrow> financial_info" where
  "fee_paid f \<equiv> f\<lparr>fi_amount_spent := fi_amount_spent f + LISTING_FEE\<rparr>"

text \<open>A listing as a job, and what is left of it when it has charged the account it read.\<close>

abbreviation listing where
  "listing env wallet d ip r \<equiv> job_steps env (Request wallet d (Some ip) (Post_new_software r))"

definition listing_stored where
  "listing_stored env d r f = then_do (new_software_charged_steps env (dr_random_bytes d) r f)
    (\<lambda>resp. finish (Some (Post_new_software r, rs_status resp)))"

text \<open>The state it leads to, if \<open>f\<close> is the account it writes.\<close>

definition stored :: "env \<Rightarrow> draws \<Rightarrow> create_software_req \<Rightarrow> financial_info \<Rightarrow> bytes \<Rightarrow> world \<Rightarrow> world" where
  "stored env d r f img w = (let i = current_software_id w; item = new_item env (dr_random_bytes d) r i img in
     w\<lparr>money_db := (money_db w)(cs_username r \<mapsto> f), current_software_id := i + 1,
       software_db := (software_db w)(i \<mapsto> item),
       upload_id_db := (upload_id_db w)(upload_id_of env (dr_random_bytes d) r \<mapsto> i)\<rparr>)"

lemma listing_starts:
  assumes "healthy w" "can_list env w r f img"
  shows "ahead (Suc (Suc (Suc (Suc (Suc (Suc 0)))))) (listing env wallet d ip r) w = (listing_stored env d r (fee_paid f), w)"
    "run (listing env wallet d ip r) w = run (listing_stored env d r (fee_paid f)) w"
    "room w \<Longrightarrow> passes room (listing env wallet d ip r) w = passes room (listing_stored env d r (fee_paid f)) w"
proof -
  from assms(2) obtain h c ck where captcha: "ev_hex_decode env (as_bytes (cs_captcha_hash r)) = Some h"
      "length h = OUT_LEN" "captcha_db w h = Some c" "gc_answer c = cs_captcha_answer r"
    and account: "auth_db w (cs_username r) \<noteq> None" "cookie_db w (cs_username r) = Some ck"
      "ac_cookie ck = cs_auth_cookie r" "money_db w (cs_username r) = Some f" "LISTING_FEE \<le> fi_get_balance f"
    by (auto simp: can_list_def captcha_ok_def authorised_def split: option.splits)
  have calls: "to_array32 h w = (Done h, w)" "unwrapped (db_get CaptchaDB h) w = (Done (Some c), w)"
      "unwrapped (db_contains_key AuthDB (cs_username r)) w = (Done True, w)"
      "verify_auth_cookie (cs_username r) (cs_auth_cookie r) w = (Done True, w)"
      "unwrapped (db_get MoneyDB (cs_username r)) w = (Done (Some f), w)" "unwrap_opt (Some f) w = (Done f, w)"
    using assms(1) captcha account by (simp_all add: healthy_def auth_defs run_rules to_array32_def)
  have paid: "spend_money LISTING_FEE f = (Inr (fi_get_balance f - LISTING_FEE), fee_paid f)"
    using account(5) by (simp add: spend_money_split)
  note path = new_software_steps_def user_then_cookie_steps_def then_do_assoc listing_stored_def Let_def captcha calls paid ret_def
  show "ahead (Suc (Suc (Suc (Suc (Suc (Suc 0)))))) (listing env wallet d ip r) w = (listing_stored env d r (fee_paid f), w)"
    by (simp add: path)
  show "run (listing env wallet d ip r) w = run (listing_stored env d r (fee_paid f)) w"
    by (simp add: path and_then_def del: run.simps(1) run_new_software)
  show "passes room (listing env wallet d ip r) w = passes room (listing_stored env d r (fee_paid f)) w" if "room w"
    using that by (simp add: path wp_def)
qed

lemma listing_ends:
  assumes "healthy w" "can_list env w' r f' img"
  shows "run (listing_stored env d r f) w = (Done (Some (Post_new_software r, OK)), stored env d r f img w)"
  using assms
  by (auto simp: can_list_def listing_stored_def new_software_charged_steps_def Let_def auth_defs run_rules healthy_def
    to_array32_def stored_def new_item_def upload_id_of_def answer_def and_then_def fetch_add_software_id_def ret_def
    not_less simp del: run.simps(1))

lemma listing_passes:
  assumes "room w" "room (w\<lparr>current_software_id := current_software_id w + 1\<rparr>)"
  shows "passes room (listing_stored env d r f) w"
  using assms
  by (auto simp: listing_stored_def new_software_charged_steps_def Let_def then_do_assoc auth_defs wp_rules room_def
    split: option.splits)

lemma counts_on:
  assumes "unat x + n < 2 ^ 64" "0 < n"
  shows "(x :: u64) + of_nat n \<noteq> 0"
proof
  have "unat (x + of_nat n) = unat x + n" using assms(1) by (simp add: unat_word_ariths unat_of_nat)
  moreover assume "x + of_nat n = 0"
  ultimately show False using assms(2) by simp
qed

text \<open>
  C18: Two listings can cost one fee. A user whose account has money for one listing sends two; the first one reads the
  account, the second one runs from beginning to end, and the first one goes on with what it read. Both are answered
  with 200 and both items are stored, but the account is charged one fee.
\<close>

theorem listings_charged_once:
  fixes d0 d1 :: draws
  assumes "healthy w" "unat (current_software_id w) + 3 < 2 ^ 64"
    and "cs_username r0 = u" "cs_username r1 = u" "can_list env w r0 f img" "can_list env w r1 f img"
    and "wallet0 \<in> wallets" "wallet1 \<in> wallets"
  shows "\<exists>w'. interleaved env wallets (w, Map.empty)
      (w', [0 \<mapsto> finish (Some (Post_new_software r0, OK)), 1 \<mapsto> finish (Some (Post_new_software r1, OK))]) \<and>
    money_db w' u = Some (f\<lparr>fi_amount_spent := fi_amount_spent f + LISTING_FEE\<rparr>) \<and>
    (let i = current_software_id w in software_db w' = (software_db w)
      (i \<mapsto> new_item env (dr_random_bytes d1) r1 i img, i + 1 \<mapsto> new_item env (dr_random_bytes d0) r0 (i + 1) img))"
proof -
  let ?p = "\<lambda>wallet d r. listing env wallet d ''127.0.0.1'' r" and ?f = "fee_paid f"
  let ?w1 = "stored env d1 r1 ?f img w"
  let ?w2 = "stored env d0 r0 ?f img ?w1"
  have ids: "current_software_id w + 1 \<noteq> 0" "current_software_id w + 2 \<noteq> 0" "current_software_id w + 3 \<noteq> 0"
    using assms(2) counts_on [of "current_software_id w" 1] counts_on [of "current_software_id w" 2]
      counts_on [of "current_software_id w" 3] by simp_all
  have w1: "healthy ?w1" using assms(1) by (simp add: stored_def Let_def healthy_def)
  have room: "room w" "room (w\<lparr>current_software_id := current_software_id w + 1\<rparr>)" "room ?w1"
      "room (?w1\<lparr>current_software_id := current_software_id ?w1 + 1\<rparr>)"
    using ids by (simp_all add: room_def stored_def Let_def add.assoc)
  have "interleaved env wallets (w, Map.empty)
      (?w2, [0 \<mapsto> finish (Some (Post_new_software r0, OK)), 1 \<mapsto> finish (Some (Post_new_software r1, OK))])"
  proof (rule two_arrive [OF _ _ interrupted])
    show "?p wallet0 d0 r0 \<in> jobs env wallets" "?p wallet1 d1 r1 \<in> jobs env wallets"
      unfolding jobs_def using assms(7,8) by (auto simp del: job_steps.simps)
    show "ahead (Suc (Suc (Suc (Suc (Suc (Suc 0)))))) (?p wallet0 d0 r0) w = (listing_stored env d0 r0 ?f, w)"
      by (rule listing_starts(1) [OF assms(1,5)])
    show "run (?p wallet1 d1 r1) w = (Done (Some (Post_new_software r1, OK)), ?w1)"
      by (simp only: listing_starts(2) [OF assms(1,6)] listing_ends [OF assms(1,6)])
    show "run (listing_stored env d0 r0 ?f) ?w1 = (Done (Some (Post_new_software r0, OK)), ?w2)"
      by (rule listing_ends [OF w1 assms(5)])
    show "passes room (?p wallet0 d0 r0) w" "passes room (?p wallet1 d1 r1) w"
      by (simp_all only: listing_starts(3) [OF assms(1,5) room(1)] listing_starts(3) [OF assms(1,6) room(1)]
        listing_passes [OF room(1,2)])
    show "passes room (listing_stored env d0 r0 ?f) ?w1" by (rule listing_passes [OF room(3,4)])
  qed
  then show ?thesis using assms(3,4)
    by (intro exI [of _ ?w2]) (simp add: stored_def Let_def)
qed

theorem listings_charged_once_witness:
  "\<exists>w' :: world. money_db w' ''alice'' = Some (fee_paid (alice_account 5000000000)) \<and>
    software_db w' 0 \<noteq> None \<and> software_db w' 1 \<noteq> None \<and> current_software_id (bank_world 5000000000) = 0"
proof -
  let ?w = "bank_world 5000000000"
  obtain img where img: "ev_hex_decode example_env (as_bytes DEFAULT_IMAGE) = Some img" "length img = OUT_LEN"
    using default_image_decodes by blast
  have "captcha_ok ?w example_hash ''xyz''"
    using alice_captcha(3) by (simp add: bank_world_def alice_world_def captcha_ok_def)
  then have can: "can_list example_env ?w alice_lists (alice_account 5000000000) img"
    using bank_world_facts(3,4) [of 5000000000] img example_image_hash(3)
    by (simp add: can_list_def alice_lists_def alice_account_facts LISTING_FEE_def MAX_COMPRESSED_SIZE_def)
  have "current_software_id ?w = 0" by (simp add: bank_world_def alice_world_def captcha_world_def empty_world_def)
  then have "unat (current_software_id ?w) + 3 < 2 ^ 64" "cs_username alice_lists = ''alice''"
    by (simp_all add: alice_lists_def)
  from listings_charged_once [OF bank_world_facts(1) this this(2) can can singletonI singletonI,
    of example_wallet alice_draws alice_draws]
  show ?thesis using \<open>current_software_id ?w = 0\<close> by (elim exE conjE, intro exI conjI) (auto simp: Let_def)
qed

subsection \<open>A captcha that is gone\<close>

text \<open>A round of the captcha sweep, and what is left of it when it has read the clock and come to the captchas.\<close>

definition captcha_round where
  "captcha_round cs = then_do (destroy_expired_captchas_steps cs) (\<lambda>_. finish (None :: (http_request \<times> status) option))"

definition captcha_round_rest where
  "captcha_round_rest time items = then_do (each_step (\<lambda>item. act (sweep_captcha time item)) items)
    (\<lambda>_. finish (None :: (http_request \<times> status) option))"

lemma captcha_round_is_job: "job_steps env (Captcha_sweep cs) = captcha_round cs"
  by (simp add: captcha_round_def)

lemma captcha_round_starts:
  assumes "healthy w"
  shows "ahead (Suc (Suc 0)) (captcha_round cs) w =
    (captcha_round_rest (of_int (clock w)) (map Inr (entries cs (captcha_db w))), w)"
  using assms
  by (simp add: captcha_round_def destroy_expired_captchas_steps_def captcha_round_rest_def then_do_assoc healthy_def
    run_rules store_defs)

lemma captcha_round_passes:
  assumes "room w"
  shows "passes room (captcha_round_rest time items) w" "passes room (captcha_round cs) w"
proof -
  have visit: "wp (sweep_captcha time x) (\<lambda>_. room) (\<lambda>_. True) w" if "room w" for time x w
    using that by (auto simp: sweep_captcha_def db_remove_def wp_rules store_defs split: sum.splits option.splits)
  show "passes room (captcha_round_rest time items) w" for time items
    unfolding captcha_round_rest_def by (rule passes_each [OF visit assms])
  with assms show "passes room (captcha_round cs) w"
    by (auto simp: captcha_round_def destroy_expired_captchas_steps_def then_do_assoc wp_rules
      intro!: passes_each [OF visit])
qed

lemma gone_captcha_panics:
  assumes "sled_faults w = []" "captcha_db w h = None" "gc_expiration_time c < time"
  shows "run (captcha_round_rest time (Inr (h, c) # items)) w = (Panic, w)"
proof -
  have "(captcha_db w)(h := None) = captcha_db w" using assms(2) by auto
  with assms have "sweep_captcha time (Inr (h, c)) w = (Panic, w)"
    by (simp add: sweep_captcha_def db_remove_def store_defs run_rules and_then_def panic_def)
  then show ?thesis by (simp add: captcha_round_rest_def and_then_def del: run.simps(1))
qed

text \<open>
  C26: The sweep of the captchas can panic. It comes to a captcha that has expired; before it removes it, a signup
  that presents this captcha runs from beginning to end, which takes the captcha out. The signup is answered with
  200, and the sweep, which unwraps what it removed, ends in a panic: the task of the sweep is gone for good, and in
  the release profile, where a panic aborts (\<open>panic = "abort"\<close> in src/Cargo.toml), the whole server with it.
\<close>

theorem captcha_sweep_panics:
  fixes d :: draws
  assumes "healthy w" "room w" "auth_db w (ev_to_lowercase env (ar_username r)) = None"
    and "can_sign_up env wallet w r h addr i"
    and "captcha_db w h = Some c" "gc_expiration_time c < of_int (clock w)"
  shows "\<exists>w'. interleaved env wallets (w, [0 \<mapsto> captcha_round (h # cs), 1 \<mapsto> signup env wallet d ip r])
      (w', [0 \<mapsto> Stop Panic, 1 \<mapsto> finish (Some (Post_signup r, OK))]) \<and> captcha_db w' h = None"
proof -
  obtain w1 where signup: "run (signup_free env wallet d ip r) w = (Done (Some (Post_signup r, OK)), w1)"
    and d1: "data w1 = data (signed_up env d r h addr i w)" and ok: "sled_faults w1 = []"
    using signup_ends [OF assms(1,4)] by blast
  have w1: "captcha_db w1 h = None" "room w1"
    using assms(2) data_eqD(4,11) [OF d1] by (simp_all add: signed_up_def Let_def room_def)
  let ?rest = "captcha_round_rest (of_int (clock w)) (map Inr (entries (h # cs) (captcha_db w)))"
  have "interleaved env wallets (w, [0 \<mapsto> captcha_round (h # cs), 1 \<mapsto> signup env wallet d ip r])
      (w1, [0 \<mapsto> Stop Panic, 1 \<mapsto> finish (Some (Post_signup r, OK))])"
  proof (rule interrupted)
    show "passes room (captcha_round (h # cs)) w" "passes room ?rest w1"
      by (rule captcha_round_passes, fact)+
    show "passes room (signup env wallet d ip r) w" by (rule signup_passes_all [OF assms(1,3,4,2)])
    show "ahead (Suc (Suc 0)) (captcha_round (h # cs)) w = (?rest, w)" by (rule captcha_round_starts [OF assms(1)])
    show "run (signup env wallet d ip r) w = (Done (Some (Post_signup r, OK)), w1)"
      by (simp only: signup_starts(2) [OF assms(1,3)] signup)
    show "run ?rest w1 = (Panic, w1)"
      using gone_captcha_panics [OF ok w1(1) assms(6)] by (simp add: assms(5) del: run.simps(1))
  qed
  with w1(1) show ?thesis by blast
qed

theorem captcha_sweep_panics_witness:
  "\<exists>w'. interleaved example_env {example_wallet} (captcha_world\<lparr>clock := 2000\<rparr>,
      [0 \<mapsto> captcha_round [example_hash], 1 \<mapsto> signup example_env example_wallet alice_draws ''127.0.0.1'' alice_request])
      (w', [0 \<mapsto> Stop Panic, 1 \<mapsto> finish (Some (Post_signup alice_request, OK))]) \<and> captcha_db w' example_hash = None"
proof -
  let ?w = "captcha_world\<lparr>clock := 2000\<rparr>"
  have can: "can_sign_up example_env example_wallet ?w alice_request example_hash ''4a'' 1"
    using alice_can_sign_up by (simp add: can_sign_up_def captcha_ok_def)
  have world: "healthy ?w" "room ?w" "auth_db ?w (ev_to_lowercase example_env (ar_username alice_request)) = None"
      "captcha_db ?w example_hash = Some \<lparr>gc_creation_time = 900, gc_expiration_time = 1200, gc_answer = ''xyz'', gc_image = []\<rparr>"
    by (simp_all add: captcha_world_def empty_world_def healthy_def room_def)
  show ?thesis by (rule captcha_sweep_panics [OF world(1-3) can world(4)]) simp
qed

subsection \<open>A session that has just begun\<close>

definition session_round where
  "session_round ks = then_do (destroy_expired_auth_cookies_steps ks) (\<lambda>_. finish (None :: (http_request \<times> status) option))"

definition session_round_rest where
  "session_round_rest time items = then_do (each_step (\<lambda>item. act (sweep_cookie time item)) items)
    (\<lambda>_. finish (None :: (http_request \<times> status) option))"

lemma session_round_starts:
  assumes "healthy w"
  shows "ahead (Suc (Suc 0)) (session_round ks) w =
    (session_round_rest (of_int (clock w)) (map Inr (entries ks (cookie_db w))), w)"
  using assms
  by (simp add: session_round_def destroy_expired_auth_cookies_steps_def session_round_rest_def then_do_assoc healthy_def
    run_rules store_defs)

lemma session_round_passes:
  assumes "room w"
  shows "passes room (session_round_rest time items) w" "passes room (session_round ks) w"
proof -
  have visit: "wp (sweep_cookie time x) (\<lambda>_. room) (\<lambda>_. True) w" if "room w" for time x w
    using that by (auto simp: sweep_cookie_def db_remove_def wp_rules store_defs split: sum.splits)
  show "passes room (session_round_rest time items) w" for time items
    unfolding session_round_rest_def by (rule passes_each [OF visit assms])
  with assms show "passes room (session_round ks) w"
    by (auto simp: session_round_def destroy_expired_auth_cookies_steps_def then_do_assoc wp_rules
      intro!: passes_each [OF visit])
qed

text \<open>A login that passes.\<close>

definition can_log_in :: "env \<Rightarrow> world \<Rightarrow> auth_request \<Rightarrow> bytes \<Rightarrow> bool" where
  "can_log_in env w r h \<longleftrightarrow> ev_hex_decode env (as_bytes (ar_captcha_hash r)) = Some h \<and>
    captcha_ok w h (ar_captcha_answer r) \<and> password_ok env r (auth_db w (ev_to_lowercase env (ar_username r)))"

abbreviation login_job where
  "login_job env wallet d ip r \<equiv> job_steps env (Request wallet d (Some ip) (Post_login r))"

lemma login_ends:
  assumes "healthy w" "can_log_in env w r h" "u = ev_to_lowercase env (ar_username r)"
  shows "\<exists>w'. run (login_job env wallet d ip r) w = (Done (Some (Post_login r, OK)), w') \<and> sled_faults w' = [] \<and>
    data w' = data (w\<lparr>captcha_db := (captcha_db w)(h := None),
      cookie_db := (cookie_db w)(u \<mapsto> fresh_cookie u (dr_cookie d) (clock w))\<rparr>)"
proof -
  have "wp (run (login_job env wallet d ip r)) (\<lambda>x w'. x = Some (Post_login r, OK) \<and> sled_faults w' = [] \<and>
    data w' = data (w\<lparr>captcha_db := (captcha_db w)(h := None),
      cookie_db := (cookie_db w)(u \<mapsto> fresh_cookie u (dr_cookie d) (clock w))\<rparr>)) (\<lambda>_. False) w"
    using assms
    by (auto simp: can_log_in_def login_def auth_defs wp_rules wp_log_from_eq Let_def log_new_def password_ok_def
      captcha_ok_def healthy_def data_def hash_password_def verify_hash_def fresh_cookie_def answer_def lift_outcome_def
      split: option.splits simp del: run.simps(1))
  then show ?thesis by (blast dest: wp_ends)
qed

lemma login_passes:
  assumes "healthy w" "can_log_in env w r h" "room w"
  shows "passes room (login_job env wallet d ip r) w"
  using assms
  by (auto simp: can_log_in_def login_steps_def generate_auth_cookie_steps_def check_captcha_steps_def then_do_assoc
    auth_defs wp_rules wp_log_from_eq Let_def log_new_def healthy_def captcha_ok_def password_ok_def split: option.splits)

text \<open>
  C27: The sweep of the sessions can end a session that has just begun. It comes to a session that has expired; before it
  removes it, its user logs in, which is answered with 200 and begins a session of 90 days under the same name. The sweep removes what is there by then: the
  cookie the user was given is not valid.
\<close>

theorem sweep_ends_fresh_session:
  fixes d :: draws
  assumes "healthy w" "room w" "can_log_in env w r h" "u = ev_to_lowercase env (ar_username r)"
    and "cookie_db w u = Some old" "ac_expiration_time old < of_int (clock w)"
  shows "\<exists>w'. interleaved env wallets (w, [0 \<mapsto> session_round [u], 1 \<mapsto> login_job env wallet d ip r])
      (w', [0 \<mapsto> finish None, 1 \<mapsto> finish (Some (Post_login r, OK))]) \<and> \<not> authorised w' u (dr_cookie d)"
proof -
  obtain w1 where login: "run (login_job env wallet d ip r) w = (Done (Some (Post_login r, OK)), w1)"
    and ok: "sled_faults w1 = []" and d1: "data w1 = data (w\<lparr>captcha_db := (captcha_db w)(h := None),
      cookie_db := (cookie_db w)(u \<mapsto> fresh_cookie u (dr_cookie d) (clock w))\<rparr>)"
    using login_ends [OF assms(1,3,4)] by blast
  have "room w1" using assms(2) data_eqD(11) [OF d1] by (simp add: room_def)
  let ?rest = "session_round_rest (of_int (clock w)) [Inr (u, old)]" and ?w2 = "w1\<lparr>cookie_db := (cookie_db w1)(u := None)\<rparr>"
  have "interleaved env wallets (w, [0 \<mapsto> session_round [u], 1 \<mapsto> login_job env wallet d ip r])
      (?w2, [0 \<mapsto> finish None, 1 \<mapsto> finish (Some (Post_login r, OK))])"
  proof (rule interrupted)
    show "passes room (session_round [u]) w" "passes room ?rest w1" by (rule session_round_passes, fact)+
    show "passes room (login_job env wallet d ip r) w" by (rule login_passes [OF assms(1,3,2)])
    show "ahead (Suc (Suc 0)) (session_round [u]) w = (?rest, w)"
      by (simp add: session_round_starts [OF assms(1)] assms(5))
    show "run (login_job env wallet d ip r) w = (Done (Some (Post_login r, OK)), w1)" by (fact login)
    show "run ?rest w1 = (Done None, ?w2)"
      using ok assms(6)
      by (simp add: session_round_rest_def sweep_cookie_def db_remove_def store_defs run_rules and_then_def ret_def
        lift_outcome_def)
  qed
  moreover have "\<not> authorised ?w2 u (dr_cookie d)" by (simp add: authorised_def)
  ultimately show ?thesis by blast
qed

theorem sweep_ends_fresh_session_witness:
  "\<exists>w'. interleaved example_env {example_wallet} (alice_world\<lparr>clock := 8000000\<rparr>,
      [0 \<mapsto> session_round [''alice''], 1 \<mapsto> login_job example_env example_wallet alice_draws ''127.0.0.1'' alice_request])
      (w', [0 \<mapsto> finish None, 1 \<mapsto> finish (Some (Post_login alice_request, OK))]) \<and> \<not> authorised w' ''alice'' ''c''"
proof -
  let ?w = "alice_world\<lparr>clock := 8000000\<rparr>"
  have "healthy ?w" "room ?w" "can_log_in example_env ?w alice_request example_hash"
      "cookie_db ?w ''alice'' = Some (fresh_cookie ''alice'' ''c'' 1000)"
    using alice_passes alice_captcha(1)
    by (simp_all add: can_log_in_def captcha_ok_def healthy_def room_def alice_world_def captcha_world_def empty_world_def)
  from sweep_ends_fresh_session [OF this(1-3) alice_name(1) [symmetric] this(4), of "{example_wallet}" example_wallet alice_draws]
  show ?thesis by (simp add: fresh_cookie_def NINETY_DAYS_AS_SECS_def alice_draws_def)
qed

end
