(* ===== verification/Captcha_Once.thy ===== *)
theory Captcha_Once
  imports Parallel
begin

section \<open>One captcha, one success\<close>

text \<open>
  \<open>register\<close> and \<open>login\<close> read a captcha, compare the answer, and remove the captcha in a call of its own
  (\<open>check_captcha_steps\<close>). In between others may have read it too, but only one of them takes it out, and the
  \<open>unwrap\<close> of what \<open>remove\<close> gives ends the others. This theory shows that this works: a captcha lets at most one
  request through, whatever runs in parallel.
\<close>

subsection \<open>The protocol of a captcha\<close>

text \<open>A computation holds the token of the captcha \<open>h\<close> when it has taken it out. No step brings the captcha back, and
  who holds the token after a step held it before or takes the captcha out.\<close>

definition token_move :: "bytes \<Rightarrow> bool \<Rightarrow> world \<Rightarrow> world \<Rightarrow> bool \<Rightarrow> bool" where
  "token_move h g w w' g' \<longleftrightarrow> (captcha_db w h = None \<longrightarrow> captcha_db w' h = None) \<and>
    (g' \<longrightarrow> g \<or> captcha_db w h \<noteq> None \<and> captcha_db w' h = None)"

text \<open>At most one holds it, and nobody while the captcha is there.\<close>

definition one_token :: "bytes \<Rightarrow> (nat \<Rightarrow> bool) \<Rightarrow> world \<Rightarrow> bool" where
  "one_token h G w \<longleftrightarrow> (\<forall>t t'. G t \<and> G t' \<longrightarrow> t = t') \<and> (captcha_db w h \<noteq> None \<longrightarrow> (\<forall>t. \<not> G t))"

interpretation token: protocol "token_move h" False surroundings room "one_token h" for h
proof
  fix G w t w' g'
  assume "one_token h G w" "token_move h (G t) w w' g'"
  then show "one_token h (G(t := g')) w'"
    by (cases g'; cases "captcha_db w h"; cases "captcha_db w' h") (auto simp: one_token_def token_move_def)
next
  show "one_token h (G(t := False)) w" if "one_token h G w" for G w t
    using that by (auto simp: one_token_def)
next
  show "one_token h G w'" if "one_token h G w" "surroundings w w'" for G w w'
    using that unfolding surroundings_def by (elim exE conjE) (simp add: one_token_def)
qed

text \<open>The requests that are let through for the captcha \<open>h\<close>, and that who serves one must hold the token.\<close>

fun presents :: "env \<Rightarrow> bytes \<Rightarrow> http_request \<Rightarrow> bool" where
  "presents env h (Post_signup r) = (ev_hex_decode env (as_bytes (ar_captcha_hash r)) = Some h)"
| "presents env h (Post_login r) = (ev_hex_decode env (as_bytes (ar_captcha_hash r)) = Some h)"
| "presents env h _ = False"

definition let_through :: "env \<Rightarrow> bytes \<Rightarrow> (http_request \<times> status) option outcome \<Rightarrow> bool \<Rightarrow> bool" where
  "let_through env h r g \<longleftrightarrow> (\<forall>req. r = Done (Some (req, OK)) \<and> presents env h req \<longrightarrow> g)"

lemma let_through_simps [simp]: "let_through env h Panic g" "let_through env h (Done None) g"
  "let_through env h (Done (Some (req, st))) g = (st = OK \<and> presents env h req \<longrightarrow> g)"
  by (auto simp: let_through_def)

subsection \<open>What leaves the captchas alone\<close>

definition keeps_captchas :: "(world, 'a) eff \<Rightarrow> bool" where
  "keeps_captchas m \<longleftrightarrow> (\<forall>w. wp m (\<lambda>_ w'. captcha_db w' = captcha_db w) (\<lambda>w'. captcha_db w' = captcha_db w) w)"

named_theorems captcha_rules \<open>computations that leave the captchas alone\<close>

lemma keeps_leaf: "(\<And>w. wp m (\<lambda>_ w'. captcha_db w' = captcha_db w) (\<lambda>w'. captcha_db w' = captcha_db w) w) \<Longrightarrow> keeps_captchas m"
  by (simp add: keeps_captchas_def)

lemma keeps_and_then [captcha_rules]:
  assumes "keeps_captchas m" "\<And>x. keeps_captchas (f x)"
  shows "keeps_captchas (and_then m f)"
proof (rule keeps_leaf)
  fix w
  show "wp (and_then m f) (\<lambda>_ w'. captcha_db w' = captcha_db w) (\<lambda>w'. captcha_db w' = captcha_db w) w"
    unfolding wp_and_then
  proof (rule wp_conseq)
    show "wp m (\<lambda>_ w'. captcha_db w' = captcha_db w) (\<lambda>w'. captcha_db w' = captcha_db w) w"
      using assms(1) by (simp add: keeps_captchas_def)
    show "wp (f x) (\<lambda>_ w'. captcha_db w' = captcha_db w) (\<lambda>w'. captcha_db w' = captcha_db w) w'"
      if "captcha_db w' = captcha_db w" for x w'
      using assms(2) [of x, unfolded keeps_captchas_def, THEN spec, of w'] that by simp
  qed
qed

lemma keeps_plain [captcha_rules]:
  "keeps_captchas (ret x)" "keeps_captchas panic" "keeps_captchas (unwrap_res z)"
  "keeps_captchas (lift_outcome r)" "keeps_captchas (gets f)" "keeps_captchas now_u64"
  by (rule keeps_leaf, simp add: wp_rules split: option.split sum.split outcome.split)+

lemma keeps_unwrap [captcha_rules]: "keeps_captchas (unwrap_opt y)"
  by (rule keeps_leaf) (simp add: wp_rules split: option.split)

lemma keeps_log [captcha_rules]:
  "keeps_captchas (log_from a u e t r p)" "keeps_captchas (log_new u i e t r p)" "keeps_captchas (unwrapped (log_send l))"
  by (rule keeps_leaf, rule wp_log_from wp_log_new wp_send, simp_all)+

lemma keeps_calls [captcha_rules]:
  "keeps_captchas (unwrapped (db_contains_key AuthDB u))" "keeps_captchas (db_contains_key AuthDB u)"
  "keeps_captchas (unwrapped (db_get AuthDB u))" "keeps_captchas (unwrapped (db_get MoneyDB u))"
  "keeps_captchas (unwrapped (db_get CaptchaDB h))" "keeps_captchas (unwrapped (db_insert AuthDB u v))"
  "keeps_captchas (unwrapped (db_insert MoneyDB u f))" "keeps_captchas (unwrapped (db_insert SoftwareDB i it))"
  "keeps_captchas (unwrapped (db_insert UploadIdDB k i))" "keeps_captchas (db_insert CookieDB u ck)"
  "keeps_captchas (unwrapped (db_apply_batch MoneyDB b))" "keeps_captchas (verify_auth_cookie u c)"
  "keeps_captchas (unwrapped (sled_call (\<lambda>w. ((), w))))"
  by (rule keeps_leaf, simp add: auth_defs db_apply_batch_def wp_rules split: option.split)+

lemma keeps_others [captcha_rules]:
  "keeps_captchas (to_array32 h)" "keeps_captchas fetch_add_software_id" "keeps_captchas (sweep_cookie t x)"
  "keeps_captchas (db_iter CookieDB ks)" "keeps_captchas (db_iter CaptchaDB cs)" "keeps_captchas (db_iter MoneyDB ks)"
  by (rule keeps_leaf, simp add: to_array32_def sweep_cookie_def db_remove_def store_defs wp_rules wp_fetch_add
    split: sum.split prod.split)+

lemma keeps_response [captcha_rules]: "keeps_captchas (auth_cookie_result_to_response env u c a b)"
  by (rule keeps_leaf, rule wp_cookie_response) simp_all

text \<open>The requests and rounds that are one step.\<close>

lemma keeps_user [captcha_rules]: "keeps_captchas (user_then_cookie u c)" "keeps_captchas (cookie_then_user u c)"
  by (auto simp: user_then_cookie_def cookie_then_user_def intro!: captcha_rules)

lemma keeps_deposit: "keeps_captchas (deposit_req env wallet a r)"
  by (auto simp: deposit_req_def Let_def intro!: captcha_rules split: option.split sum.split)

lemma keeps_balance: "keeps_captchas (get_balance a r)"
  by (auto simp: get_balance_def Let_def intro!: captcha_rules split: option.split sum.split)

lemma keeps_profits: "keeps_captchas (server_profits wallet ks r)"
  by (rule keeps_leaf) (auto simp: server_profits_def wp_rules Let_def split: outcome.splits sum.splits)

lemma keeps_view: "keeps_captchas (view_captcha env x)"
  by (auto simp: view_captcha_def intro!: captcha_rules)

lemma keeps_image: "keeps_captchas (view_software_image env open_error path a)"
  by (rule keeps_leaf) (auto simp: view_software_image_def wp_rules log_new_def split: option.splits)

lemma keeps_receive: "keeps_captchas receive_request"
proof (rule keeps_leaf)
  show "wp receive_request (\<lambda>_ w'. captcha_db w' = captcha_db w) (\<lambda>w'. captcha_db w' = captcha_db w) w" for w
  proof (cases "monero_tx w")
    case Nil
    then show ?thesis by (simp add: wp_def receive_request_def)
  next
    case (Cons req rest)
    have "wp (queue_request req) (\<lambda>_ w'. captcha_db w' = captcha_db w) (\<lambda>w'. captcha_db w' = captcha_db w) (w\<lparr>monero_tx := rest\<rparr>)"
      by (auto simp: queue_request_def wp_rules auth_defs split: option.splits)
    with Cons show ?thesis by (auto simp: wp_def receive_request_def split: prod.splits outcome.splits)
  qed
qed

subsection \<open>The handlers keep to the protocol\<close>

abbreviation once :: "env \<Rightarrow> bytes \<Rightarrow> (world, (http_request \<times> status) option) steps \<Rightarrow> bool \<Rightarrow> bool" where
  "once env h \<equiv> obeys (token_move h) (let_through env h)"

named_theorems token_rules \<open>computations whose first step keeps to the protocol of a captcha\<close>

lemma token_quiet:
  assumes "keeps_captchas m" "\<And>x. once env h (f x) g"
  shows "once env h (then_do (act m) f) g"
  unfolding obeys_then
proof (rule obeys_act)
  fix w
  show "wp m (\<lambda>x w'. \<exists>g'. token_move h g w w' g' \<and>
        (case Done x of Done x \<Rightarrow> once env h (f x) g' | Panic \<Rightarrow> let_through env h Panic g'))
      (\<lambda>w'. \<exists>g'. token_move h g w w' g' \<and>
        (case Panic of Done x \<Rightarrow> once env h (f x) g' | Panic \<Rightarrow> let_through env h Panic g')) w"
    by (rule wp_conseq [OF assms(1) [unfolded keeps_captchas_def, THEN spec, of w]])
      (use assms(2) in \<open>auto simp: token_move_def intro: exI [of _ g]\<close>)
qed

lemmas token_quiet_rules [token_rules] = captcha_rules [THEN token_quiet]

text \<open>Who goes on after an \<open>unwrap\<close> has a value.\<close>

declare keeps_unwrap [THEN token_quiet, token_rules del]

lemma token_unwrap [token_rules]:
  "(\<And>x. v = Some x \<Longrightarrow> once env h (f x) g) \<Longrightarrow> once env h (then_do (act (unwrap_opt v)) f) g"
  by (cases v) (auto simp: act_def ret_def panic_def token_move_def intro!: exI [of _ g])

lemma token_looks:
  assumes "within undisturbed V p" "\<And>x. V x \<Longrightarrow> once env h (f x) g"
  shows "once env h (then_do p f) g"
  by (rule obeys_within [OF assms(1)]) (auto simp: undisturbed_def token_move_def assms(2))

lemma token_finish [token_rules]: "let_through env h r g \<Longrightarrow> once env h (Stop r) g"
  by simp

lemma token_if [token_rules]: "(b \<Longrightarrow> once env h p g) \<Longrightarrow> (\<not> b \<Longrightarrow> once env h q g) \<Longrightarrow> once env h (if b then p else q) g"
  by simp

text \<open>Who takes the captcha out, and finds that it was there, has the token.\<close>

lemma token_remove:
  assumes "once env h p (g \<or> c = h)"
  shows "once env h (then_do (act (unwrapped (db_remove CaptchaDB c))) (\<lambda>old. then_do (act (unwrap_opt old)) (\<lambda>_. p))) g"
  unfolding obeys_then [of _ _ "act (unwrapped (db_remove CaptchaDB c))"]
proof (rule obeys_act)
  fix w :: world
  have found: "once env h (then_do (act (unwrap_opt (Some v))) (\<lambda>_. p)) (g \<or> c = h)" for v :: generated_captcha
    by (rule token_quiet) (simp_all add: captcha_rules assms)
  have gone: "once env h (then_do (act (unwrap_opt (None :: generated_captcha option))) (\<lambda>_. p)) g"
    by (auto simp: act_def panic_def token_move_def intro!: exI [of _ g])
  let ?w = "\<lambda>fs. w\<lparr>sled_faults := fs, captcha_db := (captcha_db w)(c := None)\<rparr>"
  have "token_move h g w (?w fs) g" for fs by (simp add: token_move_def)
  moreover have "token_move h g w (?w fs) (g \<or> c = h)" if "captcha_db w c \<noteq> None" for fs
    using that by (auto simp: token_move_def)
  ultimately have "\<exists>g'. token_move h g w (?w fs) g' \<and>
      once env h (then_do (act (unwrap_opt (captcha_db w c))) (\<lambda>_. p)) g'" for fs
    using found gone by (cases "captcha_db w c") (simp, blast, fastforce)
  then show "wp (unwrapped (db_remove CaptchaDB c))
      (\<lambda>x w'. \<exists>g'. token_move h g w w' g' \<and> (case Done x of
        Done x \<Rightarrow> once env h (then_do (act (unwrap_opt x)) (\<lambda>_. p)) g' | Panic \<Rightarrow> let_through env h Panic g'))
      (\<lambda>w'. \<exists>g'. token_move h g w w' g' \<and> (case Panic of
        Done x \<Rightarrow> once env h (then_do (act (unwrap_opt x)) (\<lambda>_. p)) g' | Panic \<Rightarrow> let_through env h Panic g')) w"
    by (auto simp: auth_defs wp_rules token_move_def)
qed

lemma token_array32:
  assumes "once env h (f c) g"
  shows "once env h (then_do (act (to_array32 c)) f) g"
  using assms by (auto simp: act_def to_array32_def ret_def panic_def token_move_def intro!: exI [of _ g])

lemma token_captcha [token_rules]:
  assumes "once env h (f True) (g \<or> c = h)" "once env h (f False) g"
  shows "once env h (then_do (check_captcha_steps c a) f) g"
  unfolding check_captcha_steps_def then_do_assoc
proof (intro token_array32 token_quiet)
  show "once env h (then_do (case found of
        Some captcha \<Rightarrow> (if a = gc_answer captcha
          then then_do (act (to_array32 c)) (\<lambda>key. then_do (act (unwrapped (db_remove CaptchaDB key)))
            (\<lambda>old. then_do (act (unwrap_opt old)) (\<lambda>_. finish True)))
          else finish False)
      | None \<Rightarrow> finish False) f) g" for found
    using assms by (auto simp: then_do_assoc intro!: token_array32 token_remove split: option.split)
qed (rule captcha_rules)

lemma token_cookie [token_rules]:
  "(\<And>r. once env h (f r) g) \<Longrightarrow> once env h (then_do (generate_auth_cookie_steps c u) f) g"
  by (auto simp: generate_auth_cookie_steps_def Let_def then_do_assoc intro!: token_rules split: sum.split bool.split)

lemma token_user [token_rules]:
  "(\<And>r. once env h (f r) g) \<Longrightarrow> once env h (then_do (user_then_cookie_steps u c) f) g"
  by (auto simp: user_then_cookie_steps_def then_do_assoc intro!: token_rules)

text \<open>Sweeps take captchas out; so may others, without the token.\<close>

lemma token_sweep_captcha: "obeys (token_move h) (\<lambda>_ _. True) (act (sweep_captcha t x)) g"
proof (rule obeys_act)
  show "wp (sweep_captcha t x) (\<lambda>_ w'. \<exists>g'. token_move h g w w' g' \<and> True) (\<lambda>w'. \<exists>g'. token_move h g w w' g' \<and> True) w" for w
    by (auto simp: sweep_captcha_def db_remove_def wp_rules store_defs token_move_def split: sum.splits option.splits
      intro: exI [of _ g])
qed

lemma token_sweep_cookie: "obeys (token_move h) (\<lambda>_ _. True) (act (sweep_cookie t x)) g"
proof (rule obeys_act)
  show "wp (sweep_cookie t x) (\<lambda>_ w'. \<exists>g'. token_move h g w w' g' \<and> True) (\<lambda>w'. \<exists>g'. token_move h g w w' g' \<and> True) w" for w
    by (rule wp_conseq [OF keeps_others(3) [of t x, unfolded keeps_captchas_def, THEN spec]])
      (auto simp: token_move_def intro: exI [of _ g])
qed

lemma token_each [token_rules]:
  assumes "\<And>x g. obeys (token_move h) (\<lambda>_ _. True) (p x) g" "\<And>g. once env h (f ()) g"
  shows "once env h (then_do (each_step p xs) f) g"
  unfolding obeys_then
  by (rule obeys_conseq, rule obeys_each, rule assms(1)) (auto simp: assms(2) split: outcome.split)

text \<open>A captcha is issued under another hash.\<close>

lemma token_create:
  assumes "\<And>answ png. dr = Some (answ, png) \<Longrightarrow> ev_blake3 env png \<noteq> h" "\<And>x. once env h (f x) g"
  shows "once env h (then_do (act (and_then (create_captcha env dr) (\<lambda>resp. ret (rs_status resp)))) f) g"
  unfolding obeys_then
proof (rule obeys_act)
  fix w
  let ?m = "and_then (create_captcha env dr) (\<lambda>resp. ret (rs_status resp))"
  have "wp ?m (\<lambda>_ w'. captcha_db w' h = captcha_db w h) (\<lambda>w'. captcha_db w' h = captcha_db w h) w"
    using assms(1) by (auto simp: captcha_defs wp_rules to_array32_def Let_def split: option.splits)
  then show "wp ?m
      (\<lambda>x w'. \<exists>g'. token_move h g w w' g' \<and>
        (case Done x of Done x \<Rightarrow> once env h (f x) g' | Panic \<Rightarrow> let_through env h Panic g'))
      (\<lambda>w'. \<exists>g'. token_move h g w w' g' \<and>
        (case Panic of Done x \<Rightarrow> once env h (f x) g' | Panic \<Rightarrow> let_through env h Panic g')) w"
    by (rule wp_conseq) (use assms(2) in \<open>auto simp: token_move_def intro: exI [of _ g]\<close>)
qed

lemma token_signup: "once env h (job_steps env (Request wallet d ip (Post_signup r))) g"
  by (auto simp: register_steps_def register_free_steps_def Let_def then_do_assoc intro!: token_rules
    split: option.split sum.split prod.split)

lemma token_login: "once env h (job_steps env (Request wallet d ip (Post_login r))) g"
  by (auto simp: login_steps_def Let_def then_do_assoc intro!: token_rules split: option.split)

text \<open>Nobody issues the captcha \<open>h\<close> again.\<close>

fun reissues :: "env \<Rightarrow> bytes \<Rightarrow> ('v, 'h, 'b, 'tx) job \<Rightarrow> bool" where
  "reissues env h (Request wallet d ip Get_create_captcha) = (\<exists>answ png. dr_captcha d = Some (answ, png) \<and> ev_blake3 env png = h)"
| "reissues env h _ = False"

lemma token_request: "\<not> reissues env h (Request wallet d ip req) \<Longrightarrow> once env h (job_steps env (Request wallet d ip req)) g"
proof (cases req)
  case (Post_signup r)
  then show ?thesis by (simp only: token_signup)
next
  case (Post_login r)
  then show ?thesis by (simp only: token_login)
next
  case (Post_attach_xmr_address r)
  then show ?thesis
    by (auto simp: attach_xmr_address_steps_def Let_def then_do_assoc intro!: token_rules split: option.split)
next
  case (Post_new_software r)
  then show ?thesis
    by (auto simp: new_software_steps_def new_software_charged_steps_def Let_def then_do_assoc intro!: token_rules
      split: option.split sum.split prod.split)
next
  case (Post_withdraw_xmr r)
  then show ?thesis by (auto simp: then_do_assoc intro!: token_looks [OF withdraw_looks])
next
  case (Post_search_software r)
  then show ?thesis by (auto simp: then_do_assoc intro!: token_looks [OF search_looks])
next
  case Get_create_captcha
  then show "\<not> reissues env h (Request wallet d ip req) \<Longrightarrow> ?thesis" by (auto intro!: token_create)
qed (auto intro!: token_quiet captcha_rules keeps_deposit keeps_balance keeps_profits keeps_view
  keeps_image)

lemma keeps_fee: "keeps_captchas (cached_fee_round wallet)"
  by (rule keeps_leaf) (auto simp: cached_fee_round_def wp_rules split: outcome.split)

lemma token_settle [token_rules]:
  "(\<And>r. once env h (f r) g) \<Longrightarrow> once env h (then_do (settle_steps r out) f) g"
  by (auto simp: settle_steps_def Let_def then_do_assoc intro!: token_rules)

lemma token_send_from [token_rules]:
  "(\<And>r. once env h (f r) g) \<Longrightarrow> once env h (then_do (send_from_steps wallets call i pending) f) g"
proof (induction wallets call i pending rule: send_from_steps.induct)
  case (1 wallets call i pending)
  have pending: "keeps_captchas (modify (\<lambda>w. w\<lparr>pending_requests := reqs\<rparr>))" for reqs
    by (rule keeps_leaf) (simp add: wp_rules)
  show ?case
    by (subst send_from_steps.simps)
      (auto simp: Let_def then_do_assoc 1 intro!: token_rules token_quiet [OF pending] split: sum.split)
qed

lemma token_balances:
  assumes "\<And>x. once env h (f x) g"
  shows "once env h (then_do (update_acc_balances_steps wallet ks) f) g"
  unfolding update_acc_balances_steps_def then_do_assoc
  by (intro token_looks [OF look_act [OF look_calls(8)]] token_looks [OF refresh_accounts_look] token_quiet assms captcha_rules)

lemma token_job: "\<not> reissues env h job \<Longrightarrow> once env h (job_steps env job) g"
proof (cases job)
  case (Request wallet d ip req)
  then show "\<not> reissues env h job \<Longrightarrow> ?thesis" by (simp only: token_request not_False_eq_True)
qed (auto simp: send_pending_steps_def destroy_expired_auth_cookies_steps_def
  destroy_expired_captchas_steps_def Let_def then_do_assoc token_sweep_captcha token_sweep_cookie
  intro!: token_rules token_looks [OF transfers_look] token_balances token_quiet [OF keeps_receive]
  token_quiet [OF keeps_fee])

subsection \<open>At most one success\<close>

text \<open>
  C4: One captcha lets at most one request through. Whatever runs in parallel, interleaved call by call, as long as nobody
  issues the same captcha again: two signups or logins that were answered with 200 and presented the same captcha are
  the same request, and the captcha is gone.
\<close>

theorem one_captcha_one_success:
  assumes "par_steps (job_steps env ` {job. \<not> reissues env h job}) surroundings room (w, Map.empty) (w1, ps)"
    and "ps t = Some (finish (Some (req, OK)))" "presents env h req"
    and "ps t' = Some (finish (Some (req', OK)))" "presents env h req'"
  shows "t = t' \<and> captcha_db w1 h = None"
proof -
  have "token.abides h (let_through env h) (w1, ps)"
    by (rule token.all_steps [OF assms(1) token.start]) (auto simp: one_token_def simp del: job_steps.simps intro: token_job)
  then obtain G where G: "one_token h G w1" "\<And>t p. ps t = Some p \<Longrightarrow> once env h p (G t)"
    by (auto simp: token.abides_def)
  have "G t" "G t'" using G(2) [OF assms(2)] G(2) [OF assms(4)] assms(3,5) by simp_all
  with G(1) show ?thesis by (auto simp: one_token_def)
qed

theorem one_captcha_one_success_witness:
  "\<exists>w' :: world. captcha_db w' example_hash = None \<and> ''alice'' \<in> dom (auth_db w')"
proof -
  let ?jobs = "{job :: (json_value, string, bytes, bytes) job. \<not> reissues example_env example_hash job}"
  have "signup example_env example_wallet alice_draws ''127.0.0.1'' alice_request \<in> job_steps example_env ` ?jobs"
    by (rule imageI) simp
  from alice_signs_up [OF this] obtain w' where "par_steps (job_steps example_env ` ?jobs) surroundings room
      (captcha_world, Map.empty) (w', [0 \<mapsto> finish (Some (Post_signup alice_request, OK))])" "''alice'' \<in> dom (auth_db w')"
    by blast
  from one_captcha_one_success [OF this(1), of 0 "Post_signup alice_request" 0] this(2) alice_captcha(1)
  show ?thesis by (intro exI [of _ w']) simp
qed

end
