(* ===== verification/Sessions.thy ===== *)
theory Sessions
  imports Parallel
begin

section \<open>Websocket sessions among everything else\<close>

text \<open>
  An upload or download (\<open>upload_software\<close> and \<open>download_software\<close> of src/software.rs) is a session of many messages, and
  between two messages, two calls of sled or two accesses to a file the rest of the server runs. This theory has both
  sessions in steps, shows that left alone they are the sessions of \<open>Upload\<close> and \<open>Download\<close>, lets them take part in
  the pool of \<open>Parallel\<close>, and says what still holds then and what goes wrong.
\<close>

subsection \<open>Computations with a connection\<close>

text \<open>The variables of a session belong to it, only the world is shared. The field \<open>cn_world\<close> of the session's own state is
  never looked at and stays as it was.\<close>

definition lifted :: "('z connection_scheme, 'a) eff \<Rightarrow> 'z connection_scheme \<Rightarrow> (world, 'a \<times> 'z connection_scheme) eff" where
  "lifted m c = (\<lambda>w. case m (c\<lparr>cn_world := w\<rparr>) of
     (Done x, c') \<Rightarrow> (Done (x, c'\<lparr>cn_world := cn_world c\<rparr>), cn_world c')
   | (Panic, c') \<Rightarrow> (Panic, cn_world c'))"

text \<open>Such a computation as one step.\<close>

abbreviation on_conn :: "('z connection_scheme, 'a) eff \<Rightarrow> 'z connection_scheme \<Rightarrow> (world, 'a \<times> 'z connection_scheme) steps" where
  "on_conn m c \<equiv> act (lifted m c)"

lemma lifted_ret [simp]: "lifted (ret x) c = ret (x, c)"
  by (simp add: lifted_def ret_def fun_eq_iff)

lemma lifted_panic [simp]: "lifted panic c = panic"
  by (simp add: lifted_def panic_def fun_eq_iff)

lemma lifted_and_then: "lifted (and_then m f) c = and_then (lifted m c) (\<lambda>(x, c'). lifted (f x) c')"
  by (auto simp: lifted_def and_then_def fun_eq_iff split: prod.split outcome.split)

lemma lifted_server: "lifted (on_server m) c = and_then m (\<lambda>x. ret (x, c))"
  by (auto simp: lifted_def on_server_def and_then_def ret_def fun_eq_iff split: prod.split outcome.split)

lemma lifted_pure [simp]: "lifted (unwrap_opt y) c = and_then (unwrap_opt y) (\<lambda>x. ret (x, c))"
  by (cases y) (simp_all add: unwrap_opt_def and_then_panic)

lemma lifted_cases [simp]:
  "lifted (if b then m else n) c = (if b then lifted m c else lifted n c)"
  "lifted (case x of None \<Rightarrow> m | Some v \<Rightarrow> f v) c = (case x of None \<Rightarrow> lifted m c | Some v \<Rightarrow> lifted (f v) c)"
  "lifted (case z of (a, b') \<Rightarrow> g a b') c = (case z of (a, b') \<Rightarrow> lifted (g a b') c)"
  "lifted (Let t l) c = lifted (l t) c"
  by (simp_all split: option.split prod.split)

subsection \<open>Downloads\<close>

definition add_to_download_count_steps :: "string \<Rightarrow> u64 \<Rightarrow> (world, unit) steps" where
  "add_to_download_count_steps username software_id =
     then_do (act (unwrapped (db_get DownloadCountDB software_id))) (\<lambda>found.
     let downloads = (case found of Some downloads \<Rightarrow> downloads | None \<Rightarrow> []) in
     then_do (act now_utc) (\<lambda>time.
     let download_info = \<lparr>sd_time = time, sd_username = username\<rparr> in
     then_do (act (unwrapped (db_insert DownloadCountDB software_id (btree_insert download_info downloads)))) (\<lambda>_.
     finish ())))"

definition count_download_steps :: "string \<Rightarrow> u64 \<Rightarrow> (world, unit) steps" where
  "count_download_steps username software_id =
     then_do (get_or_insert_steps SoftwareOwnershipDB username Map.empty) (\<lambda>r.
     then_do (act (unwrap_res r)) (\<lambda>ownership_info_list.
     then_do (case ownership_info_list software_id of
         Some downloaded \<Rightarrow>
           if \<not> downloaded
           then then_do (add_to_download_count_steps username software_id) (\<lambda>_.
             finish (ownership_info_list(software_id \<mapsto> True)))
           else finish ownership_info_list
       | None \<Rightarrow> then_do (add_to_download_count_steps username software_id) (\<lambda>_.
           finish (ownership_info_list(software_id \<mapsto> True)))) (\<lambda>ownership_info_list.
     then_do (act (unwrapped (db_insert SoftwareOwnershipDB username ownership_info_list))) (\<lambda>_. finish ()))))"

text \<open>A file is read and sent in one step.\<close>

fun send_files_steps :: "env \<Rightarrow> (bytes \<times> string) list \<Rightarrow> connection \<Rightarrow> (world, connection) steps" where
  "send_files_steps env [] c = finish c"
| "send_files_steps env (f # fs) c = then_do (on_conn (send_file env f) c) (\<lambda>(_, c'). send_files_steps env fs c')"

definition download_message_steps ::
    "env \<Rightarrow> ((bytes \<rightharpoonup> string) \<Rightarrow> bytes list) \<Rightarrow> bytes \<Rightarrow> connection \<Rightarrow> (world, bool \<times> connection) steps" where
  "download_message_steps env file_order msg c =
     (if msg = [] then finish (False, c)
      else then_do (act (unwrap_opt (position0 msg))) (\<lambda>username_end_index.
      then_do (act (unwrap_opt (slice msg 0 username_end_index))) (\<lambda>username_bytes.
      then_do (act (unwrap_opt (ev_from_utf8 env username_bytes))) (\<lambda>username.
      then_do (act (unwrap_opt (slice msg (username_end_index + 1) (username_end_index + 1 + 50)))) (\<lambda>cookie_bytes.
      then_do (act (unwrap_opt (ev_from_utf8 env cookie_bytes))) (\<lambda>auth_cookie.
      then_do (act (verify_auth_cookie username auth_cookie)) (\<lambda>valid.
      if \<not> valid then finish (False, c)
      else then_do (act (unwrap_opt (slice msg (username_end_index + 52) (username_end_index + 52 + 8)))) (\<lambda>id_bytes.
      let software_id = from_le_bytes id_bytes in
      then_do (act (unwrapped (db_get SoftwareDB software_id))) (\<lambda>found. case found of
        None \<Rightarrow> finish (False, c)
      | Some software_info \<Rightarrow>
          then_do (send_files_steps env (entries (file_order (it_files software_info)) (it_files software_info)) c) (\<lambda>c'.
          then_do (count_download_steps username software_id) (\<lambda>_. finish (True, c'))))))))))))"

fun download_steps_of ::
    "env \<Rightarrow> ((bytes \<rightharpoonup> string) \<Rightarrow> bytes list) \<Rightarrow> ws_item list \<Rightarrow> connection \<Rightarrow> (world, connection) steps" where
  "download_steps_of env file_order [] c = finish c"
| "download_steps_of env file_order (Inl err # rest) c = finish c"
| "download_steps_of env file_order (Inr msg # rest) c =
     then_do (download_message_steps env file_order msg c) (\<lambda>(go_on, c').
     if go_on then download_steps_of env file_order rest c' else finish c')"

subsection \<open>Uploads\<close>

definition start_upload_steps :: "env \<Rightarrow> bytes \<Rightarrow> uploading \<Rightarrow> (world, bool \<times> uploading) steps" where
  "start_upload_steps env msg u =
     then_do (act (unwrap_opt (slice msg 0 8))) (\<lambda>num_chunks_bytes.
     let num_chunks = from_le_bytes num_chunks_bytes in
     then_do (act (unwrap_opt (position0 (drop 8 msg)))) (\<lambda>username_len.
     let username_end_index = username_len + 8 in
     case ev_from_utf8 env (take username_len (drop 8 msg)) of None \<Rightarrow> finish (False, u)
     | Some username \<Rightarrow>
     then_do (act (unwrap_opt (position0 (drop (username_end_index + 1) msg)))) (\<lambda>cookie_len.
     let cookie_end_index = cookie_len + username_end_index + 1 in
     case ev_from_utf8 env (take cookie_len (drop (username_end_index + 1) msg)) of None \<Rightarrow> finish (False, u)
     | Some cookie \<Rightarrow>
     then_do (act (verify_auth_cookie username cookie)) (\<lambda>valid.
     if \<not> valid then finish (False, u)
     else then_do (act (unwrap_opt (slice msg (cookie_end_index + 1) (cookie_end_index + 33)))) (\<lambda>upload_id.
     then_do (act (unwrapped (db_contains_key UploadIdDB upload_id))) (\<lambda>known.
     if \<not> known then finish (False, u)
     else then_do (act (unwrap_opt (slice msg (cookie_end_index + 33) (cookie_end_index + 37)))) (\<lambda>image_len_bytes.
     let compressed_image_len = from_le_bytes image_len_bytes in
     if compressed_image_len > MAX_IMAGE_LEN then finish (False, u)
     else if compressed_image_len < 4 then finish (False, u)
     else let files = parse_files env (drop (cookie_end_index + 37) msg) Map.empty in
     if num_chunks \<le> MAX_NUM_CHUNKS then
       then_do (act (unwrapped (db_get UploadIdDB upload_id))) (\<lambda>id.
       then_do (act (unwrap_opt id)) (\<lambda>software_id.
       then_do (act (unwrapped (db_get SoftwareDB software_id))) (\<lambda>item.
       then_do (act (unwrap_opt item)) (\<lambda>software_item.
       finish (True, u\<lparr>up_software_info := Some (\<lparr>si_username = username, si_auth_cookie = cookie,
         si_upload_id = upload_id, si_num_chunks = num_chunks, si_compressed_image_len = compressed_image_len,
         si_files = files\<rparr>, software_item)\<rparr>)))))
     else Stop Panic)))))))"

text \<open>Opening and reading a file is one step, and so are copying it and removing it.\<close>

definition publish_file_steps :: "env \<Rightarrow> bytes \<times> string \<Rightarrow> (world, unit) steps" where
  "publish_file_steps env = (\<lambda>(hash, file_name).
     let src_path = ev_hex_encode env hash; dst_path = ev_hex_encode env hash in
     then_do (act (and_then (io_call (and_then (gets cached_files) (\<lambda>files. unwrap_opt (files src_path)))) (\<lambda>source.
       and_then (io_call (ret ())) (\<lambda>_. read_pieces (ev_reads env CHUNK_BUFFER_LEN source))))) (\<lambda>hashed.
     if hash = ev_blake3 env hashed then
       then_do (act (io_call (and_then (gets cached_files) (\<lambda>files. and_then (unwrap_opt (files src_path)) (\<lambda>content.
         modify (\<lambda>w. w\<lparr>game_files := (game_files w)(dst_path \<mapsto> content)\<rparr>)))))) (\<lambda>_.
       act (remove_cached src_path))
     else then_do (act (remove_cached src_path)) (\<lambda>_. Stop Panic)))"

definition publish_steps ::
    "env \<Rightarrow> ((bytes \<rightharpoonup> string) \<Rightarrow> bytes list) \<Rightarrow> software_info \<Rightarrow> item \<Rightarrow> (world, bool) steps" where
  "publish_steps env file_order software_info software_item =
     then_do (each_step (publish_file_steps env) (entries (file_order (si_files software_info)) (si_files software_info))) (\<lambda>_.
     then_do (act now_u64) (\<lambda>creation_time.
     let software_item = software_item\<lparr>it_files := si_files software_info, it_creation_time := Some creation_time\<rparr> in
     then_do (act (unwrapped (db_insert SoftwareDB (it_id software_item) software_item))) (\<lambda>_.
     finish False)))"

text \<open>A session may hang (\<open>image_loop\<close>); then it takes no further step, and it is over here with the state it had before.\<close>

definition image_message :: "env \<Rightarrow> bytes \<Rightarrow> software_info \<Rightarrow> bytes \<Rightarrow> uploading \<Rightarrow> bool option outcome \<times> uploading" where
  "image_message env msg software_info image_hash_bytes u = (case image_loop msg (si_compressed_image_len software_info) u of
     None \<Rightarrow> (Done None, u)
   | Some (Panic, u') \<Rightarrow> (Panic, u')
   | Some (Done _, u') \<Rightarrow> and_then (check_image env image_hash_bytes) (\<lambda>go_on. ret (Some go_on)) u')"

definition upload_message_steps ::
    "env \<Rightarrow> ((bytes \<rightharpoonup> string) \<Rightarrow> bytes list) \<Rightarrow> bytes \<Rightarrow> uploading \<Rightarrow> (world, bool option \<times> uploading) steps" where
  "upload_message_steps env file_order msg u =
     (case up_software_info u of
        Some (software_info, software_item) \<Rightarrow>
          if up_num_chunks u = si_num_chunks software_info then
            if up_uploaded_image u
            then then_do (publish_steps env file_order software_info software_item) (\<lambda>go_on. finish (Some go_on, u))
            else (case up_image_hash_info u of
                Some (image_hash_bytes, _) \<Rightarrow> on_conn (image_message env msg software_info image_hash_bytes) u
              | None \<Rightarrow> then_do (on_conn (open_image env msg) u) (\<lambda>(go_on, u'). finish (Some go_on, u')))
          else (case up_chunk_info u of
              Some chunk_info \<Rightarrow>
                then_do (on_conn (receive_chunk env software_item chunk_info msg) u) (\<lambda>(go_on, u'). finish (Some go_on, u'))
            | None \<Rightarrow> then_do (on_conn (announce_chunk msg) u) (\<lambda>(go_on, u'). finish (Some go_on, u')))
      | None \<Rightarrow> then_do (start_upload_steps env msg u) (\<lambda>(go_on, u'). finish (Some go_on, u')))"

fun upload_steps_of ::
    "env \<Rightarrow> ((bytes \<rightharpoonup> string) \<Rightarrow> bytes list) \<Rightarrow> ws_item list \<Rightarrow> uploading \<Rightarrow> (world, uploading) steps" where
  "upload_steps_of env file_order [] u = finish u"
| "upload_steps_of env file_order (Inl err # rest) u = finish u"
| "upload_steps_of env file_order (Inr msg # rest) u =
     then_do (upload_message_steps env file_order msg u) (\<lambda>(go_on, u').
     if go_on = Some True then upload_steps_of env file_order rest u' else finish u')"

subsection \<open>Left alone\<close>

lemma and_then_branches:
  "and_then (if b then m else n) f = (if b then and_then m f else and_then n f)"
  "and_then (case x of None \<Rightarrow> m | Some v \<Rightarrow> g v) f = (case x of None \<Rightarrow> and_then m f | Some v \<Rightarrow> and_then (g v) f)"
  "and_then (case z of (a, b') \<Rightarrow> l a b') f = (case z of (a, b') \<Rightarrow> and_then (l a b') f)"
  by (simp_all split: option.split prod.split)

lemma run_add_to_download_count [simp]: "run (add_to_download_count_steps u i) = add_to_download_count u i"
  by (simp add: add_to_download_count_steps_def add_to_download_count_def Let_def del: run.simps(1))

lemma run_count_download [simp]: "run (count_download_steps u i) = count_download u i"
  by (simp add: count_download_steps_def count_download_def unwrapped_def and_then_assoc and_then_branches
      del: run.simps(1) cong: branches)

lemma run_send_files [simp]: "run (send_files_steps env fs c) = and_then (lifted (each (send_file env) fs) c) (\<lambda>(_, c'). ret c')"
  by (induction fs arbitrary: c)
    (simp_all add: lifted_and_then and_then_assoc split_def del: run.simps(1))

lemma run_download_message [simp]: "run (download_message_steps env fo msg c) = lifted (download_message env fo msg) c"
  by (simp add: download_message_steps_def download_message_def lifted_and_then lifted_server and_then_assoc split_def
      Let_def del: run.simps(1) cong: branches)

lemma run_download [simp]: "run (download_steps_of env fo ms c) = and_then (lifted (download_software env fo ms) c) (\<lambda>(_, c'). ret c')"
  by (induction env fo ms c rule: download_steps_of.induct)
    (simp_all add: lifted_and_then and_then_assoc and_then_branches split_def del: run.simps(1) cong: branches)

lemma lifted_info: "lifted (modify (up_software_info_update f)) u = ret ((), up_software_info_update f u)"
  by (simp add: lifted_def modify_def ret_def fun_eq_iff)

lemma run_start_upload [simp]: "run (start_upload_steps env msg u) = lifted (start_upload env msg) u"
  by (simp add: start_upload_steps_def start_upload_def lifted_and_then lifted_server lifted_info and_then_assoc
      and_then_branches split_def Let_def del: run.simps(1) cong: branches)

lemma run_publish_file [simp]: "run (publish_file_steps env f) = publish_file env f"
  by (simp add: publish_file_steps_def publish_file_def Let_def and_then_assoc split_def del: run.simps(1) cong: branches)

lemma run_publish [simp]: "run (publish_steps env fo si it) = publish env fo si it"
  by (simp add: publish_steps_def publish_def Let_def run_each_step del: run.simps(1))

lemma lifted_runs:
  "m (c\<lparr>cn_world := w\<rparr>) = (Done x, c') \<Longrightarrow> and_then (lifted m c) f w = f (x, c'\<lparr>cn_world := cn_world c\<rparr>) (cn_world c')"
  "m (c\<lparr>cn_world := w\<rparr>) = (Panic, c') \<Longrightarrow> and_then (lifted m c) f w = (Panic, cn_world c')"
  by (simp_all add: lifted_def and_then_def)

definition ended :: "'a outcome \<times> uploading \<Rightarrow> uploading \<Rightarrow> ('a \<Rightarrow> uploading \<Rightarrow> 'b) \<Rightarrow> 'b outcome \<times> world" where
  "ended ru u f = (case ru of (Done x, u') \<Rightarrow> (Done (f x (u'\<lparr>cn_world := cn_world u\<rparr>)), cn_world u') | (Panic, u') \<Rightarrow> (Panic, cn_world u'))"

lemma run_conn: "run (then_do (on_conn m u) (\<lambda>(x, u'). finish (f x u'))) w = ended (m (u\<lparr>cn_world := w\<rparr>)) u f"
  by (simp add: ended_def lifted_def and_then_def ret_def split: prod.split outcome.split del: run.simps(1))

lemma run_upload_message:
  assumes "upload_message env fo msg (u\<lparr>cn_world := w\<rparr>) = Some ru"
  shows "run (upload_message_steps env fo msg u) w = ended ru u (\<lambda>g u'. (Some g, u'))"
proof (cases "up_software_info u")
  case None
  with assms show ?thesis
    by (auto simp: upload_message_def upload_message_steps_def ended_def lifted_def and_then_def ret_def
        split: prod.split outcome.split simp del: run.simps(1))
next
  case (Some info)
  obtain si item where info: "up_software_info u = Some (si, item)" using Some by (cases info) auto
  show ?thesis
  proof (cases "up_num_chunks u = si_num_chunks si \<and> up_uploaded_image u")
    case True
    with assms info show ?thesis
      by (auto simp: upload_message_def upload_message_steps_def ended_def on_server_def and_then_def ret_def
          split: prod.split outcome.split simp del: run.simps(1))
  next
    case False
    show ?thesis
    proof (cases "up_num_chunks u = si_num_chunks si \<and> up_image_hash_info u \<noteq> None")
      case True
      with False info obtain h f where *: "up_num_chunks u = si_num_chunks si" "\<not> up_uploaded_image u"
        "up_image_hash_info u = Some (h, f)" by auto
      with assms info show ?thesis
        by (auto simp: upload_message_def upload_message_steps_def image_message_def ended_def lifted_def and_then_def ret_def
            split: option.splits prod.splits outcome.splits simp del: run.simps(1))
    next
      case other: False
      with False assms info show ?thesis
        by (auto simp: upload_message_def upload_message_steps_def run_conn split: option.splits simp del: run.simps(1) run_then_do)
    qed
  qed
qed

lemma run_upload:
  assumes "upload_software env fo ms (u\<lparr>cn_world := w\<rparr>) = Some ru"
  shows "run (upload_steps_of env fo ms u) w = ended ru u (\<lambda>_ u'. u')"
  using assms
proof (induction env fo ms u arbitrary: w rule: upload_steps_of.induct)
  case (3 env fo msg rest u)
  from 3(2) obtain r u1 where m: "upload_message env fo msg (u\<lparr>cn_world := w\<rparr>) = Some (r, u1)"
    by (auto split: option.splits)
  note first = run_upload_message [OF m, unfolded ended_def]
  show ?case
  proof (cases r)
    case (Done g)
    show ?thesis
    proof (cases g)
      case True
      let ?u = "u1\<lparr>cn_world := cn_world u\<rparr>"
      have "upload_software env fo rest (?u\<lparr>cn_world := cn_world u1\<rparr>) = Some ru"
        using 3(2) m Done True by simp
      from 3(1) [OF refl this] have "run (upload_steps_of env fo rest ?u) (cn_world u1) = ended ru ?u (\<lambda>_ u'. u')"
        by simp
      moreover have "ended ru ?u (\<lambda>_ u'. u') = ended ru u (\<lambda>_ u'. u')"
        by (simp add: ended_def split: prod.split outcome.split)
      ultimately show ?thesis using first Done True
        by (simp add: and_then_def del: run.simps(1))
    next
      case False
      with 3(2) m Done have "ru = (Done (), u1)" by simp
      with first Done False show ?thesis by (simp add: and_then_def ended_def ret_def del: run.simps(1))
    qed
  next
    case Panic
    with 3(2) m have "ru = (Panic, u1)" by simp
    with first Panic show ?thesis by (simp add: and_then_def ended_def del: run.simps(1))
  qed
qed (auto simp: ended_def ret_def simp del: run.simps(1))

text \<open>
  The sessions in steps are the sessions: a download, run without interruption, sends what the session of \<open>Download\<close>
  sends, changes the server as it does and ends as it does, and so does an upload, unless one of its messages makes it
  hang.
\<close>

lemma sessions_left_alone:
  "run (download_steps_of env file_order ms c) w =
     (case download_software env file_order ms (c\<lparr>cn_world := w\<rparr>) of
        (Done _, c') \<Rightarrow> (Done (c'\<lparr>cn_world := cn_world c\<rparr>), cn_world c') | (Panic, c') \<Rightarrow> (Panic, cn_world c')) \<and>
   (case upload_software env file_order ms (u\<lparr>cn_world := w\<rparr>) of None \<Rightarrow> True
    | Some (Done _, u') \<Rightarrow> run (upload_steps_of env file_order ms u) w = (Done (u'\<lparr>cn_world := cn_world u\<rparr>), cn_world u')
    | Some (Panic, u') \<Rightarrow> run (upload_steps_of env file_order ms u) w = (Panic, cn_world u'))"
proof -
  have "run (download_steps_of env file_order ms c) w =
     (case download_software env file_order ms (c\<lparr>cn_world := w\<rparr>) of
        (Done _, c') \<Rightarrow> (Done (c'\<lparr>cn_world := cn_world c\<rparr>), cn_world c') | (Panic, c') \<Rightarrow> (Panic, cn_world c'))"
    by (simp add: lifted_def and_then_def ret_def split: prod.split outcome.split del: run.simps(1))
  then show ?thesis
    using run_upload [where env = env and fo = file_order and ms = ms and u = u and w = w] by (auto simp: ended_def split: option.split outcome.split)
qed

subsection \<open>The protocol with sessions\<close>

text \<open>A session also holds a copy of an item. It may store the item again under its id, with what uploads change, published.\<close>

type_synonym holding = "held \<times> item set"

definition republish :: "item set \<Rightarrow> world \<Rightarrow> world \<Rightarrow> bool" where
  "republish cs w w' \<longleftrightarrow> (\<exists>it. product it \<in> product ` cs \<and> it_creation_time it \<noteq> None \<and>
    software_db w' = (software_db w)(it_id it \<mapsto> it) \<and> upload_id_db w' = upload_id_db w \<and>
    current_software_id w' = current_software_id w \<and> same_register w w')"

definition with_sessions :: "holding \<Rightarrow> world \<Rightarrow> world \<Rightarrow> holding \<Rightarrow> bool" where
  "with_sessions g w w' g' \<longleftrightarrow>
    orderly (fst g) w w' (fst g') \<and> snd g' \<subseteq> snd g \<union> ran (software_db w) \<or>
    republish (snd g) w w' \<and> fst g' = fst g \<and> snd g' = snd g"

definition copies_ok :: "item set \<Rightarrow> world \<Rightarrow> bool" where
  "copies_ok cs w \<longleftrightarrow> (\<forall>c \<in> cs. \<exists>it. software_db w (it_id c) = Some it \<and> product it = product c)"

definition sessions_in_order :: "world \<Rightarrow> (nat \<Rightarrow> holding) \<Rightarrow> world \<Rightarrow> bool" where
  "sessions_in_order w0 G w \<longleftrightarrow> all_in_order w (fst \<circ> G) w \<and> (\<forall>t. copies_ok (snd (G t)) w) \<and> shelf_grows w0 w \<and>
    dom (auth_db w0) \<subseteq> dom (auth_db w) \<and> dom (money_db w0) \<subseteq> dom (money_db w)"

lemma copies_kept: "copies_ok cs w \<Longrightarrow> shelf_grows w w' \<Longrightarrow> copies_ok cs w'"
  unfolding copies_ok_def shelf_grows_def by metis

lemma copies_new: "listing_inv w \<Longrightarrow> copies_ok (ran (software_db w)) w"
  by (auto simp: copies_ok_def ran_def listing_inv_def listing_ok_def)

lemma product_id: "product it = product it' \<Longrightarrow> it_id it = it_id it'"
  by (metis item.select_convs(1) item.simps product_def item.surjective item.update_convs)

lemma all_in_order_now: "all_in_order w0 G w \<Longrightarrow> all_in_order w G w"
  by (simp add: all_in_order_def)

lemma republish_in_order:
  assumes "republish cs w w'" "copies_ok cs w" "all_in_order w G w"
  shows "all_in_order w' G w'" "shelf_grows w w'" "dom (auth_db w') = dom (auth_db w)" "dom (money_db w') = dom (money_db w)"
proof -
  from assms(1) obtain it where it: "product it \<in> product ` cs" "it_creation_time it \<noteq> None"
    and w': "software_db w' = (software_db w)(it_id it \<mapsto> it)" "upload_id_db w' = upload_id_db w"
      "current_software_id w' = current_software_id w" "same_register w w'"
    unfolding republish_def by blast
  from it(1) assms(2) obtain old where old: "software_db w (it_id it) = Some old" "product old = product it"
    unfolding copies_ok_def using product_id by (metis imageE)
  have doms: "dom (software_db w') = dom (software_db w)" using w'(1) old(1) by auto
  have reg: "auth_db w' = auth_db w" "cookie_db w' = cookie_db w" "dom (money_db w') = dom (money_db w)"
  proof -
    have "dom (deposit_addrs m) = dom m" for m by (auto simp: deposit_addrs_def)
    then show "auth_db w' = auth_db w" "cookie_db w' = cookie_db w" "dom (money_db w') = dom (money_db w)"
      using w'(4) by (metis same_register_def)+
  qed
  then show "dom (auth_db w') = dom (auth_db w)" "dom (money_db w') = dom (money_db w)" by simp_all
  show "shelf_grows w w'" using w'(1) old it(2) by (auto simp: shelf_grows_def)
  note inv = assms(3) [unfolded all_in_order_def]
  have "listing_inv w'"
    using inv old w' by (auto simp: listing_inv_def listing_ok_def)
  moreover have "register_inv w'" using inv reg unfolding register_inv_doms by simp
  moreover have "tickets_ok G w'"
    using inv doms w'(1,3) old(1) by (auto simp: tickets_ok_def)
  ultimately show "all_in_order w' G w'" using inv reg by (simp add: all_in_order_def)
qed

interpretation sessions: protocol with_sessions "(nothing, {})" surroundings room "sessions_in_order w0" for w0
proof
  fix G w t w' g'
  assume inv: "sessions_in_order w0 G w" and "room w" and move: "with_sessions (G t) w w' g'"
  note i = inv [unfolded sessions_in_order_def]
  have held: "fst \<circ> G(t := g') = (fst \<circ> G)(t := fst g')" by auto
  from move show "sessions_in_order w0 (G(t := g')) w'" unfolding with_sessions_def
  proof (elim disjE conjE)
    assume *: "orderly (fst (G t)) w w' (fst g')" "snd g' \<subseteq> snd (G t) \<union> ran (software_db w)"
    have now: "all_in_order w ((fst \<circ> G)(t := fst g')) w'"
      by (rule orderly.step_law [where G = "fst \<circ> G" and t = t]) (use i \<open>room w\<close> * in simp_all)
    then have grows: "shelf_grows w w'"
      by (auto simp: all_in_order_def shelf_grows_def map_le_def dom_def)
    have "copies_ok (snd g') w"
      using i *(2) copies_new [of w] unfolding copies_ok_def all_in_order_def by blast
    then have "copies_ok (snd ((G(t := g')) t')) w'" for t'
      using i copies_kept [OF _ grows] by simp
    moreover have "dom (auth_db w) \<subseteq> dom (auth_db w')" "dom (money_db w) \<subseteq> dom (money_db w')"
      using now by (auto simp: all_in_order_def)
    ultimately show ?thesis
      using i all_in_order_now [OF now] shelf_grows_trans [OF _ grows] unfolding sessions_in_order_def held by blast
  next
    assume *: "republish (snd (G t)) w w'" "fst g' = fst (G t)" "snd g' = snd (G t)"
    then have "g' = G t" by (simp add: prod_eq_iff)
    then have same: "G(t := g') = G" by simp
    from i have "copies_ok (snd (G t)) w" "all_in_order w (fst \<circ> G) w" by simp_all
    note r = republish_in_order [OF *(1) this]
    show ?thesis unfolding sessions_in_order_def same
      using i r copies_kept [OF _ r(2)] shelf_grows_trans [OF _ r(2)] by simp
  qed
next
  fix G w t
  assume "sessions_in_order w0 G w"
  moreover have "fst \<circ> G(t := (nothing, {})) = (fst \<circ> G)(t := nothing)" by auto
  ultimately show "sessions_in_order w0 (G(t := (nothing, {}))) w"
    using orderly.arrive_law by (simp add: sessions_in_order_def copies_ok_def)
next
  fix G w w'
  assume inv: "sessions_in_order w0 G w" and *: "surroundings w w'"
  from inv have "all_in_order w (fst \<circ> G) w" by (simp add: sessions_in_order_def)
  from orderly.around_law [OF this *] have "all_in_order w (fst \<circ> G) w'" .
  with inv * show "sessions_in_order w0 G w'"
    unfolding surroundings_def
    by (auto simp: sessions_in_order_def copies_ok_def shelf_grows_def all_in_order_def)
qed

subsection \<open>Requests, tasks and sessions keep to it\<close>

abbreviation keeps_sessions :: "(world, 'a) steps \<Rightarrow> holding \<Rightarrow> bool" where
  "keeps_sessions \<equiv> obeys with_sessions (\<lambda>_ _. True)"

lemma job_keeps_sessions: "keeps_sessions (job_steps env job) (nothing, {})"
  by (rule obeys_embed [where e = "\<lambda>h. (h, {})", OF _ job_keeps_order]) (simp add: with_sessions_def)

named_theorems session_rules \<open>computations of sessions whose first step keeps to the protocol\<close>

definition still :: "world \<Rightarrow> world \<Rightarrow> bool" where
  "still w w' \<longleftrightarrow> software_db w' = software_db w \<and> upload_id_db w' = upload_id_db w \<and>
    current_software_id w' = current_software_id w \<and> same_register w w'"

lemma still_data: "data w' = data w \<Longrightarrow> still w w'"
  using outside_data [of w' w] by (simp add: still_def same_shelf_def)

lemma still_quiet: "quiet w w' \<Longrightarrow> still w w'"
  using quiet_keeps [of w w'] by (simp add: still_def same_register_def)

lemma still_orderly: "still w w' \<Longrightarrow> orderly h w w' h"
proof -
  assume still: "still w w'"
  have "dom (deposit_addrs m) = dom m" for m by (auto simp: deposit_addrs_def)
  with still have "dom (money_db w') = dom (money_db w)" by (metis still_def same_register_def)
  with still show ?thesis
    by (auto simp: orderly_def register_move_def shelf_move_def still_def same_register_def Let_def)
qed

lemma still_move: "still w w' \<Longrightarrow> with_sessions g w w' g"
  by (simp add: with_sessions_def still_orderly)

lemma session_leaf:
  assumes "\<And>w. wp m (\<lambda>x w'. \<exists>g'. with_sessions g w w' g' \<and> keeps_sessions (f x) g') (\<lambda>w'. \<exists>g'. with_sessions g w w' g') w"
  shows "keeps_sessions (then_do (act m) f) g"
  unfolding obeys_then using assms by (intro obeys_act) simp

lemma move_leaf:
  "with_sessions g w w' g' \<Longrightarrow> \<exists>g'. with_sessions g w w' g'"
  "with_sessions g w w' g' \<Longrightarrow> keeps_sessions p g' \<Longrightarrow> \<exists>g'. with_sessions g w w' g' \<and> keeps_sessions p g'"
  by blast+

lemma session_finish [session_rules]: "keeps_sessions (Stop r) g"
  by simp

lemma session_if [session_rules]:
  "(b \<Longrightarrow> keeps_sessions p g) \<Longrightarrow> (\<not> b \<Longrightarrow> keeps_sessions q g) \<Longrightarrow> keeps_sessions (if b then p else q) g"
  by simp

lemma session_still:
  assumes "\<And>w. wp m (\<lambda>_. still w) (still w) w" "\<And>x. keeps_sessions (f x) g"
  shows "keeps_sessions (then_do (act m) f) g"
proof (rule session_leaf)
  show "wp m (\<lambda>x w'. \<exists>g'. with_sessions g w w' g' \<and> keeps_sessions (f x) g') (\<lambda>w'. \<exists>g'. with_sessions g w w' g') w" for w
    by (rule wp_conseq [OF assms(1)]) (use assms(2) still_move in blast)+
qed

lemma session_conn:
  assumes "\<And>w. wp m (\<lambda>x c'. still w (cn_world c') \<and> keeps_sessions (f (x, c'\<lparr>cn_world := cn_world c\<rparr>)) g)
    (\<lambda>c'. still w (cn_world c')) (c\<lparr>cn_world := w\<rparr>)"
  shows "keeps_sessions (then_do (on_conn m c) f) g"
proof (rule session_leaf)
  show "wp (lifted m c) (\<lambda>x w'. \<exists>g'. with_sessions g w w' g' \<and> keeps_sessions (f x) g') (\<lambda>w'. \<exists>g'. with_sessions g w w' g') w" for w
    using assms [of w]
    by (auto simp: wp_def lifted_def split: prod.splits outcome.splits simp del: split_paired_Ex intro: move_leaf still_move)
qed

lemma session_unwrap [session_rules]:
  assumes "\<And>x. v = Some x \<Longrightarrow> keeps_sessions (f x) g"
  shows "keeps_sessions (then_do (act (unwrap_opt v)) f) g"
proof -
  have same: "with_sessions g w w g" for w by (rule still_move) (simp add: still_def same_register_def)
  show ?thesis
    by (rule session_leaf)
      (use assms in \<open>auto simp: wp_rules simp del: split_paired_Ex intro: move_leaf [OF same] split: option.split\<close>)
qed

lemma still_upd [simp]:
  "still w (w'\<lparr>sled_faults := fs\<rparr>) = still w w'" "still w (w'\<lparr>download_count_db := d\<rparr>) = still w w'"
  "still w (w'\<lparr>software_ownership_db := ow\<rparr>) = still w w'" "still w (w'\<lparr>io_faults := io\<rparr>) = still w w'"
  "still w (w'\<lparr>game_files := gf\<rparr>) = still w w'" "still w (w'\<lparr>cached_files := cf\<rparr>) = still w w'" "still w w"
  by (simp_all add: still_def same_register_def)

lemma still_calls:
  "wp (verify_auth_cookie u c) (\<lambda>_. still w) (still w) w"
  "wp (unwrapped (db_contains_key UploadIdDB k)) (\<lambda>_. still w) (still w) w"
  "wp (unwrapped (db_get UploadIdDB k)) (\<lambda>_. still w) (still w) w"
  "wp (unwrapped (db_get DownloadCountDB i)) (\<lambda>_. still w) (still w) w"
  "wp (unwrapped (db_insert DownloadCountDB i ds)) (\<lambda>_. still w) (still w) w"
  "wp (db_get SoftwareOwnershipDB u) (\<lambda>_. still w) (still w) w"
  "wp (unwrapped (db_insert SoftwareOwnershipDB u os)) (\<lambda>_. still w) (still w) w"
  "wp (unwrap_res r) (\<lambda>_. still w) (still w) w"
  "wp now_utc (\<lambda>_. still w) (still w) w" "wp now_u64 (\<lambda>_. still w) (still w) w"
  "wp (remove_cached p) (\<lambda>_. still w) (still w) w"
  by (auto simp: auth_defs wp_rules wp_verify_auth_cookie now_utc_def remove_cached_def split: sum.split option.split)

lemmas still_rules [session_rules] = still_calls [THEN session_still]

lemma session_get_software [session_rules]:
  assumes "\<And>it. keeps_sessions (f (Some it)) (h, insert it cs)" "keeps_sessions (f None) (h, cs)"
  shows "keeps_sessions (then_do (act (unwrapped (db_get SoftwareDB i))) f) (h, cs)"
proof (rule session_leaf)
  fix w
  have same: "with_sessions (h, cs) w (w\<lparr>sled_faults := fs\<rparr>) (h, cs)" for fs by (rule still_move) simp
  have found: "with_sessions (h, cs) w (w\<lparr>sled_faults := fs\<rparr>) (h, insert it cs)" if "software_db w i = Some it" for fs it
    using that still_orderly [of w "w\<lparr>sled_faults := fs\<rparr>" h] by (auto simp: with_sessions_def ran_def)
  show "wp (unwrapped (db_get SoftwareDB i)) (\<lambda>x w'. \<exists>g'. with_sessions (h, cs) w w' g' \<and> keeps_sessions (f x) g')
      (\<lambda>w'. \<exists>g'. with_sessions (h, cs) w w' g') w"
    using assms by (cases "software_db w i")
      (auto simp: auth_defs wp_rules simp del: split_paired_Ex intro: move_leaf [OF same] move_leaf(2) [OF found])
qed

lemma lookup_keeps: "(\<And>x. keeps_sessions (f x) g) \<Longrightarrow> keeps_sessions (then_do (get_or_insert_steps SoftwareOwnershipDB u v) f) g"
  by (auto simp: get_or_insert_steps_def then_do_assoc intro!: session_rules split: sum.split option.split)

lemma count_keeps: "(\<And>x. keeps_sessions (f x) g) \<Longrightarrow> keeps_sessions (then_do (count_download_steps u i) f) g"
  by (auto simp: count_download_steps_def add_to_download_count_steps_def then_do_assoc Let_def
    intro!: session_rules lookup_keeps split: option.split)

lemma send_files_keep: "(\<And>c'. keeps_sessions (f c') g) \<Longrightarrow> keeps_sessions (then_do (send_files_steps env fs c) f) g"
proof (induction fs arbitrary: c)
  case (Cons x xs)
  have "keeps_sessions (then_do (on_conn (send_file env x) c) (\<lambda>(_, c'). then_do (send_files_steps env xs c') f)) g"
  proof (rule session_conn)
    show "wp (send_file env x) (\<lambda>y c'. still w (cn_world c') \<and> keeps_sessions
          (case (y, c'\<lparr>cn_world := cn_world c\<rparr>) of (_, c') \<Rightarrow> then_do (send_files_steps env xs c') f) g)
        (\<lambda>c'. still w (cn_world c')) (c\<lparr>cn_world := w\<rparr>)" for w
      by (rule wp_conseq [OF wp_send_file])
        (use Cons in \<open>auto simp: sent_all_def sent_some_def intro!: still_data\<close>)
  qed
  then show ?case by (simp add: then_do_assoc split_def)
qed simp

lemma download_keeps: "keeps_sessions (then_do (download_steps_of env fo ms c) (\<lambda>_. finish x)) (h, cs)"
proof (induction env fo ms c arbitrary: cs rule: download_steps_of.induct)
  case (3 env fo msg rest c)
  then have go_on: "keeps_sessions (then_do (download_steps_of env fo rest c') (\<lambda>_. finish x)) (h, cs)" for c' cs by simp
  show ?case
    by (auto simp: download_message_steps_def then_do_assoc Let_def
      intro!: session_rules send_files_keep count_keeps go_on split: option.split)
qed simp_all

text \<open>An upload holds the item of its first message.\<close>

definition holds_copy :: "uploading \<Rightarrow> item set \<Rightarrow> bool" where
  "holds_copy u cs \<longleftrightarrow> (\<forall>si it. up_software_info u = Some (si, it) \<longrightarrow> it \<in> cs)"

lemma calm_conn:
  assumes "\<And>c. wp m (\<lambda>_. calm c) (calm c) c" "\<And>x u'. up_software_info u' = up_software_info u \<Longrightarrow> keeps_sessions (f (x, u')) g"
  shows "keeps_sessions (then_do (on_conn m u) f) g"
proof (rule session_conn)
  show "wp m (\<lambda>x c'. still w (cn_world c') \<and> keeps_sessions (f (x, c'\<lparr>cn_world := cn_world u\<rparr>)) g)
      (\<lambda>c'. still w (cn_world c')) (u\<lparr>cn_world := w\<rparr>)" for w
    by (rule wp_conseq [OF assms(1)]) (use assms(2) in \<open>auto simp: calm_def intro!: still_quiet\<close>)
qed

lemma image_message_calm: "wp (image_message env msg si h) (\<lambda>_. calm u) (calm u) u"
proof (cases "image_loop msg (si_compressed_image_len si) u")
  case None
  then show ?thesis by (simp add: wp_def image_message_def)
next
  case (Some ru)
  obtain r u' where ru: "ru = (r, u')" by (cases ru)
  from image_loop_calm [OF Some [unfolded ru]] have calm: "calm u u'" .
  have "wp (and_then (check_image env h) (\<lambda>go_on. ret (Some go_on))) (\<lambda>_. calm u) (calm u) u'"
    unfolding wp_and_then wp_ret by (rule wp_conseq [OF check_image_calm]) (use calm calm_trans in blast)+
  then show ?thesis using Some ru calm
    by (auto simp: wp_def image_message_def split: outcome.split)
qed

lemma republish_keeps:
  assumes "item \<in> cs" "product it = product item" "it_creation_time it \<noteq> None" "\<And>x. keeps_sessions (f x) (h, cs)"
  shows "keeps_sessions (then_do (act (unwrapped (db_insert SoftwareDB (it_id it) it))) f) (h, cs)"
proof (rule session_leaf)
  fix w
  have same: "with_sessions (h, cs) w (w\<lparr>sled_faults := fs\<rparr>) (h, cs)" for fs by (rule still_move) simp
  have stored: "with_sessions (h, cs) w (w\<lparr>sled_faults := fs, software_db := (software_db w)(it_id it \<mapsto> it)\<rparr>) (h, cs)" for fs
    using assms(1-3) by (auto simp: with_sessions_def republish_def same_register_def intro!: exI [of _ it])
  show "wp (unwrapped (db_insert SoftwareDB (it_id it) it)) (\<lambda>x w'. \<exists>g'. with_sessions (h, cs) w w' g' \<and> keeps_sessions (f x) g')
      (\<lambda>w'. \<exists>g'. with_sessions (h, cs) w w' g') w"
    using same stored assms(4) by (auto simp: auth_defs wp_rules simp del: split_paired_Ex intro: move_leaf)
qed

lemma wp_read_still: "wp (read_pieces ps) (\<lambda>_. still w) (still w) w'" if "still w w'"
  using that
proof (induction ps arbitrary: w')
  case (Cons p ps)
  have "wp (read_pieces ps) (\<lambda>x. wp (ret (p @ x)) (\<lambda>_. still w) (still w)) (still w) v" if "still w v" for v
    by (rule wp_conseq [OF Cons.IH [OF that]]) (simp_all add: wp_ret)
  with Cons.prems show ?case by (simp add: wp_and_then wp_io_call wp_ret)
qed (simp add: wp_rules)

lemma read_source_still:
  "wp (and_then (io_call (and_then (gets cached_files) (\<lambda>files. unwrap_opt (files p)))) (\<lambda>source.
    and_then (io_call (ret ())) (\<lambda>_. read_pieces (pieces source)))) (\<lambda>_. still w) (still w) w"
  by (auto simp: wp_rules intro!: wp_read_still split: option.split)

lemma copy_still:
  "wp (io_call (and_then (gets cached_files) (\<lambda>files. and_then (unwrap_opt (files p)) (\<lambda>content.
    modify (\<lambda>w. w\<lparr>game_files := (game_files w)(q \<mapsto> content)\<rparr>))))) (\<lambda>_. still w) (still w) w"
  by (auto simp: wp_rules split: option.split)

lemma publish_file_keeps: "(\<And>x. keeps_sessions (f x) g) \<Longrightarrow> keeps_sessions (then_do (publish_file_steps env hn) f) g"
  by (auto simp: publish_file_steps_def then_do_assoc Let_def split_def
    intro!: session_rules session_still [OF read_source_still] session_still [OF copy_still])

lemma publish_keeps:
  assumes "item \<in> cs" "\<And>x. keeps_sessions (f x) (h, cs)"
  shows "keeps_sessions (then_do (publish_steps env fo si item) f) (h, cs)"
proof -
  have files: "keeps_sessions (then_do (each_step (publish_file_steps env) fs) k) (h, cs)"
    if "\<And>x. keeps_sessions (k x) (h, cs)" for fs k
    using that by (induction fs) (auto simp: then_do_assoc intro!: publish_file_keeps)
  note stored = republish_keeps [of item cs "item\<lparr>it_files := fs, it_creation_time := Some t\<rparr>" for fs t, simplified]
  show ?thesis
    using assms by (auto simp: publish_steps_def then_do_assoc Let_def product_def intro!: files session_rules stored)
qed

lemma start_upload_keeps:
  assumes "\<And>u'. up_software_info u' = up_software_info u \<Longrightarrow> keeps_sessions (f (False, u')) (h, cs)"
    and "\<And>u' si it. up_software_info u' = Some (si, it) \<Longrightarrow> keeps_sessions (f (True, u')) (h, insert it cs)"
  shows "keeps_sessions (then_do (start_upload_steps env msg u) f) (h, cs)"
  using assms
  by (auto simp: start_upload_steps_def then_do_assoc Let_def intro!: session_rules split: option.split)

lemma upload_keeps:
  assumes "holds_copy u cs"
  shows "keeps_sessions (then_do (upload_steps_of env fo ms u) (\<lambda>_. finish x)) (h, cs)"
  using assms
proof (induction env fo ms u arbitrary: cs rule: upload_steps_of.induct)
  case (3 env fo msg rest u)
  let ?go = "\<lambda>(go_on, u'). then_do (if go_on = Some True then upload_steps_of env fo rest u' else finish u') (\<lambda>_. finish x)"
  have go: "keeps_sessions (?go (g, u')) (h, cs')" if "holds_copy u' cs'" for g u' cs'
    using 3(1) [OF _ that] by simp
  have same: "holds_copy u' cs" if "up_software_info u' = up_software_info u" for u'
    using that 3(2) by (simp add: holds_copy_def)
  have "keeps_sessions (then_do (upload_message_steps env fo msg u) ?go) (h, cs)"
  proof (cases "up_software_info u")
    case None
    have "keeps_sessions (then_do (start_upload_steps env msg u) (\<lambda>(go_on, u'). ?go (Some go_on, u'))) (h, cs)"
    proof (rule start_upload_keeps, goal_cases)
      case (1 u')
      with go [OF same, of u' "Some False"] show ?case by simp
    next
      case (2 u' si it)
      then have "holds_copy u' (insert it cs)" by (simp add: holds_copy_def)
      from go [OF this, of "Some True"] show ?case by simp
    qed
    with None show ?thesis by (simp add: upload_message_steps_def then_do_assoc split_def)
  next
    case (Some info)
    obtain si it where info: "up_software_info u = Some (si, it)" using Some by (cases info) auto
    with 3(2) have "it \<in> cs" by (simp add: holds_copy_def)
    then have "keeps_sessions (then_do (publish_steps env fo si it) (\<lambda>g. ?go (Some g, u))) (h, cs)"
      by (rule publish_keeps) (rule go [OF 3(2)])
    moreover have "keeps_sessions (then_do (on_conn (image_message env msg si hash) u) ?go) (h, cs)" for hash
      by (rule calm_conn [OF image_message_calm]) (rule go [OF same])
    moreover have "keeps_sessions (then_do (on_conn m u) (\<lambda>(g, u'). ?go (Some g, u'))) (h, cs)"
      if "\<And>c. wp m (\<lambda>_. calm c) (calm c) c" for m
    proof (rule calm_conn [OF that], goal_cases)
      case (1 g u')
      with go [OF same, of u' "Some g"] show ?case by simp
    qed
    note this [OF open_image_calm] this [OF receive_calm] this [OF announce_calm]
    ultimately show ?thesis using info
      by (simp add: upload_message_steps_def then_do_assoc split_def split: option.split)
  qed
  then show ?case by (simp add: then_do_assoc split_def)
qed simp_all

subsection \<open>What remains true\<close>

text \<open>The sessions a client can open: an upload or a download, with any messages. The world a session's own state
  starts with is never looked at.\<close>

definition session_jobs :: "env \<Rightarrow> ((bytes \<rightharpoonup> string) \<Rightarrow> bytes list) \<Rightarrow> (world, (http_request \<times> status) option) steps set" where
  "session_jobs env file_order =
    (\<lambda>(ms, v). then_do (upload_steps_of env file_order ms (fresh_upload v)) (\<lambda>_. finish None)) ` UNIV \<union>
    (\<lambda>(ms, v, fs). then_do (download_steps_of env file_order ms \<lparr>cn_world = v, cn_sent = [], cn_send_faults = fs\<rparr>)
      (\<lambda>_. finish None)) ` UNIV"

abbreviation all_together where
  "all_together env file_order wallets \<equiv> par_steps (jobs env wallets \<union> session_jobs env file_order) surroundings room"

lemma all_keep_sessions:
  assumes "p \<in> jobs env wallets \<union> session_jobs env file_order"
  shows "keeps_sessions p (nothing, {})"
  using assms
  by (auto simp: jobs_def session_jobs_def job_keeps_sessions download_keeps
      intro!: upload_keeps simp: holds_copy_def fresh_upload_def)

lemma sessions_abide:
  assumes "register_inv w" "listing_inv w" "all_together env file_order wallets (w, Map.empty) c"
  shows "sessions.abides w (\<lambda>_ _. True) c"
proof (rule sessions.all_steps [OF assms(3)])
  show "sessions.abides w (\<lambda>_ _. True) (w, Map.empty)"
    by (rule sessions.start)
      (use assms(1,2) in \<open>simp add: sessions_in_order_def all_in_order_def nothing_def tickets_ok_def copies_ok_def o_def\<close>)
qed (rule all_keep_sessions)

text \<open>
  C3: The server's records stay in order with everything it does going on at once: requests, background tasks, uploads and
  downloads, any number of each, arriving at any time and interleaved between any two calls of sled, the wallet, the id
  counter, the log or a file, with calls failing and time passing at any point. (One step are only requests that write
  nothing but the log, one reading of a whole tree, and the coarser file operations listed in \<open>Spec2Isabelle\<close>.) At every moment sessions are stored under
  their user, sessions and accounts belong to registered users, every item is stored under its own id, below the counter, and
  every upload id leads to an item; and from any moment on no user, account or item goes missing, what the seller listed of
  an item stays, and what is published stays published.
\<close>

theorem everything_in_order:
  assumes "register_inv w" "listing_inv w"
    and "all_together env file_order wallets (w, Map.empty) (w1, ps1)" "all_together env file_order wallets (w1, ps1) (w2, ps2)"
  shows "(\<forall>u ck. cookie_db w1 u = Some ck \<longrightarrow> ac_username ck = u \<and> u \<in> dom (auth_db w1)) \<and>
    dom (money_db w1) \<subseteq> dom (auth_db w1) \<and>
    (\<forall>i it. software_db w1 i = Some it \<longrightarrow> it_id it = i \<and> i < current_software_id w1) \<and>
    (\<forall>k i. upload_id_db w1 k = Some i \<longrightarrow> i \<in> dom (software_db w1)) \<and>
    dom (auth_db w1) \<subseteq> dom (auth_db w2) \<and> dom (money_db w1) \<subseteq> dom (money_db w2) \<and>
    (\<forall>i it. software_db w1 i = Some it \<longrightarrow> (\<exists>it'. software_db w2 i = Some it' \<and> product it' = product it \<and>
      (it_creation_time it \<noteq> None \<longrightarrow> it_creation_time it' \<noteq> None)))"
proof -
  from sessions_abide [OF assms(1-3)] have start: "sessions.abides w1 (\<lambda>_ _. True) (w1, ps1)"
    by (auto simp: sessions.abides_def sessions_in_order_def)
  then have now: "register_inv w1" "listing_inv w1"
    by (auto simp: sessions.abides_def sessions_in_order_def all_in_order_def)
  have "sessions.abides w1 (\<lambda>_ _. True) (w2, ps2)"
    by (rule sessions.all_steps [OF assms(4) start]) (rule all_keep_sessions)
  then have "shelf_grows w1 w2" "dom (auth_db w1) \<subseteq> dom (auth_db w2)" "dom (money_db w1) \<subseteq> dom (money_db w2)"
    by (auto simp: sessions.abides_def sessions_in_order_def)
  moreover from now(1) have "(\<forall>u ck. cookie_db w1 u = Some ck \<longrightarrow> ac_username ck = u \<and> u \<in> dom (auth_db w1)) \<and>
    dom (money_db w1) \<subseteq> dom (auth_db w1)" unfolding register_inv_doms .
  moreover from now(2) have "(\<forall>i it. software_db w1 i = Some it \<longrightarrow> it_id it = i \<and> i < current_software_id w1) \<and>
    (\<forall>k i. upload_id_db w1 k = Some i \<longrightarrow> i \<in> dom (software_db w1))" by (auto simp: listing_inv_def listing_ok_def)
  ultimately show ?thesis unfolding shelf_grows_def by blast
qed

theorem everything_in_order_witness:
  "\<exists>w' :: world. dom (money_db w') \<subseteq> dom (auth_db w') \<and> ''alice'' \<in> dom (auth_db w')"
proof -
  have "\<exists>w'. all_together example_env (\<lambda>_. []) {example_wallet} (captcha_world, Map.empty)
      (w', [0 \<mapsto> finish (Some (Post_signup alice_request, OK))]) \<and> ''alice'' \<in> dom (auth_db w')"
    by (rule alice_signs_up) (unfold jobs_def, auto simp del: job_steps.simps)
  then obtain w' where "all_together example_env (\<lambda>_. []) {example_wallet} (captcha_world, Map.empty)
      (w', [0 \<mapsto> finish (Some (Post_signup alice_request, OK))])" "''alice'' \<in> dom (auth_db w')" by blast
  from everything_in_order [OF captcha_world_in_order this(1) rtranclp.rtrancl_refl] this(2)
  show ?thesis by (intro exI [of _ w']) simp
qed

end
