(* ===== verification/Session_Races.thy ===== *)
theory Session_Races
  imports Sessions
begin

section \<open>Websocket sessions that get in each other's way\<close>

text \<open>
  Two sessions of src/software.rs share more than they should. All uploads of a file of one hash append to one file in
  \<open>.cached_files\<close>; when an upload is complete, the file is read and its hash computed, and then copied to \<open>.game_files\<close> by
  name, so what is copied need not be what was checked. And \<open>download_software\<close> reads the downloads of an item, adds one and
  stores them, so of two downloads at a time one is not counted, and will not be; \<open>search_software\<close> stores an empty record
  for an item that had none when it looked, and so takes a download out that was counted in between.
\<close>

subsection \<open>A file that changes after it was checked\<close>

text \<open>A session that has received all chunks and the image of an item with one file, and publishes it with the next message;
  and one that has announced a chunk \<open>c\<close> of a file with the same hash.\<close>

definition ready_to_publish :: "uploading \<Rightarrow> bytes \<Rightarrow> string \<Rightarrow> item \<Rightarrow> bool" where
  "ready_to_publish a h name item \<longleftrightarrow> (\<exists>si. up_software_info a = Some (si, item) \<and> si_files si = [h \<mapsto> name] \<and>
    up_num_chunks a = si_num_chunks si) \<and> up_uploaded_image a"

definition ready_to_store :: "env \<Rightarrow> uploading \<Rightarrow> bytes \<Rightarrow> bytes \<Rightarrow> bool" where
  "ready_to_store env b h c \<longleftrightarrow> (\<exists>si item. up_software_info b = Some (si, item) \<and> up_num_chunks b \<noteq> si_num_chunks si \<and>
    up_total_size b + of_nat (length c) \<le> it_compressed_size item) \<and>
    up_chunk_info b = Some \<lparr>ci_len = of_nat (length c), ci_file = h\<rparr> \<and> up_amt_written_to_buffer b = 0 \<and>
    length c \<le> CHUNK_BUFFER_LEN \<and> (h \<in> up_file_hashes_seen b \<or> ev_is_zst env c)"

abbreviation upload_session :: "env \<Rightarrow> ((bytes \<rightharpoonup> string) \<Rightarrow> bytes list) \<Rightarrow> ws_item list \<Rightarrow> uploading \<Rightarrow>
    (world, (http_request \<times> status) option) steps" where
  "upload_session env file_order ms u \<equiv> then_do (upload_steps_of env file_order ms u) (\<lambda>_. finish None)"

lemma chunk_stored:
  assumes "ready_to_store env b h c" "io_faults w = []" "cached_files w (ev_hex_encode env h) = Some old"
  shows "run (upload_session env fo [Inr c] b) w =
    (Done None, w\<lparr>cached_files := (cached_files w)(ev_hex_encode env h \<mapsto> old @ c), io_faults := []\<rparr>)"
proof -
  let ?b = "b\<lparr>cn_world := w\<rparr>" and ?w = "w\<lparr>cached_files := (cached_files w)(ev_hex_encode env h \<mapsto> old @ c), io_faults := []\<rparr>"
  from assms(1) obtain si item where b: "up_software_info b = Some (si, item)" "up_num_chunks b \<noteq> si_num_chunks si"
    "up_total_size b + of_nat (length c) \<le> it_compressed_size item" and
    c: "up_chunk_info b = Some \<lparr>ci_len = of_nat (length c), ci_file = h\<rparr>" "up_amt_written_to_buffer b = 0"
    "length c \<le> CHUNK_BUFFER_LEN" "h \<in> up_file_hashes_seen b \<or> ev_is_zst env c"
    unfolding ready_to_store_def by blast
  have "wp (receive_chunk env item \<lparr>ci_len = of_nat (length c), ci_file = h\<rparr> c) (\<lambda>go_on u'. go_on \<and> cn_world u' = ?w) (\<lambda>_. False) ?b"
    unfolding receive_chunk_def wp_and_then
  proof (rule wp_copy_to_buffer)
    show "up_amt_written_to_buffer ?b = 0" using c by simp
  qed (use b c assms in \<open>auto simp: wp_modify wp_gets wp_if wp_and_then ext [OF wp_ret] not_less intro!: wp_store_chunk [where chunk = c]\<close>)
  from wp_run [OF this] obtain u' where u': "receive_chunk env item \<lparr>ci_len = of_nat (length c), ci_file = h\<rparr> c ?b = (Done True, u')"
    "cn_world u' = ?w" by auto
  then have "upload_message env fo c ?b = Some (Done True, u')" using b c by (simp add: upload_message_def)
  then have "upload_software env fo [Inr c] ?b = Some (Done (), u')" by simp
  from run_upload [OF this] u'(2) show ?thesis
    by (simp add: ended_def and_then_def ret_def lift_outcome_def)
qed

text \<open>Publishing one file: read and hash, then the rest.\<close>

definition read_source :: "env \<Rightarrow> bytes \<Rightarrow> (world, bytes) eff" where
  "read_source env h = and_then (io_call (and_then (gets cached_files) (\<lambda>files. unwrap_opt (files (ev_hex_encode env h))))) (\<lambda>source.
     and_then (io_call (ret ())) (\<lambda>_. read_pieces (ev_reads env CHUNK_BUFFER_LEN source)))"

definition after_check :: "env \<Rightarrow> bytes \<Rightarrow> string \<Rightarrow> item \<Rightarrow> (world, (http_request \<times> status) option) steps" where
  "after_check env h name item =
     then_do (act (io_call (and_then (gets cached_files) (\<lambda>files. and_then (unwrap_opt (files (ev_hex_encode env h))) (\<lambda>content.
       modify (\<lambda>w. w\<lparr>game_files := (game_files w)(ev_hex_encode env h \<mapsto> content)\<rparr>)))))) (\<lambda>_.
     then_do (act (remove_cached (ev_hex_encode env h))) (\<lambda>_.
     then_do (act now_u64) (\<lambda>creation_time.
     then_do (act (unwrapped (db_insert SoftwareDB (it_id item)
       (item\<lparr>it_files := [h \<mapsto> name], it_creation_time := Some creation_time\<rparr>)))) (\<lambda>_. finish None))))"

lemma publishing:
  assumes "ready_to_publish a h name item" "file_order [h \<mapsto> name] = [h]"
  shows "upload_session env file_order [Inr msg] a = then_do (act (read_source env h)) (\<lambda>hashed.
    if h = ev_blake3 env hashed then after_check env h name item
    else then_do (act (remove_cached (ev_hex_encode env h))) (\<lambda>_. Stop Panic))"
  using assms
  by (auto simp: ready_to_publish_def upload_message_steps_def publish_steps_def publish_file_steps_def read_source_def
      after_check_def then_do_assoc Let_def cong: if_cong)

lemma source_read:
  assumes "io_faults w = []" "reads_whole env" "cached_files w (ev_hex_encode env h) = Some content"
  shows "read_source env h w = (Done content, w)"
proof -
  have "read_pieces ps w = (Done (concat ps), w)" for ps
    using assms(1) by (induction ps) (simp_all add: io_call_run ret_run and_then_def)
  with assms reads_concat [OF assms(2), of content] show ?thesis
    by (simp add: read_source_def and_then_def io_call_run gets_def ret_run unwrap_opt_def)
qed

definition published_as :: "env \<Rightarrow> bytes \<Rightarrow> string \<Rightarrow> item \<Rightarrow> bytes \<Rightarrow> world \<Rightarrow> world \<Rightarrow> bool" where
  "published_as env h name item content w w' \<longleftrightarrow>
    game_files w' (ev_hex_encode env h) = Some content \<and> cached_files w' (ev_hex_encode env h) = None \<and>
    software_db w' = (software_db w)(it_id item \<mapsto>
      item\<lparr>it_files := [h \<mapsto> name], it_creation_time := Some (of_int (clock w))\<rparr>)"

lemma after_check_runs:
  assumes "sled_faults w = []" "io_faults w = []" "0 \<le> clock w" "cached_files w (ev_hex_encode env h) = Some content"
  shows "\<exists>w'. run (after_check env h name item) w = (Done None, w') \<and> published_as env h name item content w w'"
proof -
  have "wp (run (after_check env h name item)) (\<lambda>x w'. x = None \<and> published_as env h name item content w w') (\<lambda>_. False) w"
    using assms
    by (auto simp: after_check_def published_as_def remove_cached_def auth_defs wp_rules Let_def simp del: run.simps(1))
  from wp_run [OF this] show ?thesis by blast
qed

lemma passes_after_check: "room w \<Longrightarrow> passes room (after_check env h name item) w"
  by (auto simp: after_check_def remove_cached_def auth_defs wp_rules room_def split: option.split)

lemma wp_any: "wp m (\<lambda>_ _. True) (\<lambda>_. True) w"
  by (auto simp: wp_def split: prod.split outcome.split)

lemma passes_chunk:
  assumes "ready_to_store env b h c" "room w"
  shows "passes room (upload_session env file_order [Inr c] b) w"
  using assms by (auto simp: ready_to_store_def upload_message_steps_def then_do_assoc split_def wp_any cong: if_cong)

text \<open>
  C7: What is published need not be what was checked. An upload that has received everything reads its file, finds that it
  has the hash \<open>h\<close>, and goes on to copy it; in between, another upload stores a chunk \<open>c\<close> under the same hash. The first
  upload then publishes the item with a file named \<open>h\<close> whose content is the checked one with \<open>c\<close> at its end.
\<close>

theorem published_unchecked:
  assumes "sled_faults w = []" "io_faults w = []" "0 \<le> clock w" "room w" "reads_whole env"
    and "ready_to_publish a h name item" "file_order [h \<mapsto> name] = [h]" "ready_to_store env b h c"
    and "cached_files w (ev_hex_encode env h) = Some content" "ev_blake3 env content = h"
  shows "\<exists>w'. all_together env file_order wallets
      (w, [0 \<mapsto> upload_session env file_order [Inr msg] a, 1 \<mapsto> upload_session env file_order [Inr c] b])
      (w', [0 \<mapsto> finish None, 1 \<mapsto> finish None]) \<and>
    game_files w' (ev_hex_encode env h) = Some (content @ c) \<and>
    software_db w' (it_id item) = Some (item\<lparr>it_files := [h \<mapsto> name], it_creation_time := Some (of_int (clock w))\<rparr>)"
proof -
  let ?p = "upload_session env file_order [Inr msg] a" and ?p' = "upload_session env file_order [Inr c] b"
    and ?w = "w\<lparr>cached_files := (cached_files w)(ev_hex_encode env h \<mapsto> content @ c), io_faults := []\<rparr>"
  note p = publishing [where file_order = file_order and h = h and name = name, OF assms(6,7), where msg = msg] and read = source_read [OF assms(2,5,9)]
  obtain w' where rest: "run (after_check env h name item) ?w = (Done None, w')" "published_as env h name item (content @ c) ?w w'"
    using after_check_runs [of ?w env h "content @ c" name item] assms(1,3) by auto
  have "all_together env file_order wallets (w, [0 \<mapsto> ?p, 1 \<mapsto> ?p']) (w', [0 \<mapsto> Stop (Done None), 1 \<mapsto> Stop (Done None)])"
  proof (rule interrupted [where n = "Suc 0"])
    show "ahead (Suc 0) ?p w = (after_check env h name item, w)"
      unfolding p using assms(10) by (simp add: read)
    show "run ?p' w = (Done None, ?w)" by (rule chunk_stored [OF assms(8,2,9)])
    show "run (after_check env h name item) ?w = (Done None, w')" by (rule rest)
    show "passes room ?p w" unfolding p using assms(4,10) passes_after_check [OF assms(4)] by (simp add: wp_def read)
    show "passes room ?p' w" by (rule passes_chunk [OF assms(8,4)])
    show "passes room (after_check env h name item) ?w" using assms(4) by (intro passes_after_check) (simp add: room_def)
  qed
  with rest(2) show ?thesis by (auto simp: published_as_def)
qed

text \<open>Alice's game, and somebody who sends a chunk under its hash.\<close>

definition full_upload :: uploading where
  "full_upload = (fresh_upload offer_world)\<lparr>up_software_info := Some (offer_info example_env alice_offer, unpublished),
    up_num_chunks := 2, up_uploaded_image := True\<rparr>"

definition other_upload :: uploading where
  "other_upload = (fresh_upload offer_world)\<lparr>up_software_info := Some (offer_info example_env alice_offer, unpublished),
    up_chunk_info := Some \<lparr>ci_len = 2, ci_file = offer_hash example_env alice_offer\<rparr>\<rparr>"

definition sent_world :: world where
  "sent_world = offer_world\<lparr>cached_files := [ev_hex_encode example_env (offer_hash example_env alice_offer) \<mapsto> [40, 1, 2, 3]]\<rparr>"

theorem published_unchecked_witness:
  "\<exists>w' :: world. \<exists>content. game_files w' (ev_hex_encode example_env (offer_hash example_env alice_offer)) = Some content \<and>
    ev_blake3 example_env content \<noteq> offer_hash example_env alice_offer"
proof -
  have w: "sled_faults sent_world = []" "io_faults sent_world = []" "0 \<le> clock sent_world" "room sent_world"
    by (simp_all add: sent_world_def offer_world_def game_world_def catalogue_def empty_world_def room_def)
  have a: "ready_to_publish full_upload (offer_hash example_env alice_offer) ''a.zst'' unpublished"
    by (simp add: ready_to_publish_def full_upload_def fresh_upload_def offer_info_def alice_offer_def)
  have b: "ready_to_store example_env other_upload (offer_hash example_env alice_offer) [40, 1]"
    by (simp add: ready_to_store_def other_upload_def fresh_upload_def offer_info_def alice_offer_def unpublished_def
        example_item_def CHUNK_BUFFER_LEN_def example_env_def)
  have "cached_files sent_world (ev_hex_encode example_env (offer_hash example_env alice_offer)) = Some [40, 1, 2, 3]"
    "ev_blake3 example_env [40, 1, 2, 3] = offer_hash example_env alice_offer"
    by (simp_all add: sent_world_def offer_hash_def alice_offer_def)
  from published_unchecked [where file_order = by_hash and name = "''a.zst''" and h = "offer_hash example_env alice_offer" and
      msg = "[]" and wallets = "{example_wallet}", OF w example_reads_whole a by_hash_one b this]
  obtain w' :: world where "game_files w' (ev_hex_encode example_env (offer_hash example_env alice_offer)) = Some ([40, 1, 2, 3] @ [40, 1])"
    by blast
  moreover have "ev_blake3 example_env ([40, 1, 2, 3] @ [40, 1]) \<noteq> offer_hash example_env alice_offer"
    unfolding alice_hash by (simp add: example_env_def numeral_eq_Suc)
  ultimately show ?thesis by blast
qed

subsection \<open>A download that is not counted\<close>

text \<open>Counting a download once the record of the item has been read.\<close>

definition after_reading :: "string \<Rightarrow> u64 \<Rightarrow> (u64 \<rightharpoonup> bool) \<Rightarrow> software_downloads \<Rightarrow> (world, unit) steps" where
  "after_reading u i l ds = then_do (act now_utc) (\<lambda>time.
     then_do (act (unwrapped (db_insert DownloadCountDB i (btree_insert \<lparr>sd_time = time, sd_username = u\<rparr> ds)))) (\<lambda>_.
     then_do (act (unwrapped (db_insert SoftwareOwnershipDB u (l(i \<mapsto> True))))) (\<lambda>_. finish ())))"

lemma counting_starts:
  assumes "sled_faults w = []" "software_ownership_db w u = Some l" "l i \<noteq> Some True"
  shows "ahead 3 (count_download_steps u i) w = (after_reading u i l (downloads_on_record w i), w)"
  using assms
  by (cases "l i")
    (auto simp: count_download_steps_def get_or_insert_steps_def add_to_download_count_steps_def after_reading_def
      then_do_assoc Let_def numeral_eq_Suc auth_defs run_rules downloads_on_record_def unwrap_res_def ret_def)

lemma passes_still:
  assumes "room w" "wp m (\<lambda>_. still w) (still w) w" "\<And>x w'. room w' \<Longrightarrow> passes room (f x) w'"
  shows "passes room (then_do (act m) f) w"
proof -
  have "room w'" if "still w w'" for w' using that assms(1) by (simp add: still_def room_def)
  with assms show ?thesis by (auto intro: wp_conseq)
qed

lemma counting_passes: "room w \<Longrightarrow> passes room (count_download_steps u i) w"
  unfolding count_download_steps_def get_or_insert_steps_def add_to_download_count_steps_def then_do_assoc Let_def
  by (auto simp: then_do_assoc wp_ret wp_panic simp del: passes_act(2) intro!: passes_still still_calls split: sum.split option.split)

lemma reading_passes: "room w \<Longrightarrow> passes room (after_reading u i l ds) w"
  unfolding after_reading_def by (auto simp del: passes_act(2) intro!: passes_still still_calls)

lemma after_reading_runs:
  assumes "sled_faults w = []" "0 \<le> clock w"
  shows "\<exists>w'. run (after_reading u i l ds) w = (Done (), w') \<and>
    download_count_db w' = (download_count_db w)(i \<mapsto> btree_insert \<lparr>sd_time = UnixTimeUTC (of_int (clock w)), sd_username = u\<rparr> ds) \<and>
    software_ownership_db w' = (software_ownership_db w)(u \<mapsto> l(i \<mapsto> True))"
proof -
  have "wp (run (after_reading u i l ds)) (\<lambda>_ w'.
      download_count_db w' = (download_count_db w)(i \<mapsto> btree_insert \<lparr>sd_time = UnixTimeUTC (of_int (clock w)), sd_username = u\<rparr> ds) \<and>
      software_ownership_db w' = (software_ownership_db w)(u \<mapsto> l(i \<mapsto> True))) (\<lambda>_. False) w"
    using assms by (simp add: after_reading_def now_utc_def auth_defs wp_rules del: run.simps(1))
  from wp_run [OF this] show ?thesis by auto
qed

text \<open>
  C19: Of two downloads of one game at a time, one is never counted. Two users have been sent the game and their downloads are
  counted; the first session has read the record of downloads when the second does all of its counting, and some time later
  the first goes on. Then the record has the first download only, while both users are marked as having downloaded the game,
  so that no later download of theirs is counted either.
\<close>

theorem downloads_counted_over:
  assumes "sled_faults w = []" "0 \<le> clock w" "room w" "clock w < t" "u \<noteq> v"
    and "software_ownership_db w u = Some l" "l i \<noteq> Some True" "owned w v i \<noteq> Some True"
  shows "\<exists>w'. par_steps {} surroundings room (w, [0 \<mapsto> count_download_steps u i, 1 \<mapsto> count_download_steps v i])
      (w', [0 \<mapsto> finish (), 1 \<mapsto> finish ()]) \<and>
    downloads_on_record w' i = btree_insert \<lparr>sd_time = UnixTimeUTC (of_int t), sd_username = u\<rparr> (downloads_on_record w i) \<and>
    owned w' u i = Some True \<and> owned w' v i = Some True"
proof -
  obtain w1 where w1: "count_download v i w = (Done (), w1)" using counting_runs [OF assms(1,2)] by blast
  have d1: "data w1 = data (counted v i w)" using wp_done [OF count_download_wp w1] .
  let ?w1 = "w1\<lparr>clock := t, sled_faults := []\<rparr>"
  have later: "surroundings w1 ?w1"
    using data_eqD(17) [OF d1] assms(4) unfolding surroundings_def
    by (intro exI [of _ t] exI [of _ "[]"] exI [of _ "io_faults w1"] exI [of _ "log_queue w1"] exI [of _ "log_open w1"])
      (simp add: counted_def)
  obtain w2 where w2: "run (after_reading u i l (downloads_on_record w i)) ?w1 = (Done (), w2)"
    "download_count_db w2 = (download_count_db ?w1)(i \<mapsto>
      btree_insert \<lparr>sd_time = UnixTimeUTC (of_int t), sd_username = u\<rparr> (downloads_on_record w i))"
    "software_ownership_db w2 = (software_ownership_db ?w1)(u \<mapsto> l(i \<mapsto> True))"
    using after_reading_runs [of ?w1 u i l "downloads_on_record w i"] assms(2,4) by auto
  have "room ?w1" using data_eqD(11) [OF d1] assms(3) by (simp add: room_def counted_def)
  have "par_steps {} surroundings room (w, [0 \<mapsto> count_download_steps u i, 1 \<mapsto> count_download_steps v i])
      (w2, [0 \<mapsto> Stop (Done ()), 1 \<mapsto> Stop (Done ())])"
  proof (rule interrupted_later [where n = 3])
    show "ahead 3 (count_download_steps u i) w = (after_reading u i l (downloads_on_record w i), w)"
      by (rule counting_starts [OF assms(1,6,7)])
    show "run (count_download_steps v i) w = (Done (), w1)" by (simp add: w1 del: run.simps(1))
  qed (use later w2(1) counting_passes reading_passes assms(3) \<open>room ?w1\<close> in blast)+
  moreover have "downloads_on_record w2 i = btree_insert \<lparr>sd_time = UnixTimeUTC (of_int t), sd_username = u\<rparr> (downloads_on_record w i)"
    by (simp add: downloads_on_record_def w2(2))
  moreover have "owned w2 u i = Some True" "owned w2 v i = Some True"
    using w2(3) data_eqD(8) [OF d1] assms(5) by (simp_all add: owned_def counted_def)
  ultimately show ?thesis by blast
qed

theorem downloads_counted_over_witness:
  "\<exists>w' :: world. downloads_on_record w' 7 = [\<lparr>sd_time = UnixTimeUTC 2000, sd_username = ''alice''\<rparr>] \<and>
    owned w' ''alice'' 7 = Some True \<and> owned w' ''bob'' 7 = Some True"
proof -
  let ?w = "game_world\<lparr>clock := 1000, software_ownership_db := [''alice'' \<mapsto> Map.empty]\<rparr>"
  have w: "sled_faults ?w = []" "0 \<le> clock ?w" "room ?w" "clock ?w < 2000" "''alice'' \<noteq> ''bob''"
    "software_ownership_db ?w ''alice'' = Some Map.empty" "Map.empty (7 :: u64) \<noteq> Some True" "owned ?w ''bob'' 7 \<noteq> Some True"
    "downloads_on_record ?w 7 = []"
    by (simp_all add: game_world_def catalogue_def empty_world_def room_def owned_def downloads_on_record_def)
  from downloads_counted_over [OF w(1-8)] w(9) show ?thesis by fastforce
qed

subsection \<open>A search that takes a download out of the record\<close>

text \<open>A search with one hit, up to the point where the downloads of the item are looked up.\<close>

definition after_lookup :: "http_request \<Rightarrow> u64 \<Rightarrow> (world, (http_request \<times> status) option) steps" where
  "after_lookup req i = then_do (act (unwrapped (db_insert DownloadCountDB i []))) (\<lambda>_.
     then_do (act (unwrap_res (Inr [] :: sled_error + software_downloads))) (\<lambda>_. finish (Some (req, OK))))"

abbreviation search_job where
  "search_job env wallet d ip r \<equiv> job_steps env (Request wallet d ip (Post_search_software r))"

lemma walks_hits:
  assumes "length results + length (filter (matches env (sq_term r) \<circ> snd) items) \<le> n"
  shows "ahead (length items + m) (then_do (consider_items_steps env r n (map Inr items) results) f) w =
    ahead m (f (results @ map snd (filter (matches env (sq_term r) \<circ> snd) items))) w"
  using assms
proof (induction items arbitrary: results)
  case (Cons x items)
  obtain i it where x: "x = (i, it)" by (cases x)
  show ?case
  proof (cases "matches env (sq_term r) it")
    case True
    then show ?thesis using Cons.IH [of "results @ [it]"] Cons.prems
      by (simp add: x then_do_assoc unwrap_res_def ret_def consider_item_steps_def)
  next
    case False
    then show ?thesis using Cons.IH [of results] Cons.prems
      by (simp add: x then_do_assoc unwrap_res_def ret_def consider_item_steps_def)
  qed
qed simp

lemma search_starts:
  assumes "sled_faults w = []" "hits env r (dr_items d) w = [it]"
    and "0 < sq_num_results r" "sq_num_results r \<le> MAX_NUM_RESULTS" "download_count_db w (it_id it) = None"
  shows "ahead (Suc (Suc (length (entries (dr_items d) (software_db w)) + Suc (Suc 0)))) (search_job env wallet d ip r) w =
    (after_lookup (Post_search_software r) (it_id it), w)"
proof -
  let ?es = "entries (dr_items d) (software_db w)"
  have hit: "map snd (filter (matches env (sq_term r) \<circ> snd) ?es) = [it]"
    using assms(2) by (simp add: hits_def filter_map)
  then have one: "length (filter (matches env (sq_term r) \<circ> snd) ?es) = 1" by (metis length_map One_nat_def length_Cons list.size(3))
  then have "1 \<le> length ?es" by (metis length_filter_le)
  moreover have "0 < unat (sq_num_results r)" using assms(3) by (simp add: unat_gt_0 word_neq_0_conv)
  ultimately have "length ([] :: item list) + length (filter (matches env (sq_term r) \<circ> snd) ?es) \<le> min (length ?es) (unat (sq_num_results r))"
    using one by simp
  note walk = walks_hits [OF this, where m = "Suc (Suc 0)", unfolded add_Suc_right add_0_right]
  have "it \<in> set (hits env r (dr_items d) w)" using assms(2) by simp
  then obtain t where "it_creation_time it = Some t" by (auto simp: hits_def matches_def)
  moreover have "(MAX_NUM_RESULTS < sq_num_results r) = False" using assms(4) by simp
  ultimately show ?thesis using assms(1,5) hit unfolding after_lookup_def
    by (simp add: search_software_steps_def downloads_of_steps_def get_or_insert_steps_def then_do_assoc walk db_len_def
      gets_def ret_def unwrap_opt_def auth_defs run_rules)
qed

lemma search_passes: "room w \<Longrightarrow> passes room (search_job env wallet d ip r) w"
  by (auto simp: then_do_assoc undisturbed_def same_shelf_def room_def intro!: passes_within [OF search_looks])

lemma lookup_passes: "room w \<Longrightarrow> passes room (after_lookup req i) w"
  by (auto simp: after_lookup_def auth_defs wp_rules room_def)

lemma after_lookup_runs:
  assumes "sled_faults w = []"
  shows "run (after_lookup req i) w = (Done (Some (req, OK)), w\<lparr>sled_faults := [], download_count_db := (download_count_db w)(i \<mapsto> [])\<rparr>)"
  using assms by (simp add: after_lookup_def and_then_def ret_def auth_defs run_rules unwrap_res_def del: run.simps(1))

text \<open>
  C20: A search can take a download out of the record for good. It looks up the downloads of an item that has none yet, which
  stores an empty record for it; when a session counts the first download of the item between the two, the search stores the
  empty record over it. The search is answered with 200, the record has no download, and the user is marked as
  having downloaded the game, so that no later download of theirs is counted either.
\<close>

theorem search_forgets_download:
  assumes "sled_faults w = []" "0 \<le> clock w" "room w" "hits env r (dr_items d) w = [it]"
    and "0 < sq_num_results r" "sq_num_results r \<le> MAX_NUM_RESULTS"
    and "download_count_db w (it_id it) = None" "owned w u (it_id it) \<noteq> Some True"
  shows "\<exists>w'. par_steps {} surroundings room
      (w, [0 \<mapsto> search_job env wallet d ip r, 1 \<mapsto> then_do (count_download_steps u (it_id it)) (\<lambda>_. finish None)])
      (w', [0 \<mapsto> finish (Some (Post_search_software r, OK)), 1 \<mapsto> finish None]) \<and>
    downloads_on_record w' (it_id it) = [] \<and> owned w' u (it_id it) = Some True \<and>
    wp (count_download u (it_id it)) (\<lambda>_ w2. downloads_on_record w2 (it_id it) = []) (\<lambda>_. True) w'"
proof -
  let ?i = "it_id it" and ?s = "search_job env wallet d ip r"
  let ?c = "then_do (count_download_steps u ?i) (\<lambda>_. finish None :: (world, (http_request \<times> status) option) steps)"
  obtain w1 where w1: "count_download u ?i w = (Done (), w1)" "sled_faults w1 = []" using counting_runs [OF assms(1,2)] by blast
  have d1: "data w1 = data (counted u ?i w)" using wp_done [OF count_download_wp w1(1)] .
  let ?w = "w1\<lparr>sled_faults := [], download_count_db := (download_count_db w1)(?i \<mapsto> [])\<rparr>"
  have marked: "owned ?w u ?i = Some True" using data_eqD(8) [OF d1] by (simp add: owned_def counted_def)
  have "par_steps {} surroundings room (w, [0 \<mapsto> ?s, 1 \<mapsto> ?c]) (?w, [0 \<mapsto> Stop (Done (Some (Post_search_software r, OK))), 1 \<mapsto> Stop (Done None)])"
  proof (rule interrupted)
    show "passes room ?s w" by (rule search_passes [OF assms(3)])
    show "passes room ?c w" using counting_passes [OF assms(3)] by (simp add: passes_then_finish)
    show "passes room (after_lookup (Post_search_software r) ?i) w1"
      using data_eqD(11) [OF d1] assms(3) by (intro lookup_passes) (simp add: room_def counted_def)
    show "run ?c w = (Done None, w1)" by (simp add: w1(1) and_then_def ret_def del: run.simps(1))
  qed (rule search_starts [OF assms(1,4-7)], rule after_lookup_runs [OF w1(2)])
  moreover have "downloads_on_record ?w ?i = []" by (simp add: downloads_on_record_def)
  moreover have "wp (count_download u ?i) (\<lambda>_ w2. downloads_on_record w2 ?i = []) (\<lambda>_. True) ?w"
  proof (rule wp_conseq [OF count_download_wp])
    fix w2 assume "data w2 = data (counted u ?i ?w)"
    from data_eqD(7) [OF this] marked show "downloads_on_record w2 ?i = []"
      by (simp add: downloads_on_record_def counted_def)
  qed simp
  ultimately show ?thesis using marked by blast
qed

theorem search_forgets_download_witness:
  "\<exists>w' :: world. download_count_db game_world 7 = None \<and> downloads_on_record w' 7 = [] \<and> owned w' ''bob'' 7 = Some True"
proof -
  let ?d = "alice_draws\<lparr>dr_items := [7]\<rparr>" and ?r = "chess_search 1"
  have w: "sled_faults game_world = []" "0 \<le> clock game_world" "room game_world"
    "hits example_env ?r (dr_items ?d) game_world = [example_item 7 ''chess''\<lparr>it_files := [game_hash \<mapsto> ''a.zst'']\<rparr>]"
    "0 < sq_num_results ?r" "sq_num_results ?r \<le> MAX_NUM_RESULTS" "download_count_db game_world 7 = None"
    "owned game_world ''bob'' 7 \<noteq> Some True"
    by (simp_all add: game_world_def catalogue_def empty_world_def room_def owned_def hits_def chess_search_def
      example_item_def matches_def example_env_def MAX_NUM_RESULTS_def)
  from search_forgets_download [where env = example_env and d = ?d and u = "''bob''", OF w(1-6)] w(7,8)
  show ?thesis by (auto simp: example_item_def)
qed

end
